(* ===== verification/Tbx_Prelude.thy ===== *)
theory Tbx_Prelude
  imports Main "HOL-Library.Word" "HOL-Library.AList" "HOL-Library.Sublist"
    "HOL-Library.List_Lexorder" "HOL-Library.Char_ord" "HOL-Library.Signed_Division"
begin

text \<open>
  Shared ground of the development.

  \<^item> Go's \<^verbatim>\<open>int\<close> is a 64-bit two's complement integer. The model keeps such values as
    \<^typ>\<open>int\<close> and writes \<open>i64\<close> around the arithmetic the code can overflow; \<open>in_i64\<close> says
    that a value needs no wrapping, and the collection \<open>i64_simps\<close> removes it.
  \<^item> Integer division truncates towards zero (\<open>sdiv\<close> of \<^verbatim>\<open>Signed_Division\<close>).
  \<^item> A fallible function returns \<open>'e + 'a\<close>: \<^const>\<open>Inl\<close> is the error, \<^const>\<open>Inr\<close> the result.
    The bind of that type is \<open>try_bind\<close>; its splitting rules are in \<open>try_simps\<close>.
  \<^item> A Go map that the code ranges over is an association list with distinct keys; one that is
    only looked up is a partial function.
  \<^item> \<open>transition_system\<close> is the interface of every component with state: operations as a step
    function, an invariant that each of them keeps, hence every run keeps it.
\<close>

named_theorems i64_simps
named_theorems try_simps

subsection \<open>Machine integers\<close>

definition i64 :: "int \<Rightarrow> int" where
  "i64 x = (x + 2 ^ 63) mod 2 ^ 64 - 2 ^ 63"

definition in_i64 :: "int \<Rightarrow> bool" where
  "in_i64 x \<longleftrightarrow> - (2 ^ 63) \<le> x \<and> x < 2 ^ 63"

lemma i64_in_range [i64_simps]: "in_i64 x \<Longrightarrow> i64 x = x"
  by (simp add: i64_def in_i64_def)

lemma in_i64_i64 [simp]: "in_i64 (i64 x)"
  by (simp add: i64_def in_i64_def)

lemma i64_small: "0 \<le> x \<Longrightarrow> x < 2 ^ 63 \<Longrightarrow> i64 x = x"
  by (simp add: i64_in_range in_i64_def)

lemma i64_wrap: "2 ^ 63 \<le> x \<Longrightarrow> x < 3 * 2 ^ 63 \<Longrightarrow> i64 x = x - 2 ^ 64"
proof -
  assume x: "2 ^ 63 \<le> x" "x < 3 * 2 ^ 63"
  have "(x + 2 ^ 63) mod 2 ^ 64 = (x + 2 ^ 63 - 2 ^ 64) mod 2 ^ 64"
    by (rule minus_mod_self2 [symmetric])
  also have "\<dots> = x + 2 ^ 63 - 2 ^ 64"
    using x by (intro mod_pos_pos_trivial) simp_all
  finally show ?thesis by (simp add: i64_def)
qed

text \<open>A 64-bit counter: its successor is at most one more, and is more unless it wraps.\<close>

lemma unat_succ: "unat (w + 1 :: 64 word) \<le> unat w + 1"
  by (simp only: unat_word_ariths(1) unsigned_1 mod_less_eq_dividend)

lemma word_less_succ: "unat (w :: 64 word) + 1 < 2 ^ 64 \<Longrightarrow> w < w + 1"
proof -
  assume h: "unat w + 1 < 2 ^ 64"
  have "unat (w + 1) = (unat w + 1) mod 2 ^ LENGTH(64)"
    by (simp only: unat_word_ariths(1) unsigned_1)
  also have "\<dots> = unat w + 1" by (rule mod_less) (use h in simp)
  finally show ?thesis by (simp only: word_less_nat_alt less_add_one)
qed

lemma sdiv_nonneg: "0 \<le> a \<Longrightarrow> 0 < b \<Longrightarrow> a sdiv b = a div (b :: int)"
  by (cases "a = 0") (simp_all add: signed_divide_int_def)

subsection \<open>Results\<close>

definition try_bind :: "'e + 'a \<Rightarrow> ('a \<Rightarrow> 'e + 'b) \<Rightarrow> 'e + 'b" where
  "try_bind r f = (case r of Inl e \<Rightarrow> Inl e | Inr a \<Rightarrow> f a)"

lemma try_bind_Inl [simp, try_simps]: "try_bind (Inl e) f = Inl e"
  by (simp add: try_bind_def)

lemma try_bind_Inr [simp, try_simps]: "try_bind (Inr a) f = f a"
  by (simp add: try_bind_def)

lemma try_bind_eq_Inr [try_simps]:
  "try_bind r f = Inr b \<longleftrightarrow> (\<exists>a. r = Inr a \<and> f a = Inr b)"
  by (cases r) simp_all

lemma try_bind_eq_Inl [try_simps]:
  "try_bind r f = Inl e \<longleftrightarrow> r = Inl e \<or> (\<exists>a. r = Inr a \<and> f a = Inl e)"
  by (cases r) simp_all

text \<open>A loop whose body may return early with an error.\<close>

fun fold_try :: "('s \<Rightarrow> 'a \<Rightarrow> 'e + 's) \<Rightarrow> 's \<Rightarrow> 'a list \<Rightarrow> 'e + 's" where
  "fold_try f s [] = Inr s"
| "fold_try f s (x # xs) = try_bind (f s x) (\<lambda>t. fold_try f t xs)"

lemma fold_try_append:
  "fold_try f s (xs @ ys) = try_bind (fold_try f s xs) (\<lambda>t. fold_try f t ys)"
  by (induction xs arbitrary: s) (simp_all add: try_bind_def split: sum.split)

lemma fold_try_inv:
  assumes "fold_try f s xs = Inr t" "I s"
    and "\<And>s x t. x \<in> set xs \<Longrightarrow> I s \<Longrightarrow> f s x = Inr t \<Longrightarrow> I t"
  shows "I t"
  using assms by (induction xs arbitrary: s) (auto simp: try_simps)

lemma fold_try_mono:
  assumes "fold_try f s xs = Inr t" "le s s"
    and "\<And>s x t. x \<in> set xs \<Longrightarrow> f s x = Inr t \<Longrightarrow> le s t"
    and "\<And>a b c. le a b \<Longrightarrow> le b c \<Longrightarrow> le a c" "\<And>a. le a a"
  shows "le s t"
  using assms by (induction xs arbitrary: s) (fastforce simp: try_simps)+

subsection \<open>Lists\<close>

text \<open>The first index in \<open>[i..<n]\<close> that satisfies a predicate: the shape of the code's
  lowest-free searches.\<close>

definition first_index :: "(nat \<Rightarrow> bool) \<Rightarrow> nat \<Rightarrow> nat \<Rightarrow> nat option" where
  "first_index P i n = find P [i..<n]"

lemma find_upt_Some:
  "find P [i..<n] = Some k \<longleftrightarrow> i \<le> k \<and> k < n \<and> P k \<and> (\<forall>j. i \<le> j \<and> j < k \<longrightarrow> \<not> P j)"
proof
  assume "find P [i..<n] = Some k"
  then obtain m where m: "m < n - i" "P (i + m)" "k = i + m" "\<forall>j<m. \<not> P (i + j)"
    by (auto simp: find_Some_iff)
  have "\<not> P j" if "i \<le> j" "j < k" for j
    using m(3,4) that by (metis le_add_diff_inverse nat_add_left_cancel_less)
  with m show "i \<le> k \<and> k < n \<and> P k \<and> (\<forall>j. i \<le> j \<and> j < k \<longrightarrow> \<not> P j)"
    by simp
next
  assume "i \<le> k \<and> k < n \<and> P k \<and> (\<forall>j. i \<le> j \<and> j < k \<longrightarrow> \<not> P j)"
  then show "find P [i..<n] = Some k"
    by (auto simp: find_Some_iff intro!: exI [of _ "k - i"])
qed

lemma find_upt_None: "find P [i..<n] = None \<longleftrightarrow> (\<forall>j. i \<le> j \<and> j < n \<longrightarrow> \<not> P j)"
  by (auto simp: find_None_iff)

lemma upt_split:
  assumes "[i..<n] = as @ k # bs"
  shows "as = [i..<k] \<and> i \<le> k \<and> k < n"
proof -
  have len: "length as < n - i" using arg_cong [OF assms, of length] by simp
  have "k = [i..<n] ! length as" by (simp add: assms)
  with len have k: "k = i + length as" by simp
  have "as = take (length as) [i..<n]" by (simp add: assms)
  with len k show ?thesis by (simp add: take_upt)
qed

lemma first_index_Some [simp]:
  "first_index P i n = Some k \<longleftrightarrow> i \<le> k \<and> k < n \<and> P k \<and> (\<forall>j. i \<le> j \<and> j < k \<longrightarrow> \<not> P j)"
  by (simp add: first_index_def find_upt_Some)

lemma first_index_None [simp]:
  "first_index P i n = None \<longleftrightarrow> (\<forall>j. i \<le> j \<and> j < n \<longrightarrow> \<not> P j)"
  by (auto simp: first_index_def find_upt_None)

subsection \<open>Maps the code ranges over\<close>

type_synonym ('k, 'v) gomap = "('k \<times> 'v) list"

definition keys :: "('k, 'v) gomap \<Rightarrow> 'k list" where
  "keys m = map fst m"

abbreviation has_key :: "('k, 'v) gomap \<Rightarrow> 'k \<Rightarrow> bool" where
  "has_key m k \<equiv> map_of m k \<noteq> None"

definition gomap_ok :: "('k, 'v) gomap \<Rightarrow> bool" where
  "gomap_ok m \<longleftrightarrow> distinct (keys m)"

lemma gomap_ok_Nil [simp]: "gomap_ok []"
  by (simp add: gomap_ok_def keys_def)

lemma gomap_ok_update [simp]: "gomap_ok m \<Longrightarrow> gomap_ok (AList.update k v m)"
  by (simp add: gomap_ok_def keys_def distinct_update)

lemma gomap_ok_delete [simp]: "gomap_ok m \<Longrightarrow> gomap_ok (AList.delete k m)"
  by (simp add: gomap_ok_def keys_def distinct_delete)

lemma gomap_ok_filter [simp]: "gomap_ok m \<Longrightarrow> gomap_ok (filter P m)"
  by (induction m) (auto simp: gomap_ok_def keys_def)

lemma map_of_update [simp]: "map_of (AList.update k v m) x = (if x = k then Some v else map_of m x)"
  by (simp add: update_conv')

lemma map_of_delete [simp]: "map_of (AList.delete k m) x = (if x = k then None else map_of m x)"
  by (simp add: delete_conv' restrict_map_def)

lemma set_keys: "set (keys m) = dom (map_of m)"
  by (simp add: keys_def dom_map_of_conv_image_fst)

lemma has_key_keys: "has_key m k \<longleftrightarrow> k \<in> set (keys m)"
  by (auto simp: set_keys)

subsection \<open>Components with state\<close>

text \<open>
  The contract a stateful component offers its callers: each operation (an event) takes the
  state to its successor, and the invariant survives every one of them.
\<close>

locale transition_system =
  fixes step :: "'s \<Rightarrow> 'e \<Rightarrow> 's"
    and inv :: "'s \<Rightarrow> bool"
  assumes inv_step: "inv s \<Longrightarrow> inv (step s e)"
begin

lemma inv_foldl: "inv s \<Longrightarrow> inv (foldl step s es)"
  by (induction es arbitrary: s) (simp_all add: inv_step)

end

text \<open>A component that also fixes the state it starts in.\<close>

locale started_system = transition_system step inv
  for step :: "'s \<Rightarrow> 'e \<Rightarrow> 's" and inv :: "'s \<Rightarrow> bool" +
  fixes init :: 's
  assumes inv_init: "inv init"
begin

lemma inv_run: "inv (foldl step init es)"
  by (rule inv_foldl [OF inv_init])

end

text \<open>
  Functional refinement: a component whose state is read through an abstraction, on which every
  operation acts as the abstract one. Runs of the component are then runs of the abstract one.
\<close>

locale refined_system = started_system step inv init
  for step :: "'s \<Rightarrow> 'e \<Rightarrow> 's" and inv :: "'s \<Rightarrow> bool" and init :: 's +
  fixes view :: "'s \<Rightarrow> 'a"
    and spec :: "'a \<Rightarrow> 'e \<Rightarrow> 'a"
  assumes view_step: "inv s \<Longrightarrow> view (step s e) = spec (view s) e"
begin

lemma view_foldl: "inv s \<Longrightarrow> view (foldl step s es) = foldl spec (view s) es"
  by (induction es arbitrary: s) (simp_all add: inv_step view_step)

lemma view_run: "view (foldl step init es) = foldl spec (view init) es"
  by (rule view_foldl [OF inv_init])

end

end
