(* ===== verification/Provisioning.thy ===== *)
theory Provisioning
  imports Tbx_Prelude
begin

text \<open>
  The provisioning intent of a cluster, \<^verbatim>\<open>src/internal/cluster/provisioning.go\<close>: the durable
  networking and storage choice, its wire form with optional knobs, the validation that turns
  the second into the first, and the way back.
\<close>

subsection \<open>Data\<close>

definition CNICilium :: string where "CNICilium = ''cilium''"
definition CNIFlannel :: string where "CNIFlannel = ''flannel''"
definition CSILonghorn :: string where "CSILonghorn = ''longhorn''"
definition CSILocalPath :: string where "CSILocalPath = ''local-path''"

record provisioning_intent =
  pi_cni :: string
  pi_csi :: string
  pi_lb :: bool
  pi_bgp :: bool
  pi_hubble :: bool
  pi_disable_kubelet_memory_protection :: bool

definition no_intent :: provisioning_intent where
  "no_intent = \<lparr>pi_cni = [], pi_csi = [], pi_lb = False, pi_bgp = False, pi_hubble = False,
                pi_disable_kubelet_memory_protection = False\<rparr>"

record intent_input =
  in_cni :: string
  in_csi :: string
  in_lb :: "bool option"
  in_bgp :: "bool option"
  in_hubble :: "bool option"
  in_kubelet_memory_protection :: "bool option"

definition no_input :: intent_input where
  "no_input = \<lparr>in_cni = [], in_csi = [], in_lb = None, in_bgp = None, in_hubble = None,
               in_kubelet_memory_protection = None\<rparr>"

datatype intent_error =
    CsiRequiresCni
  | LbRequiresCni
  | BgpRequiresCniAndLb
  | HubbleRequiresCilium
  | KubeletProtectionRequiresCni
  | BadCni string
  | BadCsi string
  | BgpRequiresLb
  | BgpRequiresCilium

subsection \<open>Operations\<close>

definition parse_provisioning_intent ::
    "string \<Rightarrow> string \<Rightarrow> bool option \<Rightarrow> bool option \<Rightarrow> bool option \<Rightarrow> bool option
     \<Rightarrow> intent_error + provisioning_intent" where
  "parse_provisioning_intent cni csi lb bgp hubble kmp =
     (if cni = [] then
        (if csi \<noteq> [] then Inl CsiRequiresCni
         else if lb \<noteq> None then Inl LbRequiresCni
         else if bgp \<noteq> None then Inl BgpRequiresCniAndLb
         else if hubble \<noteq> None then Inl HubbleRequiresCilium
         else if kmp \<noteq> None then Inl KubeletProtectionRequiresCni
         else Inr no_intent)
      else if cni \<noteq> CNICilium \<and> cni \<noteq> CNIFlannel then Inl (BadCni cni)
      else if csi \<noteq> [] \<and> csi \<noteq> CSILonghorn \<and> csi \<noteq> CSILocalPath then Inl (BadCsi csi)
      else
        (let intent = no_intent\<lparr>pi_cni := cni, pi_csi := csi, pi_lb := True\<rparr>;
             intent = (case lb of None \<Rightarrow> intent | Some v \<Rightarrow> intent\<lparr>pi_lb := v\<rparr>);
             intent = (case bgp of None \<Rightarrow> intent | Some v \<Rightarrow> intent\<lparr>pi_bgp := v\<rparr>);
             intent = (case hubble of None \<Rightarrow> intent | Some v \<Rightarrow> intent\<lparr>pi_hubble := v\<rparr>);
             intent = (case kmp of None \<Rightarrow> intent
                       | Some v \<Rightarrow> intent\<lparr>pi_disable_kubelet_memory_protection := \<not> v\<rparr>)
         in if pi_bgp intent \<and> \<not> pi_lb intent then Inl BgpRequiresLb
            else if pi_bgp intent \<and> pi_cni intent \<noteq> CNICilium then Inl BgpRequiresCilium
            else if pi_hubble intent \<and> pi_cni intent \<noteq> CNICilium then Inl HubbleRequiresCilium
            else Inr intent))"

definition intent_of_input :: "intent_input \<Rightarrow> intent_error + provisioning_intent" where
  "intent_of_input i =
     parse_provisioning_intent (in_cni i) (in_csi i) (in_lb i) (in_bgp i) (in_hubble i)
       (in_kubelet_memory_protection i)"

definition input_of_intent :: "provisioning_intent \<Rightarrow> intent_input" where
  "input_of_intent i =
     (if pi_cni i = [] then no_input
      else \<lparr>in_cni = pi_cni i, in_csi = pi_csi i, in_lb = Some (pi_lb i), in_bgp = Some (pi_bgp i),
            in_hubble = Some (pi_hubble i),
            in_kubelet_memory_protection =
              (if pi_disable_kubelet_memory_protection i then Some False else None)\<rparr>)"

subsection \<open>Which intents a cluster can carry\<close>

text \<open>The specification: substrate-only intent carries nothing; otherwise the network and the
  storage are curated ones, BGP needs the load balancer, and BGP and Hubble need Cilium.\<close>

definition intent_ok :: "provisioning_intent \<Rightarrow> bool" where
  "intent_ok i \<longleftrightarrow>
     (if pi_cni i = [] then i = no_intent
      else pi_cni i \<in> {CNICilium, CNIFlannel} \<and> pi_csi i \<in> {[], CSILonghorn, CSILocalPath}
           \<and> (pi_bgp i \<longrightarrow> pi_lb i \<and> pi_cni i = CNICilium)
           \<and> (pi_hubble i \<longrightarrow> pi_cni i = CNICilium))"

lemmas cni_consts = CNICilium_def CNIFlannel_def

lemma no_intent_ok [simp]: "intent_ok no_intent"
  by (simp add: intent_ok_def no_intent_def)

lemma parse_intent_cni:
  assumes "cni \<noteq> []"
  shows "parse_provisioning_intent cni csi lb bgp hubble kmp =
    (let i = \<lparr>pi_cni = cni, pi_csi = csi, pi_lb = case_option True id lb,
              pi_bgp = case_option False id bgp, pi_hubble = case_option False id hubble,
              pi_disable_kubelet_memory_protection = case_option False Not kmp\<rparr>
     in if cni \<notin> {CNICilium, CNIFlannel} then Inl (BadCni cni)
        else if csi \<notin> {[], CSILonghorn, CSILocalPath} then Inl (BadCsi csi)
        else if pi_bgp i \<and> \<not> pi_lb i then Inl BgpRequiresLb
        else if pi_bgp i \<and> cni \<noteq> CNICilium then Inl BgpRequiresCilium
        else if pi_hubble i \<and> cni \<noteq> CNICilium then Inl HubbleRequiresCilium
        else Inr i)"
  using assms unfolding parse_provisioning_intent_def Let_def
  by (cases lb; cases bgp; cases hubble; cases kmp) (simp_all add: no_intent_def)

lemma parse_intent_no_cni:
  "parse_provisioning_intent [] csi lb bgp hubble kmp = Inr i \<Longrightarrow> i = no_intent"
  by (simp add: parse_provisioning_intent_def split: if_splits)

lemma parse_intent_sound:
  assumes "parse_provisioning_intent cni csi lb bgp hubble kmp = Inr i"
  shows "intent_ok i"
proof (cases "cni = []")
  case True
  then show ?thesis using assms by (auto dest: parse_intent_no_cni)
next
  case False
  then show ?thesis using assms
    by (auto simp: parse_intent_cni Let_def intent_ok_def split: if_splits)
qed

lemma intent_of_input_of_intent:
  assumes "intent_ok i"
  shows "intent_of_input (input_of_intent i) = Inr i"
proof (cases "pi_cni i = []")
  case True
  then show ?thesis using assms
    by (simp add: intent_ok_def input_of_intent_def no_input_def intent_of_input_def
        parse_provisioning_intent_def)
next
  case False
  then show ?thesis using assms
    by (cases i) (auto simp: intent_of_input_def input_of_intent_def parse_intent_cni Let_def
        intent_ok_def)
qed

text \<open>The intents the parser can return are exactly the well-formed ones.\<close>

lemma intent_ok_iff_parsed: "intent_ok i \<longleftrightarrow> (\<exists>inp. intent_of_input inp = Inr i)"
  by (metis intent_of_input_of_intent intent_of_input_def parse_intent_sound)

subsection \<open>Properties\<close>

text \<open>An intent is well-formed exactly when printing it in wire form and validating that form
  returns it; so the validated intents are the well-formed ones, and none of them is lost or
  changed on its way through the protocol.\<close>

lemma provisioning_roundtrip: "intent_ok i \<longleftrightarrow> intent_of_input (input_of_intent i) = Inr i"
  using intent_of_input_of_intent intent_ok_iff_parsed by blast

end
