(* ===== verification/Go_Net.thy ===== *)
theory Go_Net
  imports Go_Strings
begin

text \<open>
  The parts of Go's \<^verbatim>\<open>net\<close> the program uses: addresses, masks, networks and MACs, their parsers
  (\<^verbatim>\<open>ParseIP\<close>, \<^verbatim>\<open>ParseCIDR\<close>, \<^verbatim>\<open>ParseMAC\<close>, IPv6 forms included) and printers. A \<^verbatim>\<open>net.IP\<close> is a byte
  slice of length 4 or 16 whose \<^verbatim>\<open>nil\<close> is \<^term>\<open>[] :: 8 word list\<close>.
\<close>

unbundle bit_operations_syntax

type_synonym byte = "8 word"
type_synonym ip = "byte list"
type_synonym mask = "byte list"
type_synonym mac = "byte list"

definition byte_of_char :: "char \<Rightarrow> byte" where
  "byte_of_char c = word_of_nat (of_char c)"

definition char_of_byte :: "byte \<Rightarrow> char" where
  "char_of_byte b = char_of (unat b)"

subsection \<open>Addresses\<close>

definition v4_in_v6 :: "byte list" where
  "v4_in_v6 = replicate 10 0 @ [0xFF, 0xFF]"

definition to4 :: "ip \<Rightarrow> ip" where
  "to4 a = (if length a = 4 then a
     else if length a = 16 \<and> take 12 a = v4_in_v6 then drop 12 a else [])"

definition ip_equal :: "ip \<Rightarrow> ip \<Rightarrow> bool" where
  "ip_equal a b =
     (if length a = length b then a = b
      else if length a = 4 \<and> length b = 16 then b = v4_in_v6 @ a
      else if length a = 16 \<and> length b = 4 then a = v4_in_v6 @ b else False)"

definition parse_octet :: "string \<Rightarrow> byte option" where
  "parse_octet s =
     (if s = [] \<or> (length s > 1 \<and> hd s = CHR ''0'') then None
      else (case digits_value 10 0 s of
          Some n \<Rightarrow> if n \<le> 255 then Some (word_of_nat n) else None
        | None \<Rightarrow> None))"

definition parse_ipv4 :: "string \<Rightarrow> byte list option" where
  "parse_ipv4 s = (case map parse_octet (split_on (CHR ''.'') s) of
      [Some a, Some b, Some c, Some d] \<Rightarrow> Some [a, b, c, d]
    | _ \<Rightarrow> None)"

definition is_hex :: "char \<Rightarrow> bool" where
  "is_hex c = (case digit_val c of Some d \<Rightarrow> d < 16 | None \<Rightarrow> False)"

definition hex_group :: "string \<Rightarrow> byte list" where
  "hex_group h =
     (let d = replicate (4 - length h) 0 @ map (\<lambda>c. the (digit_val c)) h
      in [word_of_nat (16 * d ! 0 + d ! 1), word_of_nat (16 * d ! 2 + d ! 3)])"

text \<open>The loop of \<^verbatim>\<open>netip.parseIPv6\<close>: at most eight groups; the first argument counts the groups
  there is still room for, the third is the position of the ellipsis.\<close>

fun v6_groups :: "nat \<Rightarrow> byte list \<Rightarrow> nat option \<Rightarrow> string \<Rightarrow> (byte list \<times> nat option) option" where
  "v6_groups 0 acc ell s = (if s = [] then Some (acc, ell) else None)"
| "v6_groups (Suc n) acc ell s =
     (let h = takeWhile is_hex s; r = dropWhile is_hex s in
      if h = [] \<or> length h > 4 then None
      else (case r of
          [] \<Rightarrow> Some (acc @ hex_group h, ell)
        | c # r' \<Rightarrow>
            if c = CHR ''.'' then
              (if (ell = None \<and> length acc \<noteq> 12) \<or> length acc + 4 > 16 then None
               else (case parse_ipv4 s of None \<Rightarrow> None | Some bs \<Rightarrow> Some (acc @ bs, ell)))
            else if c \<noteq> CHR '':'' \<or> r' = [] then None
            else if hd r' = CHR '':'' then
              (if ell \<noteq> None then None
               else if tl r' = [] then Some (acc @ hex_group h, Some (length acc + 2))
               else v6_groups n (acc @ hex_group h) (Some (length acc + 2)) (tl r'))
            else v6_groups n (acc @ hex_group h) ell r'))"

definition v6_expand :: "byte list \<times> nat option \<Rightarrow> byte list option" where
  "v6_expand p = (case p of (bs, ell) \<Rightarrow>
     if length bs < 16
     then map_option (\<lambda>e. take e bs @ replicate (16 - length bs) 0 @ drop e bs) ell
     else if ell = None then Some bs else None)"

definition parse_ipv6 :: "string \<Rightarrow> byte list option" where
  "parse_ipv6 s =
     (if prefix ''::'' s then
        (if drop 2 s = [] then Some (replicate 16 0)
         else Option.bind (v6_groups 8 [] (Some 0) (drop 2 s)) v6_expand)
      else Option.bind (v6_groups 8 [] None s) v6_expand)"

datatype addr = V4 "byte list" | V6 "byte list"

text \<open>\<^verbatim>\<open>netip.ParseAddr\<close> with the scoped forms (a \<^verbatim>\<open>%zone\<close>) already rejected, as both callers do.\<close>

definition parse_addr :: "string \<Rightarrow> addr option" where
  "parse_addr s =
     (if CHR ''%'' \<in> set s then None
      else (case find (\<lambda>c. c = CHR ''.'' \<or> c = CHR '':'') s of
          None \<Rightarrow> None
        | Some c \<Rightarrow> if c = CHR ''.'' then map_option V4 (parse_ipv4 s) else map_option V6 (parse_ipv6 s)))"

fun as16 :: "addr \<Rightarrow> ip" where
  "as16 (V4 bs) = v4_in_v6 @ bs"
| "as16 (V6 bs) = bs"

fun bit_len :: "addr \<Rightarrow> nat" where
  "bit_len (V4 bs) = 32"
| "bit_len (V6 bs) = 128"

definition parse_ip :: "string \<Rightarrow> ip" where
  "parse_ip s = (case parse_addr s of None \<Rightarrow> [] | Some a \<Rightarrow> as16 a)"

definition ip4_string :: "ip \<Rightarrow> string" where
  "ip4_string a = join ''.'' (map (\<lambda>b. itoa (uint b)) a)"

subsection \<open>Masks and networks\<close>

definition mask_byte :: "nat \<Rightarrow> byte" where
  "mask_byte k = NOT (drop_bit k 0xFF)"

definition cidr_mask :: "nat \<Rightarrow> nat \<Rightarrow> mask" where
  "cidr_mask ones bits = map (\<lambda>i. mask_byte (min 8 (ones - 8 * i))) [0..<bits div 8]"

fun simple_mask_length :: "mask \<Rightarrow> nat option" where
  "simple_mask_length [] = Some 0"
| "simple_mask_length (v # vs) =
     (if v = 0xFF then map_option ((+) 8) (simple_mask_length vs)
      else if list_all (\<lambda>b. b = 0) vs then find (\<lambda>k. v = mask_byte k) [0..<8] else None)"

definition mask_size :: "mask \<Rightarrow> nat \<times> nat" where
  "mask_size m = (case simple_mask_length m of None \<Rightarrow> (0, 0) | Some n \<Rightarrow> (n, 8 * length m))"

definition and_bytes :: "byte list \<Rightarrow> byte list \<Rightarrow> byte list" where
  "and_bytes a b = map2 (AND) a b"

definition ip_mask :: "ip \<Rightarrow> mask \<Rightarrow> ip" where
  "ip_mask a m =
     (let m' = (if length m = 16 \<and> length a = 4 \<and> list_all (\<lambda>b. b = 0xFF) (take 12 m)
                then drop 12 m else m);
          a' = (if length m' = 4 \<and> length a = 16 \<and> take 12 a = v4_in_v6 then drop 12 a else a)
      in if length a' \<noteq> length m' then [] else and_bytes a' m')"

record ipnet =
  net_ip :: ip
  net_mask :: mask

definition number_and_mask :: "ipnet \<Rightarrow> ip \<times> mask" where
  "number_and_mask n =
     (let a = (if to4 (net_ip n) \<noteq> [] then to4 (net_ip n) else net_ip n); m = net_mask n in
      if to4 (net_ip n) = [] \<and> length a \<noteq> 16 then ([], [])
      else if length m = 4 then (if length a = 4 then (a, m) else ([], []))
      else if length m = 16 then (a, if length a = 4 then drop 12 m else m)
      else ([], []))"

definition net_contains :: "ipnet \<Rightarrow> ip \<Rightarrow> bool" where
  "net_contains n a =
     (let (nn, m) = number_and_mask n; a' = (if to4 a \<noteq> [] then to4 a else a)
      in length a' = length nn \<and> and_bytes nn m = and_bytes a' m)"

definition parse_cidr :: "string \<Rightarrow> (ip \<times> ipnet) option" where
  "parse_cidr s =
     (let (a, m, found) = cut s (CHR ''/'') in
      if \<not> found then None
      else (case parse_addr a of
          None \<Rightarrow> None
        | Some ad \<Rightarrow>
            if m = [] then None
            else (case digits_value 10 0 m of
                None \<Rightarrow> None
              | Some n \<Rightarrow>
                  if n \<le> bit_len ad then
                    (let mm = cidr_mask n (bit_len ad)
                     in Some (as16 ad, \<lparr>net_ip = ip_mask (as16 ad) mm, net_mask = mm\<rparr>))
                  else None)))"

subsection \<open>Hardware addresses\<close>

definition xtoi2 :: "string \<Rightarrow> char \<Rightarrow> byte option" where
  "xtoi2 s e =
     (if length s < 2 \<or> (length s > 2 \<and> s ! 2 \<noteq> e) then None
      else (case digits_value 16 0 (take 2 s) of
          Some n \<Rightarrow> Some (word_of_nat n)
        | None \<Rightarrow> None))"

fun mac_pairs :: "nat \<Rightarrow> char \<Rightarrow> string \<Rightarrow> mac option" where
  "mac_pairs 0 sep s = Some []"
| "mac_pairs (Suc n) sep s =
     (case xtoi2 s sep of
        None \<Rightarrow> None
      | Some b \<Rightarrow> map_option ((#) b) (mac_pairs n sep (drop 3 s)))"

fun mac_quads :: "nat \<Rightarrow> char \<Rightarrow> string \<Rightarrow> mac option" where
  "mac_quads 0 sep s = Some []"
| "mac_quads (Suc n) sep s =
     (case (xtoi2 (take 2 s) (CHR 0x00), xtoi2 (drop 2 s) sep) of
        (Some a, Some b) \<Rightarrow> map_option (\<lambda>r. a # b # r) (mac_quads n sep (drop 5 s))
      | _ \<Rightarrow> None)"

definition parse_mac :: "string \<Rightarrow> mac option" where
  "parse_mac s =
     (if length s < 14 then None
      else if s ! 2 = CHR '':'' \<or> s ! 2 = CHR ''-'' then
        (let n = (length s + 1) div 3 in
         if (length s + 1) mod 3 \<noteq> 0 \<or> n \<notin> {6, 8, 20} then None
         else mac_pairs n (s ! 2) s)
      else if s ! 4 = CHR ''.'' then
        (let n = 2 * (length s + 1) div 5 in
         if (length s + 1) mod 5 \<noteq> 0 \<or> n \<notin> {6, 8, 20} then None
         else mac_quads (n div 2) (s ! 4) s)
      else None)"

definition hex_byte :: "byte \<Rightarrow> string" where
  "hex_byte b = [digit_char (unat b div 16), digit_char (unat b mod 16)]"

definition mac_string :: "mac \<Rightarrow> string" where
  "mac_string m = join '':'' (map hex_byte m)"

subsection \<open>Round trips\<close>

lemma format_nat_head_nonzero: "0 < n \<Longrightarrow> hd (format_nat 10 n) \<noteq> CHR ''0''"
proof (induction "10 :: nat" n rule: format_nat.induct)
  case (1 n)
  show ?case
  proof (cases "n < 10")
    case True
    then have "of_char (digit_char n) = 48 + n"
      by (simp add: digit_char_def)
    moreover have "of_char (CHR ''0'') = (48 :: nat)" by simp
    ultimately have "digit_char n \<noteq> CHR ''0''"
      using 1(2) by (metis add_cancel_right_right less_numeral_extra(3))
    with True show ?thesis by (simp add: format_nat.simps [of 10 n])
  next
    case False
    with 1 have "hd (format_nat 10 (n div 10)) \<noteq> CHR ''0''" by simp
    with False show ?thesis by (simp add: format_nat.simps [of 10 n])
  qed
qed

lemma unat_byte: "unat (b :: byte) < 256"
  by (rule order_less_le_trans [OF unsigned_less]) simp

lemma parse_octet_itoa [simp]: "parse_octet (itoa (uint b)) = Some b"
proof -
  have le: "unat b \<le> 255" using unat_byte [of b] by simp
  have it: "itoa (uint b) = format_nat 10 (unat b)" by (simp add: itoa_def)
  have "\<not> (length (format_nat 10 (unat b)) > 1 \<and> hd (format_nat 10 (unat b)) = CHR ''0'')"
  proof (cases "unat b = 0")
    case True
    then show ?thesis by (simp add: format_nat.simps [of 10 0])
  next
    case False
    then show ?thesis using format_nat_head_nonzero [of "unat b"] by simp
  qed
  with le show ?thesis by (simp add: parse_octet_def it format_nat_10_value)
qed

lemma octet_no_dot: "CHR ''.'' \<notin> set (itoa (uint (b :: byte)))"
  by (rule itoa_no_char) simp_all

lemma split_ip4_string:
  "a \<noteq> [] \<Longrightarrow> split_on (CHR ''.'') (ip4_string a) = map (\<lambda>b. itoa (uint b)) a"
  unfolding ip4_string_def by (rule split_on_join) (auto simp: octet_no_dot)

lemma parse_ipv4_string: "length a = 4 \<Longrightarrow> parse_ipv4 (ip4_string a) = Some a"
proof -
  assume "length a = 4"
  then obtain p q r t where a: "a = [p, q, r, t]"
    by (auto simp: length_Suc_conv numeral_eq_Suc)
  show ?thesis by (simp add: parse_ipv4_def split_ip4_string a)
qed

lemma ip4_string_chars: "c \<in> set (ip4_string a) \<Longrightarrow> is_digit c \<or> c = CHR ''.''"
proof (induction a)
  case Nil
  then show ?case by (simp add: ip4_string_def)
next
  case (Cons b a)
  then show ?case
    by (cases a) (auto simp: ip4_string_def dest: itoa_nat_digits [rotated])
qed

lemma find_dot_ip4_string:
  "length a = 4 \<Longrightarrow> find (\<lambda>c. c = CHR ''.'' \<or> c = CHR '':'') (ip4_string a) = Some (CHR ''.'')"
proof -
  assume "length a = 4"
  then obtain p q r t where a: "a = [p, q, r, t]"
    by (auto simp: length_Suc_conv numeral_eq_Suc)
  have "CHR ''.'' \<in> set (ip4_string a)" by (simp add: ip4_string_def a)
  then obtain c where c: "find (\<lambda>c. c = CHR ''.'' \<or> c = CHR '':'') (ip4_string a) = Some c"
    by (cases "find (\<lambda>c. c = CHR ''.'' \<or> c = CHR '':'') (ip4_string a)") (auto simp: find_None_iff)
  then have "c \<in> set (ip4_string a)" "c = CHR ''.'' \<or> c = CHR '':''"
    by (auto simp: find_Some_iff in_set_conv_nth)
  with ip4_string_chars [of c a] have "c = CHR ''.''" by auto
  with c show ?thesis by simp
qed

lemma parse_addr_ip4_string: "length a = 4 \<Longrightarrow> parse_addr (ip4_string a) = Some (V4 a)"
proof -
  assume a: "length a = 4"
  have "CHR ''%'' \<notin> set (ip4_string a)"
    using ip4_string_chars [of "CHR ''%''" a] by (auto simp: is_digit_def)
  with a show ?thesis
    by (simp add: parse_addr_def find_dot_ip4_string parse_ipv4_string)
qed

lemma to4_v4_in_v6 [simp]: "length a = 4 \<Longrightarrow> to4 (v4_in_v6 @ a) = a"
  by (simp add: to4_def v4_in_v6_def)

lemma to4_4 [simp]: "length a = 4 \<Longrightarrow> to4 a = a"
  by (simp add: to4_def)

lemma to4_Nil [simp]: "to4 [] = []"
  by (simp add: to4_def)

lemma length_to4: "to4 a \<noteq> [] \<Longrightarrow> length (to4 a) = 4"
  by (auto simp: to4_def split: if_splits)

lemma to4_idem [simp]: "to4 (to4 a) = to4 a"
  by (cases "to4 a = []") (simp_all add: length_to4)

lemma parse_ip_ip4_string [simp]: "length a = 4 \<Longrightarrow> to4 (parse_ip (ip4_string a)) = a"
  by (simp add: parse_ip_def parse_addr_ip4_string)

lemma ip4_string_inj:
  "length a = 4 \<Longrightarrow> length b = 4 \<Longrightarrow> ip4_string a = ip4_string b \<Longrightarrow> a = b"
  using parse_ip_ip4_string by metis

lemma digits_value_hex_byte: "digits_value 16 0 (hex_byte b) = Some (unat b)"
proof -
  have b: "unat b div 16 < 16" using unat_byte [of b] by simp
  have m: "unat b mod 16 < 16" by simp
  then show ?thesis using b by (simp add: hex_byte_def)
qed

lemma length_hex_byte [simp]: "length (hex_byte b) = 2"
  by (simp add: hex_byte_def)

lemma xtoi2_hex_byte [simp]: "xtoi2 (hex_byte b) e = Some b"
  by (simp add: xtoi2_def digits_value_hex_byte)

lemma xtoi2_hex_byte_sep [simp]: "xtoi2 (hex_byte b @ e # r) e = Some b"
  by (simp add: xtoi2_def digits_value_hex_byte nth_append)

lemma mac_pairs_mac_string: "mac_pairs (length m) (CHR '':'') (mac_string m) = Some m"
proof (induction m)
  case (Cons b m)
  show ?case
  proof (cases m)
    case Nil
    then show ?thesis by (simp add: mac_string_def)
  next
    case (Cons c m')
    with Cons.IH show ?thesis by (simp add: mac_string_def)
  qed
qed simp

lemma length_mac_string: "m \<noteq> [] \<Longrightarrow> length (mac_string m) = 3 * length m - 1"
proof (induction m)
  case (Cons b m)
  then show ?case by (cases m) (auto simp: mac_string_def)
qed simp

lemma parse_mac_mac_string: "length m = 6 \<Longrightarrow> parse_mac (mac_string m) = Some m"
proof -
  assume l: "length m = 6"
  then obtain b c m' where m: "m = b # c # m'"
    by (auto simp: length_Suc_conv numeral_eq_Suc)
  have len: "length (mac_string m) = 17"
    using length_mac_string [of m] l m by simp
  have sep: "mac_string m ! 2 = CHR '':''"
    by (simp add: m mac_string_def nth_append)
  show ?thesis
    using mac_pairs_mac_string [of m] by (simp add: parse_mac_def len sep l)
qed

lemma mac_string_inj:
  "length a = 6 \<Longrightarrow> length b = 6 \<Longrightarrow> mac_string a = mac_string b \<Longrightarrow> a = b"
  using parse_mac_mac_string by (metis option.inject)

subsection \<open>Twenty-four bit networks\<close>

lemma cidr_mask_24: "cidr_mask 24 32 = [0xFF, 0xFF, 0xFF, 0]"
  by (simp add: cidr_mask_def mask_byte_def upt_rec)

lemma mask_size_24 [simp]: "mask_size [0xFF, 0xFF, 0xFF, 0] = (24, 32)"
  by (simp add: mask_size_def mask_byte_def upt_rec)

lemma and_FF [simp]: "b AND 0xFF = (b :: byte)"
proof -
  have "(0xFF :: byte) = - 1" by simp
  then show ?thesis by (simp only: and.right_neutral)
qed

lemma net_contains_24:
  assumes "length a = 4"
  shows "net_contains \<lparr>net_ip = [p, q, r, t], net_mask = [0xFF, 0xFF, 0xFF, 0]\<rparr> a \<longleftrightarrow>
    take 3 a = [p, q, r]"
proof -
  obtain x y z w where a: "a = [x, y, z, w]"
    using assms by (auto simp: length_Suc_conv numeral_eq_Suc)
  show ?thesis
    by (auto simp: net_contains_def number_and_mask_def and_bytes_def a)
qed

end
