(* ===== verification/Go_Hash.thy ===== *)
theory Go_Hash
  imports Go_Net
begin

text \<open>
  The two hashes of the standard library the program derives names and addresses from:
  \<^verbatim>\<open>crypto/sha256\<close> (node MAC addresses) and the 32-bit FNV-1a of \<^verbatim>\<open>hash/fnv\<close> (tap device names).
\<close>

type_synonym u32 = "32 word"

definition root_bits :: "nat \<Rightarrow> int \<Rightarrow> int" where
  "root_bits k n = foldl (\<lambda>r b. if (r + 2 ^ b) ^ k \<le> n then r + 2 ^ b else r) 0 (rev [0..<40])"

text \<open>The constants are the first 32 bits of the fractional parts of the cube roots of the first 64
  primes and of the square roots of the first eight; the conversion to a word drops the integer part.\<close>

definition primes64 :: "int list" where
  "primes64 = filter (\<lambda>p. \<forall>d\<in>set [2..p - 1]. p mod d \<noteq> 0) [2..311]"

definition sha256_k :: "u32 list" where
  "sha256_k = map (\<lambda>p. word_of_int (root_bits 3 (p * 2 ^ 96))) primes64"

definition sha256_init :: "u32 list" where
  "sha256_init = map (\<lambda>p. word_of_int (root_bits 2 (p * 2 ^ 64))) [2, 3, 5, 7, 11, 13, 17, 19]"

definition be32 :: "byte list \<Rightarrow> u32" where
  "be32 bs = foldl (\<lambda>a b. push_bit 8 a OR ucast b) 0 bs"

definition put32 :: "u32 \<Rightarrow> byte list" where
  "put32 w = [ucast (drop_bit 24 w), ucast (drop_bit 16 w), ucast (drop_bit 8 w), ucast w]"

fun chunks :: "nat \<Rightarrow> nat \<Rightarrow> 'a list \<Rightarrow> 'a list list" where
  "chunks n 0 xs = []"
| "chunks n (Suc k) xs = take n xs # chunks n k (drop n xs)"

definition sha256_pad :: "byte list \<Rightarrow> byte list" where
  "sha256_pad m =
     m @ [0x80] @ replicate ((119 - length m mod 64) mod 64) 0
       @ put32 (word_of_int (8 * int (length m) div 2 ^ 32)) @ put32 (word_of_int (8 * int (length m)))"

definition sha256_next :: "u32 list \<Rightarrow> u32 list" where
  "sha256_next w =
     (let i = length w; a = w ! (i - 15); b = w ! (i - 2);
          s0 = word_rotr 7 a XOR word_rotr 18 a XOR drop_bit 3 a;
          s1 = word_rotr 17 b XOR word_rotr 19 b XOR drop_bit 10 b
      in w @ [w ! (i - 16) + s0 + w ! (i - 7) + s1])"

definition sha256_round :: "u32 list \<Rightarrow> u32 \<times> u32 \<Rightarrow> u32 list" where
  "sha256_round h kw = (case (h, kw) of
     ([a, b, c, d, e, f, g, i], (k, w)) \<Rightarrow>
       (let s1 = word_rotr 6 e XOR word_rotr 11 e XOR word_rotr 25 e;
            ch = (e AND f) XOR (NOT e AND g);
            t1 = i + s1 + ch + k + w;
            s0 = word_rotr 2 a XOR word_rotr 13 a XOR word_rotr 22 a;
            mj = (a AND b) XOR (a AND c) XOR (b AND c)
        in [t1 + s0 + mj, a, b, c, d + t1, e, f, g])
   | _ \<Rightarrow> h)"

definition sha256_block :: "u32 list \<Rightarrow> byte list \<Rightarrow> u32 list" where
  "sha256_block h blk =
     (let w = (sha256_next ^^ 48) (map be32 (chunks 4 16 blk))
      in map2 (+) h (foldl sha256_round h (zip sha256_k w)))"

definition sha256 :: "byte list \<Rightarrow> byte list" where
  "sha256 m =
     (let p = sha256_pad m
      in concat (map put32 (foldl sha256_block sha256_init (chunks 64 (length p div 64) p))))"

definition fnv32a :: "byte list \<Rightarrow> u32" where
  "fnv32a bs = foldl (\<lambda>h b. (h XOR ucast b) * 16777619) 2166136261 bs"

subsection \<open>The digest has thirty-two bytes\<close>

lemma length_sha256_round: "length h = 8 \<Longrightarrow> length (sha256_round h kw) = 8"
  by (auto simp: sha256_round_def Let_def split: list.splits prod.splits)

lemma length_sha256_rounds: "length h = 8 \<Longrightarrow> length (foldl sha256_round h kws) = 8"
  by (induction kws arbitrary: h) (simp_all add: length_sha256_round)

lemma length_sha256_block: "length h = 8 \<Longrightarrow> length (sha256_block h blk) = 8"
  by (simp add: sha256_block_def length_sha256_rounds)

lemma length_sha256_blocks: "length h = 8 \<Longrightarrow> length (foldl sha256_block h bs) = 8"
  by (induction bs arbitrary: h) (simp_all add: length_sha256_block)

lemma length_concat_put32: "length (concat (map put32 ws)) = 4 * length ws"
  by (induction ws) (simp_all add: put32_def)

lemma length_sha256 [simp]: "length (sha256 m) = 32"
  by (simp add: sha256_def Let_def length_concat_put32 length_sha256_blocks sha256_init_def)

end
