(* ===== verification/Cluster_Model.thy ===== *)
theory Cluster_Model
  imports Provisioning Go_Hash
begin

text \<open>
  The cluster model, \<^verbatim>\<open>src/internal/cluster/cluster.go\<close>, with the name check and the directory
  function of \<^verbatim>\<open>store.go\<close> and the address format of \<^verbatim>\<open>reservation.go\<close> it calls.
\<close>

subsection \<open>Data\<close>

definition DefaultMemoryMiB :: int where "DefaultMemoryMiB = 2048"
definition DefaultCPUs :: int where "DefaultCPUs = 2"
definition DefaultDiskGiB :: int where "DefaultDiskGiB = 20"
definition MaxSubnetIndex :: int where "MaxSubnetIndex = 255"
definition firstNodeHost :: int where "firstNodeHost = 2"
definition lastNodeHost :: int where "lastNodeHost = 179"
definition LegacyImageArchitecture :: string where "LegacyImageArchitecture = ''arm64''"

lemmas host_consts = MaxSubnetIndex_def firstNodeHost_def lastNodeHost_def

definition RoleControlPlane :: string where "RoleControlPlane = ''control-plane''"
definition RoleWorker :: string where "RoleWorker = ''worker''"

lemma roles_differ [simp]: "RoleControlPlane \<noteq> RoleWorker" "RoleWorker \<noteq> RoleControlPlane"
  by (simp_all add: RoleControlPlane_def RoleWorker_def)

record node_defaults =
  memory_mib :: int
  cpus :: int
  disk_gib :: int

record node =
  node_name :: string
  node_role :: string
  node_mac :: string
  node_ip :: string

record cluster =
  cl_name :: string
  cl_index :: int
  cl_subnet_index :: int
  cl_control_planes :: int
  cl_workers :: int
  cl_node_defaults :: node_defaults
  cl_control_plane_defaults :: "node_defaults option"
  cl_worker_defaults :: "node_defaults option"
  cl_intent :: provisioning_intent
  cl_nodes :: "node list"
  cl_schematic :: string
  cl_talos_version :: string
  cl_talos_extensions :: "string list option"
  cl_base_schematic :: string
  cl_image_architecture :: string
  cl_hypervisor :: string
  cl_domain :: string
  cl_allow_unsafe_domain :: bool
  cl_config_origin :: string

definition zero_defaults :: node_defaults where
  "zero_defaults = \<lparr>memory_mib = 0, cpus = 0, disk_gib = 0\<rparr>"

definition zero_cluster :: cluster where
  "zero_cluster =
     \<lparr>cl_name = [], cl_index = 0, cl_subnet_index = 0, cl_control_planes = 0, cl_workers = 0,
      cl_node_defaults = zero_defaults, cl_control_plane_defaults = None,
      cl_worker_defaults = None, cl_intent = no_intent, cl_nodes = [], cl_schematic = [],
      cl_talos_version = [], cl_talos_extensions = None, cl_base_schematic = [],
      cl_image_architecture = [], cl_hypervisor = [], cl_domain = [],
      cl_allow_unsafe_domain = False, cl_config_origin = []\<rparr>"

datatype cluster_error =
    EmptyName
  | InvalidName string
  | InvalidNodeName string cluster_error
  | BadSubnetIndex
  | NegativeNodeCount
  | TooManyNodes
  | NegativeDefaults
  | MakeSlicePanic
  | AllSubnetsAllocated
  | InvalidRole string
  | NodeExists string
  | NodeNotFound string
  | InvalidReservation string string int
  | DuplicateReservation string
  | NoFreeReservation int
  | ClusterBadIndex string int
  | NodeBadMac string string string
  | NodeBadReservation string string string int
  | MacReservedTwice string string string string
  | IpReservedTwice string string string string

subsection \<open>Names\<close>

text \<open>\<^verbatim>\<open>filepath.Base\<close> on a system with \<^verbatim>\<open>/\<close> as its only separator.\<close>

definition path_base :: "string \<Rightarrow> string" where
  "path_base p =
     (if p = [] then ''.''
      else let q = rev (dropWhile (\<lambda>c. c = CHR ''/'') (rev p));
               r = after_last (CHR ''/'') q
           in if r = [] then ''/'' else r)"

definition valid_name :: "string \<Rightarrow> cluster_error + unit" where
  "valid_name name =
     (if name = [] then Inl EmptyName
      else if path_base name \<noteq> name \<or> name = ''.'' \<or> name = ''..'' then Inl (InvalidName name)
      else Inr ())"

subsection \<open>Addresses\<close>

definition reservation_ip :: "int \<Rightarrow> int \<Rightarrow> string" where
  "reservation_ip subnet_index host = ''172.30.'' @ itoa subnet_index @ ''.'' @ itoa host"

definition gateway :: "int \<Rightarrow> string" where
  "gateway index = ''172.30.'' @ itoa index @ ''.1''"

definition subnet_cidr :: "int \<Rightarrow> string" where
  "subnet_cidr index = ''172.30.'' @ itoa index @ ''.0/24''"

definition deterministic_mac :: "string \<Rightarrow> string \<Rightarrow> string" where
  "deterministic_mac cluster_name name =
     (let digest = sha256 (map byte_of_char (cluster_name @ ''/'' @ name))
      in mac_string [0x52, 0x54, 0x00, digest ! 0, digest ! 1, digest ! 2])"

definition new_node :: "string \<Rightarrow> string \<Rightarrow> string \<Rightarrow> string \<Rightarrow> node" where
  "new_node cluster_name name role ip =
     \<lparr>node_name = name, node_role = role, node_mac = deterministic_mac cluster_name name,
      node_ip = ip\<rparr>"

subsection \<open>Clusters\<close>

definition apply_defaults :: "node_defaults \<Rightarrow> node_defaults" where
  "apply_defaults d =
     \<lparr>memory_mib = (if memory_mib d = 0 then DefaultMemoryMiB else memory_mib d),
      cpus = (if cpus d = 0 then DefaultCPUs else cpus d),
      disk_gib = (if disk_gib d = 0 then DefaultDiskGiB else disk_gib d)\<rparr>"

definition DefaultDomainSuffix :: string where "DefaultDomainSuffix = ''k8s.test''"

definition effective_domain :: "cluster \<Rightarrow> string" where
  "effective_domain c =
     (if cl_domain c \<noteq> [] then cl_domain c else cl_name c @ ''.'' @ DefaultDomainSuffix)"

definition domain_in_use :: "string \<Rightarrow> cluster list \<Rightarrow> bool" where
  "domain_in_use domain clusters = list_ex (\<lambda>item. effective_domain item = domain) clusters"

definition defaults_for :: "cluster \<Rightarrow> string \<Rightarrow> node_defaults" where
  "defaults_for c role =
     (case (role = RoleControlPlane, cl_control_plane_defaults c) of
        (True, Some d) \<Rightarrow> d
      | _ \<Rightarrow> (case (role = RoleWorker, cl_worker_defaults c) of
                (True, Some d) \<Rightarrow> d
              | _ \<Rightarrow> cl_node_defaults c))"

text \<open>One of the two loops of \<^verbatim>\<open>New\<close>: append \<open>n\<close> nodes of a role, numbered from one, each at the
  host number after the nodes already there.\<close>

definition append_nodes ::
    "string \<Rightarrow> int \<Rightarrow> string \<Rightarrow> string \<Rightarrow> int \<Rightarrow> node list \<Rightarrow> node list" where
  "append_nodes name subnet_index label role n nodes =
     foldl (\<lambda>ns i. ns @ [new_node name (name @ label @ itoa i) role
                           (reservation_ip subnet_index (firstNodeHost + int (length ns)))])
       nodes [1..n]"

definition new_cluster ::
    "string \<Rightarrow> int \<Rightarrow> int \<Rightarrow> int \<Rightarrow> node_defaults \<Rightarrow> cluster_error + cluster" where
  "new_cluster name subnet_index control_planes workers defaults =
     try_bind (valid_name name) (\<lambda>_.
       if subnet_index < 0 \<or> subnet_index > MaxSubnetIndex then Inl BadSubnetIndex
       else if control_planes < 0 \<or> workers < 0 then Inl NegativeNodeCount
       else if i64 (control_planes + workers) > lastNodeHost - firstNodeHost + 1
         then Inl TooManyNodes
       else if memory_mib defaults < 0 \<or> cpus defaults < 0 \<or> disk_gib defaults < 0
         then Inl NegativeDefaults
       else if i64 (control_planes + workers) < 0 then Inl MakeSlicePanic
       else Inr (zero_cluster
         \<lparr>cl_name := name, cl_index := subnet_index, cl_subnet_index := subnet_index,
          cl_control_planes := control_planes, cl_workers := workers,
          cl_node_defaults := apply_defaults defaults,
          cl_nodes := append_nodes name subnet_index ''-worker-'' RoleWorker workers
            (append_nodes name subnet_index ''-cp-'' RoleControlPlane control_planes [])\<rparr>))"

text \<open>The boolean array indexed by subnet number that \<^verbatim>\<open>allocatedSubnetIndexes\<close> builds.\<close>

definition allocated_subnet_indexes :: "cluster list \<Rightarrow> bool list" where
  "allocated_subnet_indexes clusters =
     foldl (\<lambda>used item.
         if 0 \<le> cl_subnet_index item \<and> cl_subnet_index item \<le> MaxSubnetIndex
         then used[nat (cl_subnet_index item) := True] else used)
       (replicate (nat (MaxSubnetIndex + 1)) False) clusters"

definition lowest_free_subnet_index :: "cluster list \<Rightarrow> cluster_error + int" where
  "lowest_free_subnet_index clusters =
     (let used = allocated_subnet_indexes clusters in
      case first_index (\<lambda>i. \<not> used ! i) 0 (length used) of
        Some i \<Rightarrow> Inr (int i)
      | None \<Rightarrow> Inl AllSubnetsAllocated)"

subsection \<open>The invariant of a cluster\<close>

text \<open>
  Every node has a role the program knows and an address of the cluster's own pool; names and
  addresses are pairwise different; the two counters are the numbers of nodes of each role.
\<close>

definition node_pool :: "int \<Rightarrow> string list" where
  "node_pool subnet_index = map (reservation_ip subnet_index) [firstNodeHost..lastNodeHost]"

definition count_role :: "string \<Rightarrow> node list \<Rightarrow> int" where
  "count_role role nodes = int (length (filter (\<lambda>n. node_role n = role) nodes))"

definition cluster_ok :: "cluster \<Rightarrow> bool" where
  "cluster_ok c \<longleftrightarrow>
     0 \<le> cl_subnet_index c \<and> cl_subnet_index c \<le> MaxSubnetIndex
     \<and> distinct (map node_name (cl_nodes c)) \<and> distinct (map node_ip (cl_nodes c))
     \<and> (\<forall>n\<in>set (cl_nodes c). node_role n \<in> {RoleControlPlane, RoleWorker}
           \<and> node_ip n \<in> set (node_pool (cl_subnet_index c)))
     \<and> cl_control_planes c = count_role RoleControlPlane (cl_nodes c)
     \<and> cl_workers c = count_role RoleWorker (cl_nodes c)"

subsection \<open>Names and addresses\<close>

lemma path_base_plain: "p \<noteq> [] \<Longrightarrow> CHR ''/'' \<notin> set p \<Longrightarrow> path_base p = p"
proof -
  assume p: "p \<noteq> []" "CHR ''/'' \<notin> set p"
  then have "dropWhile (\<lambda>c. c = CHR ''/'') (rev p) = rev p"
    by (cases p rule: rev_cases) auto
  moreover have "takeWhile (\<lambda>x. x \<noteq> CHR ''/'') (rev p) = rev p"
    using p(2) by (auto simp: takeWhile_eq_all_conv)
  ultimately have "after_last (CHR ''/'') (rev (dropWhile (\<lambda>c. c = CHR ''/'') (rev p))) = p"
    by (metis after_last_def rev_rev_ident)
  with p(1) show ?thesis
    by (simp add: path_base_def)
qed

lemma path_base_no_sep: "path_base p = p \<Longrightarrow> p = ''/'' \<or> CHR ''/'' \<notin> set p"
proof -
  assume p: "path_base p = p"
  have "CHR ''/'' \<notin> set (after_last (CHR ''/'') q)" for q
    by (auto simp: after_last_def dest: set_takeWhileD)
  moreover have "path_base p \<in> {''.'', ''/''} \<or> (\<exists>q. path_base p = after_last (CHR ''/'') q)"
    by (auto simp: path_base_def Let_def)
  ultimately show ?thesis
    unfolding p by auto
qed

text \<open>The names the check lets through: those without a separator, except the two dot names,
  and, because \<^verbatim>\<open>filepath.Base\<close> maps it to itself, the name that is one separator.\<close>

lemma valid_name_iff:
  "valid_name n = Inr () \<longleftrightarrow>
     n = ''/'' \<or> (n \<noteq> [] \<and> CHR ''/'' \<notin> set n \<and> n \<noteq> ''.'' \<and> n \<noteq> ''..'')"
proof -
  have "path_base ''/'' = ''/''"
    by (simp add: path_base_def after_last_def)
  then show ?thesis
    using path_base_no_sep [of n] path_base_plain [of n] by (auto simp: valid_name_def)
qed

lemma valid_nameE:
  assumes "valid_name n = Inr u"
  shows "valid_name n = Inr ()"
  using assms by simp

lemma reservation_ip_ip4_string:
  "0 \<le> i \<Longrightarrow> i \<le> 255 \<Longrightarrow> 0 \<le> h \<Longrightarrow> h \<le> 255 \<Longrightarrow>
   reservation_ip i h = ip4_string [172, 30, word_of_int i, word_of_int h]"
proof -
  assume r: "0 \<le> i" "i \<le> 255" "0 \<le> h" "h \<le> 255"
  have "itoa 172 = ''172''" "itoa 30 = ''30''"
    by code_simp+
  moreover have "uint (word_of_int i :: byte) = i" "uint (word_of_int h :: byte) = h"
    using r by (simp_all add: uint_word_of_int)
  ultimately show ?thesis
    by (simp add: reservation_ip_def ip4_string_def)
qed

lemma itoa_dot_split:
  assumes "itoa i @ CHR ''.'' # s = itoa j @ CHR ''.'' # t" "0 \<le> i" "0 \<le> j"
  shows "i = j \<and> s = t"
proof -
  have "CHR ''.'' \<notin> set (itoa i)" "CHR ''.'' \<notin> set (itoa j)"
    using assms(2,3) by (simp_all add: itoa_no_char is_digit_def)
  then have "itoa i = itoa j \<and> s = t"
    using assms(1) by (metis cut_append prod.inject)
  then show ?thesis using assms(2,3) itoa_inj by blast
qed

lemma reservation_ip_inj:
  "0 \<le> i \<Longrightarrow> 0 \<le> j \<Longrightarrow> 0 \<le> h \<Longrightarrow> 0 \<le> k \<Longrightarrow>
   reservation_ip i h = reservation_ip j k \<longleftrightarrow> i = j \<and> h = k"
  by (auto simp: reservation_ip_def dest: itoa_dot_split itoa_inj)

lemma reservation_ip_nonempty [simp]: "reservation_ip i h \<noteq> []"
  by (simp add: reservation_ip_def)

lemma in_node_pool:
  "a \<in> set (node_pool i) \<longleftrightarrow> (\<exists>h. 2 \<le> h \<and> h \<le> 179 \<and> a = reservation_ip i h)"
  unfolding node_pool_def set_map set_upto image_iff firstNodeHost_def lastNodeHost_def by auto

lemma distinct_node_pool: "0 \<le> i \<Longrightarrow> distinct (node_pool i)"
  unfolding node_pool_def distinct_map set_upto
  by (simp add: inj_on_def firstNodeHost_def reservation_ip_inj)

lemma length_node_pool: "length (node_pool i) = 178"
  unfolding node_pool_def length_map length_upto by (simp add: host_consts)

subsection \<open>A new cluster\<close>

lemma append_nodes_Suc:
  "0 \<le> n \<Longrightarrow> append_nodes name si label role (n + 1) ns =
     append_nodes name si label role n ns @
       [new_node name (name @ label @ itoa (n + 1)) role
          (reservation_ip si (firstNodeHost + int (length (append_nodes name si label role n ns))))]"
  by (simp add: append_nodes_def upto_rec2)

lemma append_nodes_eq:
  "append_nodes name si label role (int n) ns =
     ns @ map (\<lambda>i. new_node name (name @ label @ itoa i) role
                     (reservation_ip si (1 + int (length ns) + i))) [1..int n]"
proof (induction n)
  case (Suc n)
  have "[1..int (Suc n)] = [1..int n] @ [int n + 1]"
    using upto_rec2 [of 1 "int n + 1"] by (simp add: add.commute)
  then show ?case
    using append_nodes_Suc [of "int n"] Suc
    by (simp add: firstNodeHost_def add.commute add.left_commute)
qed (simp add: append_nodes_def)

lemma count_role_append [simp]: "count_role r (a @ b) = count_role r a + count_role r b"
  by (simp add: count_role_def)

lemma count_role_new_nodes:
  "count_role r (map (\<lambda>i. new_node a (b i) role (c i)) is) = (if r = role then int (length is) else 0)"
  by (auto simp: count_role_def new_node_def comp_def filter_map)

lemma valid_new_counts:
  "in_i64 cp \<Longrightarrow> in_i64 w \<Longrightarrow> 0 \<le> cp \<Longrightarrow> 0 \<le> w \<Longrightarrow>
   0 \<le> i64 (cp + w) \<Longrightarrow> i64 (cp + w) \<le> 178 \<Longrightarrow> cp + w \<le> 178"
  by (cases "cp + w < 2 ^ 63") (simp_all add: i64_small i64_wrap in_i64_def)

lemma new_clusterD:
  assumes "new_cluster name si cp w d = Inr c"
  shows "valid_name name = Inr ()" "0 \<le> si" "si \<le> 255" "0 \<le> cp" "0 \<le> w"
    "0 \<le> i64 (cp + w)" "i64 (cp + w) \<le> 178"
    "cl_nodes c = append_nodes name si ''-worker-'' RoleWorker w
                    (append_nodes name si ''-cp-'' RoleControlPlane cp [])"
    "cl_name c = name" "cl_subnet_index c = si" "cl_control_planes c = cp" "cl_workers c = w"
    "cl_node_defaults c = apply_defaults d"
  using assms by (auto simp: new_cluster_def try_bind_eq_Inr host_consts split: if_splits)

text \<open>The nodes of a new cluster: the control planes at the hosts from 2 on, the workers after
  them.\<close>

lemma new_cluster_nodes:
  assumes "0 \<le> cp" "0 \<le> w"
  shows "append_nodes name si ''-worker-'' RoleWorker w
           (append_nodes name si ''-cp-'' RoleControlPlane cp []) =
         map (\<lambda>i. new_node name (name @ ''-cp-'' @ itoa i) RoleControlPlane
                    (reservation_ip si (1 + i))) [1..cp] @
         map (\<lambda>i. new_node name (name @ ''-worker-'' @ itoa i) RoleWorker
                    (reservation_ip si (1 + cp + i))) [1..w]"
proof -
  obtain m n where "cp = int m" "w = int n"
    using assms nonneg_int_cases by metis
  then show ?thesis by (simp add: append_nodes_eq)
qed

lemma new_cluster_names_distinct:
  "distinct (map (\<lambda>i. name @ ''-cp-'' @ itoa i) [1..cp] @ map (\<lambda>i. name @ ''-worker-'' @ itoa i) [1..w])"
  by (auto simp: distinct_map inj_on_def dest!: itoa_inj [rotated 2])

lemma map_add_upto:
  assumes "0 \<le> n"
  shows "map (\<lambda>i. f (a + i)) [1..n] = map f [1 + a..n + a]"
  using assms
proof (induction n rule: int_ge_induct)
  case (step n)
  have "[1..n + 1] = [1..n] @ [n + 1]" "[1 + a..n + 1 + a] = [1 + a..n + a] @ [n + 1 + a]"
    using step(1) upto_rec2 [of 1 "n + 1"] upto_rec2 [of "1 + a" "n + 1 + a"] by simp_all
  with step(2) show ?case by (simp add: add.commute)
qed simp

lemma new_cluster_ips:
  assumes "0 \<le> cp" "0 \<le> w"
  shows "map (\<lambda>i. reservation_ip si (1 + i)) [1..cp] @ map (\<lambda>i. reservation_ip si (1 + cp + i)) [1..w]
       = map (reservation_ip si) [2..1 + cp + w]"
proof -
  have "[2..1 + cp + w] = [2..1 + cp] @ [2 + cp..1 + cp + w]"
    using upto_split1 [of 2 "2 + cp" "1 + cp + w"] assms
    by (cases "w = 0") (simp_all add: algebra_simps)
  then show ?thesis
    using map_add_upto [OF assms(1), of "reservation_ip si" 1]
      map_add_upto [OF assms(2), of "reservation_ip si" "1 + cp"]
    by (simp add: algebra_simps)
qed

text \<open>What \<^verbatim>\<open>New\<close> returns is a well-formed cluster.\<close>

lemma new_cluster_cluster_ok:
  assumes new: "new_cluster name si cp w d = Inr c" and i64: "in_i64 cp" "in_i64 w"
  shows "cluster_ok c"
proof -
  note D = new_clusterD [OF new]
  have sum: "cp + w \<le> 178" using valid_new_counts [OF i64 D(4-7)] .
  note nodes = D(8) [unfolded new_cluster_nodes [OF D(4,5)]]
  have ips: "map node_ip (cl_nodes c) = map (reservation_ip si) [2..1 + cp + w]"
    by (simp add: nodes new_node_def comp_def new_cluster_ips [OF D(4,5)])
  have "map node_name (cl_nodes c) =
      map (\<lambda>i. name @ ''-cp-'' @ itoa i) [1..cp] @ map (\<lambda>i. name @ ''-worker-'' @ itoa i) [1..w]"
    by (simp add: nodes new_node_def comp_def)
  then have "distinct (map node_name (cl_nodes c))"
    by (metis new_cluster_names_distinct)
  moreover have "distinct (map node_ip (cl_nodes c))"
    unfolding ips distinct_map set_upto using D(2) by (simp add: inj_on_def reservation_ip_inj)
  moreover have "set (map node_ip (cl_nodes c)) \<subseteq> set (node_pool si)"
    unfolding ips set_map set_upto using sum by (force simp: in_node_pool)
  moreover have "\<forall>n\<in>set (cl_nodes c). node_role n \<in> {RoleControlPlane, RoleWorker}"
    by (auto simp: nodes new_node_def)
  moreover have "count_role RoleControlPlane (cl_nodes c) = cp" "count_role RoleWorker (cl_nodes c) = w"
    using D(4,5) by (simp_all add: nodes count_role_new_nodes)
  ultimately show ?thesis
    using D by (auto simp: cluster_ok_def MaxSubnetIndex_def)
qed

subsection \<open>Subnet allocation\<close>

lemma length_allocated [simp]: "length (allocated_subnet_indexes cs) = 256"
proof -
  have "length (foldl (\<lambda>used item. if P item then used[f item := True] else used) u cs) = length u"
    for P :: "cluster \<Rightarrow> bool" and f u
    by (induction cs arbitrary: u) simp_all
  then show ?thesis by (simp add: allocated_subnet_indexes_def MaxSubnetIndex_def)
qed

lemma allocated_nth:
  assumes "i < 256"
  shows "allocated_subnet_indexes cs ! i \<longleftrightarrow> int i \<in> cl_subnet_index ` set cs"
proof -
  have "foldl (\<lambda>used item. if 0 \<le> cl_subnet_index item \<and> cl_subnet_index item \<le> 255
                 then used[nat (cl_subnet_index item) := True] else used) u cs ! i
        \<longleftrightarrow> u ! i \<or> int i \<in> cl_subnet_index ` set cs" if "length u = 256" for u
    using that assms
    by (induction cs arbitrary: u) (auto simp: nth_list_update)
  then show ?thesis
    using assms by (simp add: allocated_subnet_indexes_def MaxSubnetIndex_def)
qed

lemma lowest_free_subnet_Inr:
  "lowest_free_subnet_index cs = Inr i \<longleftrightarrow>
     0 \<le> i \<and> i \<le> 255 \<and> i \<notin> cl_subnet_index ` set cs
     \<and> (\<forall>j. 0 \<le> j \<and> j < i \<longrightarrow> j \<in> cl_subnet_index ` set cs)" (is "?l \<longleftrightarrow> ?r")
proof -
  have "?l \<longleftrightarrow> (\<exists>k. i = int k \<and> k < 256 \<and> int k \<notin> cl_subnet_index ` set cs
                  \<and> (\<forall>j<k. int j \<in> cl_subnet_index ` set cs))"
    by (auto simp: lowest_free_subnet_index_def Let_def allocated_nth split: option.splits)
       (metis linorder_neqE_nat)
  also have "\<dots> \<longleftrightarrow> ?r"
  proof
    assume ?r
    moreover have "int j \<in> cl_subnet_index ` set cs" if "?r" "j < nat i" for j
      using that by auto
    ultimately show "\<exists>k. i = int k \<and> k < 256 \<and> int k \<notin> cl_subnet_index ` set cs
                  \<and> (\<forall>j<k. int j \<in> cl_subnet_index ` set cs)"
      by (intro exI [of _ "nat i"]) auto
  next
    assume "\<exists>k. i = int k \<and> k < 256 \<and> int k \<notin> cl_subnet_index ` set cs
                  \<and> (\<forall>j<k. int j \<in> cl_subnet_index ` set cs)"
    then obtain k where k: "i = int k" "k < 256" "int k \<notin> cl_subnet_index ` set cs"
        "\<forall>j<k. int j \<in> cl_subnet_index ` set cs"
      by blast
    have "j \<in> cl_subnet_index ` set cs" if "0 \<le> j" "j < i" for j
      using k(4) [rule_format, of "nat j"] k(1) that by simp
    with k(1-3) show ?r by simp
  qed
  finally show ?thesis .
qed

lemma lowest_free_subnet_Inl:
  "lowest_free_subnet_index cs = Inl e \<longleftrightarrow>
     e = AllSubnetsAllocated \<and> {0..255} \<subseteq> cl_subnet_index ` set cs"
proof -
  have "lowest_free_subnet_index cs = Inl e \<longleftrightarrow>
      e = AllSubnetsAllocated \<and> (\<forall>j<256. int j \<in> cl_subnet_index ` set cs)"
    by (auto simp: lowest_free_subnet_index_def Let_def allocated_nth split: option.splits)
  moreover have "(\<forall>j<256. int j \<in> A) \<longleftrightarrow> {0..255} \<subseteq> A" for A
  proof
    assume a: "\<forall>j<256. int j \<in> A"
    show "{0..255} \<subseteq> A"
    proof
      fix x :: int assume "x \<in> {0..255}"
      then show "x \<in> A" using a [rule_format, of "nat x"] by (simp add: nat_less_iff)
    qed
  next
    assume "{0..255} \<subseteq> A"
    then show "\<forall>j<256. int j \<in> A" by (simp add: subset_iff)
  qed
  ultimately show ?thesis by simp
qed

subsection \<open>Properties\<close>

text \<open>Whatever cluster \<^verbatim>\<open>New\<close> returns is well-formed: known roles, distinct node names,
  distinct addresses of the cluster's own pool, and counters that match the nodes.\<close>

lemma new_cluster_well_formed:
  assumes "new_cluster name subnet_index control_planes workers defaults = Inr c"
    and "in_i64 control_planes" "in_i64 workers"
  shows "cluster_ok c"
  using assms by (rule new_cluster_cluster_ok)

text \<open>\<^verbatim>\<open>LowestFreeSubnetIndex\<close> returns an index exactly when it is the least of the 256 that no
  cluster uses.\<close>

lemma lowest_free_subnet_least:
  "lowest_free_subnet_index cs = Inr i \<longleftrightarrow>
     0 \<le> i \<and> i \<le> 255 \<and> i \<notin> cl_subnet_index ` set cs
     \<and> (\<forall>j. 0 \<le> j \<and> j < i \<longrightarrow> j \<in> cl_subnet_index ` set cs)"
  by (rule lowest_free_subnet_Inr)

text \<open>The node-count check of \<^verbatim>\<open>New\<close> adds the two counts in 64 bits; counts whose sum overflows
  pass it and reach \<^verbatim>\<open>make\<close> with a negative capacity, which panics instead of returning the
  error for too many nodes.\<close>

lemma new_cluster_count_overflow:
  "new_cluster ''demo'' 0 (2 ^ 62) (2 ^ 62) zero_defaults = Inl MakeSlicePanic"
proof -
  have "valid_name ''demo'' = Inr ()" by (simp add: valid_name_iff)
  then show ?thesis
    by (simp add: new_cluster_def host_consts i64_def zero_defaults_def)
qed

end
