(* ===== verification/Reservations.thy ===== *)
theory Reservations
  imports Cluster_Model "HOL-Library.Multiset"
begin

text \<open>
  Node addresses. \<^verbatim>\<open>src/internal/cluster/reservation.go\<close>: the table of persisted reservations, the
  allocation of the lowest free address of a subnet and the migration that fills in missing
  addresses. \<^verbatim>\<open>src/internal/cluster/lease.go\<close>: the lookup in vmnet's lease file.

  \<^verbatim>\<open>ensureNodeReservations\<close> works on a cluster through a pointer and writes into its node slice;
  the model returns the cluster it leaves behind next to its result, also when that result is an
  error. \<^verbatim>\<open>nextReservationIP\<close> gets the cluster by value but shares the slice, so its writes reach
  the caller's nodes too.
\<close>

subsection \<open>Data\<close>

record reservation =
  res_mac :: mac
  res_ip :: ip
  res_subnet_index :: int

type_synonym reservation_table = "string \<rightharpoonup> reservation"

subsection \<open>The table\<close>

definition canonical_mac :: "string \<Rightarrow> mac option" where
  "canonical_mac value =
     (case parse_mac (trim_space value) of
        None \<Rightarrow> None
      | Some mac \<Rightarrow> if length mac \<noteq> 6 then None else Some mac)"

definition valid_reservation_ip :: "ip \<Rightarrow> int \<Rightarrow> bool" where
  "valid_reservation_ip ip subnet_index \<longleftrightarrow>
     subnet_index \<ge> 0 \<and> subnet_index \<le> MaxSubnetIndex \<and> length ip = 4
     \<and> ip ! 0 = 172 \<and> ip ! 1 = 30 \<and> uint (ip ! 2) = subnet_index
     \<and> uint (ip ! 3) \<ge> firstNodeHost \<and> uint (ip ! 3) \<le> lastNodeHost"

type_synonym table_state = "reservation_table \<times> (string \<rightharpoonup> string)"

definition index_node :: "cluster \<Rightarrow> table_state \<Rightarrow> node \<Rightarrow> cluster_error + table_state" where
  "index_node item st node = (case st of (by_mac, by_ip) \<Rightarrow>
     (case canonical_mac (node_mac node) of
        None \<Rightarrow> Inl (NodeBadMac (cl_name item) (node_name node) (node_mac node))
      | Some mac \<Rightarrow>
          (let ip = to4 (parse_ip (node_ip node)) in
           if ip = [] \<or> \<not> valid_reservation_ip ip (cl_subnet_index item)
           then Inl (NodeBadReservation (cl_name item) (node_name node) (node_ip node)
                       (cl_subnet_index item))
           else (let key = mac_string mac; ip_key = ip4_string ip in
             case by_mac key of
               Some previous \<Rightarrow> Inl (MacReservedTwice key (ip4_string (res_ip previous))
                                      (cl_name item) (node_name node))
             | None \<Rightarrow>
                (case by_ip ip_key of
                   Some previous \<Rightarrow> Inl (IpReservedTwice ip_key previous (cl_name item)
                                          (node_name node))
                 | None \<Rightarrow>
                    Inr (by_mac(key \<mapsto> \<lparr>res_mac = mac, res_ip = ip,
                                        res_subnet_index = cl_subnet_index item\<rparr>),
                         by_ip(ip_key \<mapsto> cl_name item @ ''/'' @ node_name node)))))))"

definition index_cluster :: "table_state \<Rightarrow> cluster \<Rightarrow> cluster_error + table_state" where
  "index_cluster st item =
     (if cl_subnet_index item < 0 \<or> cl_subnet_index item > MaxSubnetIndex
      then Inl (ClusterBadIndex (cl_name item) (cl_subnet_index item))
      else fold_try (index_node item) st (cl_nodes item))"

definition new_reservation_table :: "cluster list \<Rightarrow> cluster_error + reservation_table" where
  "new_reservation_table clusters =
     try_bind (fold_try index_cluster (Map.empty, Map.empty) clusters) (\<lambda>st. Inr (fst st))"

definition table_lookup :: "reservation_table \<Rightarrow> string \<Rightarrow> reservation option" where
  "table_lookup t mac =
     (case canonical_mac mac of None \<Rightarrow> None | Some parsed \<Rightarrow> t (mac_string parsed))"

definition table_lookup_ip :: "reservation_table \<Rightarrow> string \<Rightarrow> ip" where
  "table_lookup_ip t mac =
     (case table_lookup t mac of None \<Rightarrow> [] | Some reservation \<Rightarrow> res_ip reservation)"

definition lookup_reserved_ip :: "cluster list \<Rightarrow> string \<Rightarrow> int \<Rightarrow> string" where
  "lookup_reserved_ip clusters mac subnet_index =
     (case new_reservation_table clusters of
        Inl _ \<Rightarrow> []
      | Inr table \<Rightarrow>
         (case table_lookup table mac of
            None \<Rightarrow> []
          | Some reservation \<Rightarrow>
              if res_subnet_index reservation \<noteq> subnet_index then []
              else ip4_string (res_ip reservation)))"

subsection \<open>Allocation\<close>

definition lowest_free_reservation :: "int \<Rightarrow> string set \<Rightarrow> cluster_error + string" where
  "lowest_free_reservation subnet_index used =
     (case find (\<lambda>host. reservation_ip subnet_index host \<notin> used) [firstNodeHost..lastNodeHost] of
        Some host \<Rightarrow> Inr (reservation_ip subnet_index host)
      | None \<Rightarrow> Inl (NoFreeReservation subnet_index))"

text \<open>The two loops of \<^verbatim>\<open>ensureNodeReservations\<close>.\<close>

definition collect_reservation :: "int \<Rightarrow> string set \<Rightarrow> node \<Rightarrow> cluster_error + string set" where
  "collect_reservation subnet_index used node =
     (if node_ip node = [] then Inr used
      else let ip = to4 (parse_ip (node_ip node)) in
        if ip = [] \<or> \<not> valid_reservation_ip ip subnet_index
        then Inl (InvalidReservation (node_name node) (node_ip node) subnet_index)
        else let key = ip4_string ip in
          if key \<in> used then Inl (DuplicateReservation key) else Inr (insert key used))"

fun fill_reservations ::
    "int \<Rightarrow> string set \<Rightarrow> node list \<Rightarrow> node list \<times> (cluster_error + bool)" where
  "fill_reservations subnet_index used [] = ([], Inr False)"
| "fill_reservations subnet_index used (node # nodes) =
     (if node_ip node \<noteq> [] then
        (case fill_reservations subnet_index used nodes of (rest, r) \<Rightarrow> (node # rest, r))
      else
        (case lowest_free_reservation subnet_index used of
           Inl e \<Rightarrow> (node # nodes, Inl e)
         | Inr ip \<Rightarrow>
             (case fill_reservations subnet_index (insert ip used) nodes of
                (rest, Inl e) \<Rightarrow> (node\<lparr>node_ip := ip\<rparr> # rest, Inl e)
              | (rest, Inr _) \<Rightarrow> (node\<lparr>node_ip := ip\<rparr> # rest, Inr True))))"

definition ensure_node_reservations :: "cluster \<Rightarrow> cluster \<times> (cluster_error + bool)" where
  "ensure_node_reservations item =
     (case fold_try (collect_reservation (cl_subnet_index item)) {} (cl_nodes item) of
        Inl e \<Rightarrow> (item, Inl e)
      | Inr used \<Rightarrow>
         (case fill_reservations (cl_subnet_index item) used (cl_nodes item) of
            (nodes, r) \<Rightarrow> (item\<lparr>cl_nodes := nodes\<rparr>, r)))"

definition next_reservation_ip :: "cluster \<Rightarrow> cluster \<times> (cluster_error + string)" where
  "next_reservation_ip item =
     (case ensure_node_reservations item of
        (item, Inl e) \<Rightarrow> (item, Inl e)
      | (item, Inr _) \<Rightarrow>
          (item, lowest_free_reservation (cl_subnet_index item) (node_ip ` set (cl_nodes item))))"

subsection \<open>Leases\<close>

definition lease_mac :: "string \<Rightarrow> string option" where
  "lease_mac mac =
     (case parse_mac mac of
        None \<Rightarrow> None
      | Some hardware_addr \<Rightarrow>
          if length hardware_addr \<noteq> 6 then None
          else Some (join '':'' (map (\<lambda>octet. format_nat 16 (unat octet)) hardware_addr)))"

definition valid_lease_ip :: "string \<Rightarrow> int \<Rightarrow> bool" where
  "valid_lease_ip value subnet_index \<longleftrightarrow>
     (let ip = to4 (parse_ip value) in
      subnet_index \<ge> 0 \<and> subnet_index \<le> 255 \<and> ip \<noteq> []
      \<and> ip ! 0 = 172 \<and> ip ! 1 = 30 \<and> uint (ip ! 2) = subnet_index
      \<and> uint (ip ! 3) \<ge> 2 \<and> uint (ip ! 3) \<le> 179)"

fun lease_scan :: "(string \<Rightarrow> string) \<Rightarrow> string \<Rightarrow> int \<Rightarrow> string \<Rightarrow> string list \<Rightarrow> string" where
  "lease_scan U want subnet_index ip [] = []"
| "lease_scan U want subnet_index ip (text # rest) =
     (let line = trim_space text in
      if line = ''{'' then lease_scan U want subnet_index [] rest
      else if has_prefix line ''ip_address='' then
        lease_scan U want subnet_index (trim_prefix line ''ip_address='') rest
      else if has_prefix line ''hw_address=1,'' then
        (let got = to_lower U (trim_prefix line ''hw_address=1,'') in
         if ip \<noteq> [] \<and> got = want \<and> valid_lease_ip ip subnet_index then ip
         else lease_scan U want subnet_index ip rest)
      else lease_scan U want subnet_index ip rest)"

definition parse_lease_ip :: "(string \<Rightarrow> string) \<Rightarrow> string \<Rightarrow> string \<Rightarrow> int \<Rightarrow> string" where
  "parse_lease_ip U data mac subnet_index =
     (case lease_mac mac of
        None \<Rightarrow> []
      | Some want \<Rightarrow> lease_scan U want subnet_index [] (scan_lines data))"

subsection \<open>Valid addresses are the pool\<close>

definition canonical_ip :: "string \<Rightarrow> string" where
  "canonical_ip a = ip4_string (to4 (parse_ip a))"

lemma length_4_eq: "length xs = 4 \<Longrightarrow> xs = [xs ! 0, xs ! 1, xs ! 2, xs ! 3]"
  by (auto simp: numeral_eq_Suc length_Suc_conv)

lemma valid_reservation_pool:
  assumes "valid_reservation_ip a si"
  shows "ip4_string a \<in> set (node_pool si)"
proof -
  have l: "length a = 4" and v: "a ! 0 = 172" "a ! 1 = 30" "uint (a ! 2) = si"
    "2 \<le> uint (a ! 3)" "uint (a ! 3) \<le> 179" "0 \<le> si" "si \<le> 255"
    using assms by (auto simp: valid_reservation_ip_def host_consts)
  have "a = [172, 30, word_of_int si, word_of_int (uint (a ! 3))]"
    using length_4_eq [OF l] v by auto
  then have "ip4_string a = reservation_ip si (uint (a ! 3))"
    using v reservation_ip_ip4_string [of si "uint (a ! 3)"] by simp
  then show ?thesis using v(4,5) by (auto simp: in_node_pool)
qed

lemma pool_parse:
  assumes "a \<in> set (node_pool si)" "0 \<le> si" "si \<le> 255"
  shows "valid_reservation_ip (to4 (parse_ip a)) si" "canonical_ip a = a"
    "to4 (parse_ip a) \<noteq> []"
proof -
  obtain h where h: "2 \<le> h" "h \<le> 179" "a = reservation_ip si h"
    using assms(1) by (auto simp: in_node_pool)
  have a: "a = ip4_string [172, 30, word_of_int si, word_of_int h]"
    using h assms by (simp add: reservation_ip_ip4_string)
  have t: "to4 (parse_ip a) = [172, 30, word_of_int si, word_of_int h]"
    by (simp add: a)
  show "valid_reservation_ip (to4 (parse_ip a)) si"
    using h assms unfolding t
    by (simp add: valid_reservation_ip_def host_consts uint_word_of_int)
  show "canonical_ip a = a" "to4 (parse_ip a) \<noteq> []"
    unfolding canonical_ip_def t by (simp_all add: a)
qed

lemma canonical_ip_valid:
  "valid_reservation_ip (to4 (parse_ip a)) si \<Longrightarrow> canonical_ip a \<in> set (node_pool si)"
  by (simp add: canonical_ip_def valid_reservation_pool)

lemma ip4_string_eq_iff:
  "length a = 4 \<Longrightarrow> length b = 4 \<Longrightarrow> ip4_string a = ip4_string b \<longleftrightarrow> a = b"
  using ip4_string_inj by auto

subsection \<open>The lowest free address\<close>

lemma lowest_free_Inr:
  assumes "lowest_free_reservation si used = Inr a"
  shows "a \<in> set (node_pool si)" "a \<notin> used"
    "\<exists>h. a = reservation_ip si h \<and> 2 \<le> h \<and> h \<le> 179 \<and> (\<forall>k. 2 \<le> k \<and> k < h \<longrightarrow> reservation_ip si k \<in> used)"
proof -
  obtain h where f: "find (\<lambda>h. reservation_ip si h \<notin> used) [2..179] = Some h"
    and a: "a = reservation_ip si h"
    using assms unfolding lowest_free_reservation_def firstNodeHost_def lastNodeHost_def
    by (cases "find (\<lambda>h. reservation_ip si h \<notin> used) [2..179]") (simp_all del: upto_rec_numeral)
  then obtain i where i: "i < 178" "reservation_ip si h \<notin> used" "h = 2 + int i"
      "\<forall>j<i. reservation_ip si (2 + int j) \<in> used"
    by (auto simp: find_Some_iff nth_upto simp del: upto_rec_numeral)
  show "a \<notin> used" using a i by simp
  show "a \<in> set (node_pool si)" using a i(1,3) by (auto simp: in_node_pool intro!: exI [of _ h])
  have "reservation_ip si k \<in> used" if "2 \<le> k" "k < h" for k
    using i(4) [rule_format, of "nat (k - 2)"] that i(3) by simp
  then show "\<exists>h. a = reservation_ip si h \<and> 2 \<le> h \<and> h \<le> 179 \<and> (\<forall>k. 2 \<le> k \<and> k < h \<longrightarrow> reservation_ip si k \<in> used)"
    using a i(1,3) by (intro exI [of _ h]) simp
qed

lemma lowest_free_Inl:
  "lowest_free_reservation si used = Inl e \<longleftrightarrow>
     e = NoFreeReservation si \<and> set (node_pool si) \<subseteq> used"
proof -
  have "find (\<lambda>h. reservation_ip si h \<notin> used) [firstNodeHost..lastNodeHost] = None
        \<longleftrightarrow> set (node_pool si) \<subseteq> used"
    unfolding find_None_iff node_pool_def set_map set_upto by auto
  then show ?thesis
    unfolding lowest_free_reservation_def by (auto split: option.splits)
qed

lemma lowest_free_exists:
  assumes "finite used" "card used < 178" "0 \<le> si"
  obtains a where "lowest_free_reservation si used = Inr a"
proof (cases "lowest_free_reservation si used")
  case (Inl e)
  then have "card (set (node_pool si)) \<le> card used"
    using assms(1) by (auto simp: lowest_free_Inl card_mono)
  with assms(2,3) show ?thesis
    by (simp add: distinct_card [OF distinct_node_pool] length_node_pool)
qed

subsection \<open>Migration\<close>

text \<open>Addresses already set are only checked; a cluster whose addresses are all set and pass the
  checks is left as it is.\<close>

lemma fill_set: "\<forall>n\<in>set ns. node_ip n \<noteq> [] \<Longrightarrow> fill_reservations si used ns = (ns, Inr False)"
  by (induction ns) auto

definition set_address_ok :: "int \<Rightarrow> string \<Rightarrow> bool" where
  "set_address_ok si a \<longleftrightarrow> to4 (parse_ip a) \<noteq> [] \<and> valid_reservation_ip (to4 (parse_ip a)) si"

lemma collect_step:
  "collect_reservation si u n = Inr v \<longleftrightarrow>
     (if node_ip n = [] then v = u
      else set_address_ok si (node_ip n) \<and> canonical_ip (node_ip n) \<notin> u
           \<and> v = insert (canonical_ip (node_ip n)) u)"
  by (auto simp: collect_reservation_def Let_def canonical_ip_def set_address_ok_def)

lemma collect_Inr:
  "fold_try (collect_reservation si) u ns = Inr v \<longleftrightarrow>
     (let as = map node_ip (filter (\<lambda>n. node_ip n \<noteq> []) ns) in
      (\<forall>a\<in>set as. set_address_ok si a) \<and> distinct (map canonical_ip as) \<and> canonical_ip ` set as \<inter> u = {}
      \<and> v = u \<union> canonical_ip ` set as)"
proof (induction ns arbitrary: u)
  case (Cons n ns)
  show ?case
    by (cases "node_ip n = []") (auto simp: try_bind_eq_Inr collect_step Cons Let_def)
qed (auto simp: Let_def)

text \<open>The second loop keeps everything but the missing addresses, and gives each of those a
  fresh address of the pool.\<close>

lemma fill_same:
  "fill_reservations si used ns = (ms, r) \<Longrightarrow>
     length ms = length ns \<and> map node_name ms = map node_name ns \<and> map node_role ms = map node_role ns
     \<and> map node_mac ms = map node_mac ns"
  by (induction ns arbitrary: used ms r) (auto split: if_splits sum.splits prod.splits)

lemma fill_keeps_set:
  "fill_reservations si used ns = (ms, r) \<Longrightarrow> list_all2 (\<lambda>n m. node_ip n \<noteq> [] \<longrightarrow> m = n) ns ms"
proof (induction ns arbitrary: used ms r)
  case (Cons n ns)
  then show ?case
    by (auto simp: list_all2_same split: if_splits sum.splits prod.splits)
qed auto

lemma fill_fresh:
  assumes "fill_reservations si used ns = (ms, Inr b)"
  shows "\<exists>fresh. distinct fresh \<and> set fresh \<subseteq> set (node_pool si) - used
    \<and> mset (map node_ip ms) = mset (filter (\<lambda>a. a \<noteq> []) (map node_ip ns)) + mset fresh"
  using assms
proof (induction ns arbitrary: used ms b)
  case (Cons n ns)
  show ?case
  proof (cases "node_ip n = []")
    case True
    then obtain a rest c where f: "lowest_free_reservation si used = Inr a"
        "fill_reservations si (insert a used) ns = (rest, Inr c)"
      and ms: "ms = n\<lparr>node_ip := a\<rparr> # rest"
      using Cons.prems by (auto split: sum.splits prod.splits)
    obtain fresh where "distinct fresh" "set fresh \<subseteq> set (node_pool si) - insert a used"
      "mset (map node_ip rest) = mset (filter (\<lambda>a. a \<noteq> []) (map node_ip ns)) + mset fresh"
      using Cons.IH [OF f(2)] by blast
    then show ?thesis
      using lowest_free_Inr(1,2) [OF f(1)] True
      by (intro exI [of _ "a # fresh"]) (auto simp: ms)
  next
    case False
    then obtain rest where "fill_reservations si used ns = (rest, Inr b)" "ms = n # rest"
      using Cons.prems by (auto split: prod.splits)
    then show ?thesis
      using Cons.IH [of used rest b] False by auto
  qed
qed simp

text \<open>The contract of the migration: all addresses are set, valid and pairwise different as
  addresses, and nothing else about the nodes changes.\<close>

definition addresses_ok :: "int \<Rightarrow> node list \<Rightarrow> bool" where
  "addresses_ok si ns \<longleftrightarrow>
     (\<forall>n\<in>set ns. set_address_ok si (node_ip n)) \<and> distinct (map (canonical_ip \<circ> node_ip) ns)"

lemma pool_set_address_ok:
  "a \<in> set (node_pool si) \<Longrightarrow> 0 \<le> si \<Longrightarrow> si \<le> 255 \<Longrightarrow> set_address_ok si a \<and> canonical_ip a = a"
  using pool_parse [of a si] by (simp add: set_address_ok_def)

lemma ensure_addresses_ok:
  assumes e: "ensure_node_reservations c = (d, Inr b)"
    and si: "0 \<le> cl_subnet_index c" "cl_subnet_index c \<le> 255"
  shows "addresses_ok (cl_subnet_index c) (cl_nodes d)"
proof -
  let ?si = "cl_subnet_index c" and ?as = "filter (\<lambda>a. a \<noteq> []) (map node_ip (cl_nodes c))"
  obtain used where used: "fold_try (collect_reservation ?si) {} (cl_nodes c) = Inr used"
    and fill: "fill_reservations ?si used (cl_nodes c) = (cl_nodes d, Inr b)"
    using e by (auto simp: ensure_node_reservations_def split: sum.splits prod.splits)
  have "?as = map node_ip (filter (\<lambda>n. node_ip n \<noteq> []) (cl_nodes c))"
    by (simp add: filter_map comp_def)
  with used have as: "\<forall>a\<in>set ?as. set_address_ok ?si a" "distinct (map canonical_ip ?as)"
      "used = canonical_ip ` set ?as"
    unfolding collect_Inr Let_def by simp_all
  obtain fresh where f: "distinct fresh" "set fresh \<subseteq> set (node_pool ?si) - used"
      "mset (map node_ip (cl_nodes d)) = mset (?as @ fresh)"
    using fill_fresh [OF fill] by auto
  have fresh: "\<forall>a\<in>set fresh. set_address_ok ?si a \<and> canonical_ip a = a"
    using f(2) pool_set_address_ok [OF _ si] by blast
  then have "map canonical_ip fresh = fresh" by (simp add: map_idI)
  with as f fresh have "distinct (map canonical_ip (?as @ fresh))"
    by auto
  moreover have "mset (map canonical_ip (map node_ip (cl_nodes d))) = mset (map canonical_ip (?as @ fresh))"
    unfolding mset_map f(3) [unfolded mset_map] ..
  ultimately have "distinct (map canonical_ip (map node_ip (cl_nodes d)))"
    using mset_eq_imp_distinct_iff by blast
  moreover have "set (map node_ip (cl_nodes d)) = set (?as @ fresh)"
    using f(3) by (rule mset_eq_setD)
  ultimately show ?thesis
    using as(1) fresh by (auto simp: addresses_ok_def)
qed

lemma address_set: "set_address_ok si a \<Longrightarrow> a \<noteq> []"
  by (auto simp: set_address_ok_def parse_ip_def parse_addr_def)

lemma ensure_complete:
  assumes "addresses_ok (cl_subnet_index c) (cl_nodes c)"
  shows "ensure_node_reservations c = (c, Inr False)"
proof -
  have all: "\<forall>n\<in>set (cl_nodes c). node_ip n \<noteq> []"
    using assms address_set by (auto simp: addresses_ok_def)
  then have "filter (\<lambda>n. node_ip n \<noteq> []) (cl_nodes c) = cl_nodes c" by simp
  then have "fold_try (collect_reservation (cl_subnet_index c)) {} (cl_nodes c) =
      Inr (canonical_ip ` node_ip ` set (cl_nodes c))"
    unfolding collect_Inr Let_def using assms by (simp add: addresses_ok_def)
  then show ?thesis
    using fill_set [OF all] by (simp add: ensure_node_reservations_def)
qed

lemma cluster_ok_addresses:
  assumes "cluster_ok c"
  shows "addresses_ok (cl_subnet_index c) (cl_nodes c)"
proof -
  have ok: "set_address_ok (cl_subnet_index c) (node_ip n) \<and> canonical_ip (node_ip n) = node_ip n"
    if "n \<in> set (cl_nodes c)" for n
    using assms that by (intro pool_set_address_ok) (auto simp: cluster_ok_def MaxSubnetIndex_def)
  then have "map (canonical_ip \<circ> node_ip) (cl_nodes c) = map node_ip (cl_nodes c)" by simp
  then show ?thesis
    using ok assms by (simp only: addresses_ok_def cluster_ok_def) blast
qed

lemma ensure_unchanged: "cluster_ok c \<Longrightarrow> ensure_node_reservations c = (c, Inr False)"
  by (rule ensure_complete [OF cluster_ok_addresses])

lemma next_reservation_ok:
  "cluster_ok c \<Longrightarrow> next_reservation_ip c =
     (c, lowest_free_reservation (cl_subnet_index c) (node_ip ` set (cl_nodes c)))"
  by (simp add: next_reservation_ip_def ensure_unchanged)

lemma ensure_same:
  assumes "ensure_node_reservations c = (d, r)"
  shows "d = c\<lparr>cl_nodes := cl_nodes d\<rparr>" "map node_name (cl_nodes d) = map node_name (cl_nodes c)"
    "map node_role (cl_nodes d) = map node_role (cl_nodes c)"
    "map node_mac (cl_nodes d) = map node_mac (cl_nodes c)"
    "list_all2 (\<lambda>n m. node_ip n \<noteq> [] \<longrightarrow> m = n) (cl_nodes c) (cl_nodes d)"
  using assms
  by (auto simp: ensure_node_reservations_def list_all2_same
      dest: fill_same fill_keeps_set split: sum.splits prod.splits)

subsection \<open>What the table contains\<close>

text \<open>The specification: the entry a node contributes, and the table as the map of all entries.\<close>

definition node_entry :: "cluster \<times> node \<Rightarrow> (string \<times> reservation) option" where
  "node_entry cn = (case cn of (item, node) \<Rightarrow>
     (case canonical_mac (node_mac node) of
        None \<Rightarrow> None
      | Some mac \<Rightarrow>
          if set_address_ok (cl_subnet_index item) (node_ip node)
          then Some (mac_string mac,
                     \<lparr>res_mac = mac, res_ip = to4 (parse_ip (node_ip node)),
                      res_subnet_index = cl_subnet_index item\<rparr>)
          else None))"

definition all_nodes :: "cluster list \<Rightarrow> (cluster \<times> node) list" where
  "all_nodes clusters = concat (map (\<lambda>c. map (Pair c) (cl_nodes c)) clusters)"

lemma in_all_nodes: "(c, n) \<in> set (all_nodes cs) \<longleftrightarrow> c \<in> set cs \<and> n \<in> set (cl_nodes c)"
  by (auto simp: all_nodes_def)

lemma index_node_Inr:
  "index_node c (bm, bi) n = Inr st \<longleftrightarrow>
     (\<exists>k r who. node_entry (c, n) = Some (k, r) \<and> bm k = None \<and> bi (ip4_string (res_ip r)) = None
        \<and> who = cl_name c @ ''/'' @ node_name n
        \<and> st = (bm(k \<mapsto> r), bi(ip4_string (res_ip r) \<mapsto> who)))"
  by (auto simp: index_node_def node_entry_def set_address_ok_def Let_def split: option.splits)

abbreviation entry_ip :: "string \<times> reservation \<Rightarrow> string" where
  "entry_ip e \<equiv> ip4_string (res_ip (snd e))"

lemma dom_upd_disjoint: "A \<inter> dom (m(k \<mapsto> v)) = {} \<longleftrightarrow> k \<notin> A \<and> A \<inter> dom m = {}"
  by auto

lemma map_add_upd_first:
  "k \<notin> fst ` set es \<Longrightarrow> (m(k \<mapsto> v)) ++ map_of es = (m ++ map_of es)(k \<mapsto> v)"
  by (rule map_add_upd_left) (simp add: dom_map_of_conv_image_fst)

lemma entries_Cons:
  "node_entry cn = Some (k, r) \<and> bm k = None \<and> bi (ip4_string (res_ip r)) = None
     \<and> map node_entry cns = map Some es \<and> distinct (map fst es) \<and> distinct (map entry_ip es)
     \<and> fst ` set es \<inter> dom (bm(k \<mapsto> r)) = {} \<and> entry_ip ` set es \<inter> dom (bi(ip4_string (res_ip r) \<mapsto> w)) = {}
     \<and> t = bm(k \<mapsto> r) ++ map_of es
   \<longleftrightarrow> map node_entry (cn # cns) = map Some ((k, r) # es)
     \<and> distinct (map fst ((k, r) # es)) \<and> distinct (map entry_ip ((k, r) # es))
     \<and> fst ` set ((k, r) # es) \<inter> dom bm = {} \<and> entry_ip ` set ((k, r) # es) \<inter> dom bi = {}
     \<and> t = bm ++ map_of ((k, r) # es)"
proof -
  have "bm(k \<mapsto> r) ++ map_of es = bm ++ map_of ((k, r) # es)" if "k \<notin> fst ` set es"
    using that by (simp add: map_add_upd_first)
  then show ?thesis
    unfolding dom_upd_disjoint list.map distinct.simps list.inject list.set image_insert
      Int_insert_left fst_conv snd_conv set_map
    by (smt (verit) domIff insert_not_empty)
qed

lemma ex_Cons_pair:
  "(\<And>es. P es \<Longrightarrow> es \<noteq> []) \<Longrightarrow> (\<exists>k r es. P ((k, r) # es)) \<longleftrightarrow> (\<exists>es. P es)"
  by (metis list.exhaust surj_pair)

lemma fold_index_node:
  "(\<exists>bi'. fold_try (\<lambda>st cn. index_node (fst cn) st (snd cn)) (bm, bi) cns = Inr (t, bi')) \<longleftrightarrow>
     (\<exists>es. map node_entry cns = map Some es \<and> distinct (map fst es) \<and> distinct (map entry_ip es)
        \<and> fst ` set es \<inter> dom bm = {} \<and> entry_ip ` set es \<inter> dom bi = {} \<and> t = bm ++ map_of es)"
proof (induction cns arbitrary: bm bi)
  case Nil
  show ?case by auto
next
  case (Cons cn cns)
  obtain c n where cn: "cn = (c, n)" by fastforce
  let ?bi = "\<lambda>r. bi(ip4_string (res_ip r) \<mapsto> cl_name c @ ''/'' @ node_name n)"
  have "(\<exists>bi'. fold_try (\<lambda>st cn. index_node (fst cn) st (snd cn)) (bm, bi) (cn # cns) = Inr (t, bi'))
     \<longleftrightarrow> (\<exists>k r. node_entry cn = Some (k, r) \<and> bm k = None \<and> bi (ip4_string (res_ip r)) = None
           \<and> (\<exists>bi'. fold_try (\<lambda>st cn. index_node (fst cn) st (snd cn)) (bm(k \<mapsto> r), ?bi r) cns = Inr (t, bi')))"
    by (auto simp: cn try_bind_eq_Inr index_node_Inr)
  also have "\<dots> \<longleftrightarrow> (\<exists>k r es. node_entry cn = Some (k, r) \<and> bm k = None \<and> bi (ip4_string (res_ip r)) = None
           \<and> map node_entry cns = map Some es \<and> distinct (map fst es) \<and> distinct (map entry_ip es)
           \<and> fst ` set es \<inter> dom (bm(k \<mapsto> r)) = {} \<and> entry_ip ` set es \<inter> dom (?bi r) = {}
           \<and> t = bm(k \<mapsto> r) ++ map_of es)"
    unfolding Cons by (simp only: ex_simps)
  also have "\<dots> \<longleftrightarrow> (\<exists>k r es. map node_entry (cn # cns) = map Some ((k, r) # es)
           \<and> distinct (map fst ((k, r) # es)) \<and> distinct (map entry_ip ((k, r) # es))
           \<and> fst ` set ((k, r) # es) \<inter> dom bm = {} \<and> entry_ip ` set ((k, r) # es) \<inter> dom bi = {}
           \<and> t = bm ++ map_of ((k, r) # es))"
    by (intro iff_exI entries_Cons)
  also have "\<dots> \<longleftrightarrow> (\<exists>es. map node_entry (cn # cns) = map Some es \<and> distinct (map fst es)
           \<and> distinct (map entry_ip es) \<and> fst ` set es \<inter> dom bm = {} \<and> entry_ip ` set es \<inter> dom bi = {}
           \<and> t = bm ++ map_of es)"
    by (rule ex_Cons_pair) (metis list.distinct(1) list.map_disc_iff)
  finally show ?case .
qed

lemma index_cluster_Inr:
  "index_cluster st c = Inr s \<longleftrightarrow>
     0 \<le> cl_subnet_index c \<and> cl_subnet_index c \<le> 255 \<and> fold_try (index_node c) st (cl_nodes c) = Inr s"
  by (auto simp: index_cluster_def MaxSubnetIndex_def)

lemma fold_index_cluster:
  "fold_try index_cluster st cs = Inr st' \<longleftrightarrow>
     (\<forall>c\<in>set cs. 0 \<le> cl_subnet_index c \<and> cl_subnet_index c \<le> 255)
     \<and> fold_try (\<lambda>st cn. index_node (fst cn) st (snd cn)) st (all_nodes cs) = Inr st'"
proof (induction cs arbitrary: st)
  case (Cons c cs)
  have "fold_try (index_node c) st ns = fold_try (\<lambda>st cn. index_node (fst cn) st (snd cn)) st (map (Pair c) ns)"
    for st ns by (induction ns arbitrary: st) (simp_all add: try_bind_def split: sum.split)
  then show ?case
    by (auto simp: all_nodes_def fold_try_append try_bind_eq_Inr index_cluster_Inr Cons)
qed (simp add: all_nodes_def)

text \<open>The table is built exactly when every node has a valid entry and no two entries share a MAC
  or an address, and then it is the map of these entries.\<close>

lemma new_table_iff:
  "new_reservation_table cs = Inr t \<longleftrightarrow>
     (\<forall>c\<in>set cs. 0 \<le> cl_subnet_index c \<and> cl_subnet_index c \<le> 255)
     \<and> (\<exists>es. map node_entry (all_nodes cs) = map Some es \<and> distinct (map fst es)
           \<and> distinct (map entry_ip es) \<and> t = map_of es)"
  using fold_index_node [of Map.empty Map.empty "all_nodes cs" t]
  by (auto simp: new_reservation_table_def try_bind_eq_Inr fold_index_cluster)

lemma node_entryD:
  assumes "node_entry (c, n) = Some (k, r)"
  shows "canonical_mac (node_mac n) = Some (res_mac r)" "k = mac_string (res_mac r)"
    "res_ip r = to4 (parse_ip (node_ip n))" "res_subnet_index r = cl_subnet_index c"
    "valid_reservation_ip (res_ip r) (cl_subnet_index c)" "length (res_mac r) = 6"
  using assms
  by (auto simp: node_entry_def set_address_ok_def canonical_mac_def split: option.splits if_splits)

lemma new_table_entries:
  assumes "new_reservation_table cs = Inr t"
  obtains es where "map node_entry (all_nodes cs) = map Some es" "distinct (map fst es)"
    "distinct (map entry_ip es)" "t = map_of es"
  using assms by (auto simp: new_table_iff)

lemma table_lookup_node:
  assumes "new_reservation_table cs = Inr t" "c \<in> set cs" "n \<in> set (cl_nodes c)"
  shows "\<exists>r. table_lookup t (node_mac n) = Some r \<and> res_ip r = to4 (parse_ip (node_ip n))
           \<and> res_subnet_index r = cl_subnet_index c \<and> valid_reservation_ip (res_ip r) (cl_subnet_index c)"
proof -
  obtain es where es: "map node_entry (all_nodes cs) = map Some es" "distinct (map fst es)" "t = map_of es"
    using new_table_entries [OF assms(1)] .
  have "node_entry (c, n) \<in> set (map node_entry (all_nodes cs))"
    using assms(2,3) by (simp add: in_all_nodes)
  then obtain k r where e: "node_entry (c, n) = Some (k, r)" "(k, r) \<in> set es"
    unfolding es(1) by auto
  then have "t k = Some r" using es(2,3) by simp
  then show ?thesis
    using node_entryD [OF e(1)] by (auto simp: table_lookup_def)
qed

lemma table_entry_node:
  assumes "new_reservation_table cs = Inr t" "t k = Some r"
  shows "\<exists>c n. c \<in> set cs \<and> n \<in> set (cl_nodes c) \<and> node_entry (c, n) = Some (k, r)"
proof -
  obtain es where es: "map node_entry (all_nodes cs) = map Some es" "t = map_of es"
    using new_table_entries [OF assms(1)] .
  then have "Some (k, r) \<in> set (map node_entry (all_nodes cs))"
    using assms(2) by (auto dest: map_of_SomeD)
  then show ?thesis by (force simp: in_all_nodes)
qed

lemma table_injective:
  assumes "new_reservation_table cs = Inr t" "t k = Some r" "t l = Some q" "res_ip r = res_ip q"
  shows "k = l"
proof -
  obtain es where "distinct (map entry_ip es)" "t = map_of es"
    using new_table_entries [OF assms(1)] .
  then have "inj_on entry_ip (set es)" "(k, r) \<in> set es" "(l, q) \<in> set es"
    using assms(2,3) by (auto simp: distinct_map dest: map_of_SomeD)
  then show ?thesis
    using inj_onD [of entry_ip "set es" "(k, r)" "(l, q)"] assms(4) by simp
qed

subsection \<open>Leases\<close>

lemma lease_scan_valid: "lease_scan U want si ip ls \<noteq> [] \<Longrightarrow> valid_lease_ip (lease_scan U want si ip ls) si"
  by (induction ls arbitrary: ip) (auto simp: Let_def split: if_splits)

lemma parse_lease_ip_valid:
  "parse_lease_ip U data mac si \<noteq> [] \<Longrightarrow> set_address_ok si (parse_lease_ip U data mac si)"
  using lease_scan_valid length_to4
  by (force simp: parse_lease_ip_def valid_lease_ip_def set_address_ok_def valid_reservation_ip_def
      host_consts Let_def split: option.splits)

subsection \<open>Properties\<close>

text \<open>C5: When the reservation table is built, every node of every cluster finds its own address
  under its MAC, and that address is a valid one of the cluster's subnet; no two MACs of the table
  share an address.\<close>

theorem reservation_table_correct:
  assumes "new_reservation_table cs = Inr t"
  shows "(\<forall>c\<in>set cs. \<forall>n\<in>set (cl_nodes c). \<exists>r. table_lookup t (node_mac n) = Some r
            \<and> res_ip r = to4 (parse_ip (node_ip n)) \<and> res_subnet_index r = cl_subnet_index c
            \<and> valid_reservation_ip (res_ip r) (cl_subnet_index c))
       \<and> (\<forall>k l r q. t k = Some r \<longrightarrow> t l = Some q \<longrightarrow> res_ip r = res_ip q \<longrightarrow> k = l)"
  using table_lookup_node [OF assms] table_injective [OF assms] by blast

text \<open>Two nodes with the addresses \<^verbatim>\<open>172.30.0.2\<close> and \<^verbatim>\<open>172.30.0.3\<close>.\<close>

definition sample_cluster :: cluster where
  "sample_cluster = zero_cluster\<lparr>cl_name := ''demo'', cl_nodes :=
     [\<lparr>node_name = ''demo-cp-1'', node_role = RoleControlPlane, node_mac = ''52:54:00:00:00:01'',
       node_ip = ''172.30.0.2''\<rparr>,
      \<lparr>node_name = ''demo-worker-1'', node_role = RoleWorker, node_mac = ''52:54:00:00:00:02'',
       node_ip = ''172.30.0.3''\<rparr>], cl_control_planes := 1, cl_workers := 1\<rparr>"

theorem reservation_table_correct_witness:
  "\<exists>t. new_reservation_table [sample_cluster] = Inr t
     \<and> (\<exists>r. table_lookup t ''52:54:00:00:00:02'' = Some r \<and> res_ip r = to4 (parse_ip ''172.30.0.3''))"
proof -
  have "\<not> isl (new_reservation_table [sample_cluster])" by code_simp
  then obtain t where t: "new_reservation_table [sample_cluster] = Inr t"
    by (cases "new_reservation_table [sample_cluster]") auto
  moreover have "\<exists>r. table_lookup t (node_mac (cl_nodes sample_cluster ! 1)) = Some r
      \<and> res_ip r = to4 (parse_ip (node_ip (cl_nodes sample_cluster ! 1)))"
    using reservation_table_correct [OF t] by (fastforce simp: sample_cluster_def)
  ultimately show ?thesis by (simp add: sample_cluster_def)
qed


definition legacy_cluster :: cluster where
  "legacy_cluster = sample_cluster\<lparr>cl_nodes := map (\<lambda>n. n\<lparr>node_ip := []\<rparr>) (cl_nodes sample_cluster)\<rparr>"


definition mapped_cluster :: cluster where
  "mapped_cluster = zero_cluster\<lparr>cl_name := ''demo'', cl_nodes :=
     [\<lparr>node_name = ''demo-cp-1'', node_role = RoleControlPlane, node_mac = ''52:54:00:00:00:01'',
       node_ip = ''::ffff:172.30.0.2''\<rparr>], cl_control_planes := 1\<rparr>"


end
