(* ===== verification/Cluster_Nodes.thy ===== *)
theory Cluster_Nodes
  imports Reservations
begin

text \<open>
  Adding and removing nodes, \<^verbatim>\<open>src/internal/cluster/node.go\<close>. Both operations change the cluster
  through a pointer; the model returns the cluster they leave behind next to their result.
\<close>

definition next_node_name :: "cluster \<Rightarrow> string \<Rightarrow> string" where
  "next_node_name c role =
     (let label = (if role = RoleControlPlane then ''cp'' else ''worker'');
          prefix = cl_name c @ ''-'' @ label @ ''-'';
          max_index = foldl (\<lambda>m node.
            if \<not> has_prefix (node_name node) prefix then m
            else (case atoi (trim_prefix (node_name node) prefix) of
                    Some index \<Rightarrow> if index > m then index else m
                  | None \<Rightarrow> m)) 0 (cl_nodes c)
      in prefix @ itoa (i64 (max_index + 1)))"

definition add_node :: "cluster \<Rightarrow> string \<Rightarrow> string \<Rightarrow> cluster \<times> (cluster_error + node)" where
  "add_node c role name0 =
     (if role \<noteq> RoleControlPlane \<and> role \<noteq> RoleWorker then (c, Inl (InvalidRole role))
      else let name = (if name0 = [] then next_node_name c role else name0) in
        (case valid_name name of
           Inl e \<Rightarrow> (c, Inl (InvalidNodeName name e))
         | Inr _ \<Rightarrow>
            if list_ex (\<lambda>node. node_name node = name) (cl_nodes c) then (c, Inl (NodeExists name))
            else
              (case next_reservation_ip c of
                 (c, Inl e) \<Rightarrow> (c, Inl e)
               | (c, Inr ip) \<Rightarrow>
                  (let node = new_node (cl_name c) name role ip;
                       c = c\<lparr>cl_nodes := cl_nodes c @ [node]\<rparr>;
                       c = (if role = RoleControlPlane
                            then c\<lparr>cl_control_planes := i64 (cl_control_planes c + 1)\<rparr>
                            else c\<lparr>cl_workers := i64 (cl_workers c + 1)\<rparr>)
                   in (c, Inr node)))))"

fun split_node :: "string \<Rightarrow> node list \<Rightarrow> (node list \<times> node \<times> node list) option" where
  "split_node name [] = None"
| "split_node name (node # nodes) =
     (if node_name node \<noteq> name
      then map_option (\<lambda>(before, found, after). (node # before, found, after)) (split_node name nodes)
      else Some ([], node, nodes))"

definition remove_node :: "cluster \<Rightarrow> string \<Rightarrow> cluster \<times> (cluster_error + node)" where
  "remove_node c name =
     (case split_node name (cl_nodes c) of
        None \<Rightarrow> (c, Inl (NodeNotFound name))
      | Some (before, node, after) \<Rightarrow>
         (let c = c\<lparr>cl_nodes := before @ after\<rparr>;
              c = (if node_role node = RoleControlPlane
                   then c\<lparr>cl_control_planes := i64 (cl_control_planes c - 1)\<rparr>
                   else c\<lparr>cl_workers := i64 (cl_workers c - 1)\<rparr>)
          in (c, Inr node)))"

text \<open>The two operations as events on a cluster.\<close>

datatype node_op = AddOp string string | RemoveOp string

fun node_step :: "cluster \<Rightarrow> node_op \<Rightarrow> cluster" where
  "node_step c (AddOp role name) = fst (add_node c role name)"
| "node_step c (RemoveOp name) = fst (remove_node c name)"

subsection \<open>Size\<close>

lemma cluster_ok_size:
  assumes "cluster_ok c"
  shows "length (cl_nodes c) \<le> 178"
proof -
  have "card (set (map node_ip (cl_nodes c))) \<le> card (set (node_pool (cl_subnet_index c)))"
    using assms by (intro card_mono) (auto simp: cluster_ok_def)
  also have "\<dots> \<le> 178"
    using card_length length_node_pool by metis
  finally show ?thesis
    using assms by (simp add: cluster_ok_def distinct_card flip: set_map)
qed

lemma count_role_bounds: "0 \<le> count_role r ns" "count_role r ns \<le> int (length ns)"
  by (simp_all add: count_role_def)

lemma count_role_Cons [simp]: "count_role r (n # ns) = (if node_role n = r then 1 else 0) + count_role r ns"
  by (simp add: count_role_def)

lemma count_role_Nil [simp]: "count_role r [] = 0"
  by (simp add: count_role_def)

subsection \<open>Adding\<close>

lemma new_node_simps [simp]:
  "node_name (new_node c n r a) = n" "node_role (new_node c n r a) = r"
  "node_ip (new_node c n r a) = a" "node_mac (new_node c n r a) = deterministic_mac c n"
  by (simp_all add: new_node_def)

text \<open>On a well-formed cluster a failing call changes nothing and a succeeding one appends the
  node it returns, at the lowest free address.\<close>

lemma add_node_Inl:
  "cluster_ok c \<Longrightarrow> add_node c role name = (d, Inl e) \<Longrightarrow> d = c"
  by (auto simp: add_node_def next_reservation_ok Let_def split: if_splits sum.splits)

lemma add_node_Inr:
  assumes "cluster_ok c" "add_node c role name = (d, Inr n)"
  obtains a where "lowest_free_reservation (cl_subnet_index c) (node_ip ` set (cl_nodes c)) = Inr a"
    "n = new_node (cl_name c) (if name = [] then next_node_name c role else name) role a"
    "role = RoleControlPlane \<or> role = RoleWorker"
    "node_name n \<notin> node_name ` set (cl_nodes c)" "valid_name (node_name n) = Inr ()"
    "d = (if role = RoleControlPlane
          then c\<lparr>cl_nodes := cl_nodes c @ [n], cl_control_planes := i64 (cl_control_planes c + 1)\<rparr>
          else c\<lparr>cl_nodes := cl_nodes c @ [n], cl_workers := i64 (cl_workers c + 1)\<rparr>)"
  using assms
  by (fastforce simp: add_node_def next_reservation_ok Let_def list_ex_iff split: if_splits sum.splits)

lemma add_node_cluster_ok:
  assumes ok: "cluster_ok c" and add: "add_node c role name = (d, r)"
  shows "cluster_ok d"
proof (cases r)
  case (Inl e)
  with add_node_Inl [OF ok, of role name d e] add ok show ?thesis by simp
next
  case (Inr n)
  from add_node_Inr [OF ok add [unfolded Inr]] obtain a where
    a: "lowest_free_reservation (cl_subnet_index c) (node_ip ` set (cl_nodes c)) = Inr a"
      "node_ip n = a" "node_role n = role" "role = RoleControlPlane \<or> role = RoleWorker"
      "node_name n \<notin> node_name ` set (cl_nodes c)"
    and d: "d = (if role = RoleControlPlane
          then c\<lparr>cl_nodes := cl_nodes c @ [n], cl_control_planes := i64 (cl_control_planes c + 1)\<rparr>
          else c\<lparr>cl_nodes := cl_nodes c @ [n], cl_workers := i64 (cl_workers c + 1)\<rparr>)"
    by (metis new_node_simps(2,3))
  have "i64 (count_role q (cl_nodes c) + 1) = count_role q (cl_nodes c) + 1" for q
    using count_role_bounds [of q "cl_nodes c"] cluster_ok_size [OF ok] by (intro i64_small) simp_all
  then show ?thesis
    using ok a lowest_free_Inr(1,2) [OF a(1)] by (auto simp: d cluster_ok_def)
qed

text \<open>A generated name is new, unless the largest number in use is the largest integer.\<close>

definition node_prefix :: "cluster \<Rightarrow> string \<Rightarrow> string" where
  "node_prefix c role = cl_name c @ ''-'' @ (if role = RoleControlPlane then ''cp'' else ''worker'') @ ''-''"

definition node_index :: "cluster \<Rightarrow> string \<Rightarrow> node \<Rightarrow> int" where
  "node_index c role n =
     (if has_prefix (node_name n) (node_prefix c role)
      then case_option 0 id (atoi (trim_prefix (node_name n) (node_prefix c role))) else 0)"

lemma fold_max: "foldl (\<lambda>m n. max m (f n)) k ns = Max (insert k (f ` set ns))" for k :: int
proof (induction ns arbitrary: k)
  case (Cons n ns)
  then show ?case by (cases "set ns = {}") (simp_all add: max.commute max.left_commute insert_commute)
qed simp

lemma next_node_name_eq:
  "next_node_name c role =
     node_prefix c role @ itoa (i64 (Max (insert 0 (node_index c role ` set (cl_nodes c))) + 1))"
proof -
  have eq: "foldl (\<lambda>m n. if \<not> has_prefix (node_name n) p then m
            else case atoi (trim_prefix (node_name n) p) of Some i \<Rightarrow> if i > m then i else m | None \<Rightarrow> m) k ns
        = foldl (\<lambda>m n. max m (if has_prefix (node_name n) p
                   then case_option 0 id (atoi (trim_prefix (node_name n) p)) else 0)) k ns"
    if "0 \<le> k" for p k ns
    using that by (induction ns arbitrary: k) (auto simp: max_def split: option.split)
  show ?thesis
    unfolding fold_max [symmetric] next_node_name_def node_index_def Let_def eq [OF order_refl]
      node_prefix_def ..
qed

lemma next_node_name_fresh:
  assumes "\<forall>n\<in>set (cl_nodes c). node_index c role n < 2 ^ 63 - 1"
  shows "next_node_name c role \<notin> node_name ` set (cl_nodes c)"
proof
  let ?m = "Max (insert 0 (node_index c role ` set (cl_nodes c)))"
  assume "next_node_name c role \<in> node_name ` set (cl_nodes c)"
  then obtain n where n: "n \<in> set (cl_nodes c)" "node_name n = next_node_name c role" by auto
  have m: "0 \<le> ?m" "?m < 2 ^ 63 - 1" using assms by auto
  then have "i64 (?m + 1) = ?m + 1" "in_i64 (?m + 1)"
    by (auto simp: i64_small in_i64_def)
  then have "node_index c role n = ?m + 1"
    by (simp add: node_index_def n(2) next_node_name_eq atoi_itoa)
  moreover have "node_index c role n \<le> ?m" using n(1) by simp
  ultimately show False by simp
qed

text \<open>Room for a node is all a generated name needs.\<close>

lemma add_node_room:
  assumes ok: "cluster_ok c" and role: "role \<in> {RoleControlPlane, RoleWorker}"
    and room: "length (cl_nodes c) < 178"
    and idx: "\<forall>n\<in>set (cl_nodes c). node_index c role n < 2 ^ 63 - 1"
    and name: "CHR ''/'' \<notin> set (cl_name c)"
  shows "\<exists>d n. add_node c role [] = (d, Inr n)"
proof -
  have "card (node_ip ` set (cl_nodes c)) < 178"
    using room card_image_le [of "set (cl_nodes c)" node_ip] card_length [of "cl_nodes c"] by simp
  then obtain a where a: "lowest_free_reservation (cl_subnet_index c) (node_ip ` set (cl_nodes c)) = Inr a"
    using ok lowest_free_exists [of "node_ip ` set (cl_nodes c)" "cl_subnet_index c"]
    by (auto simp: cluster_ok_def)
  have m: "0 \<le> i64 (Max (insert 0 (node_index c role ` set (cl_nodes c))) + 1)"
    using idx by (subst i64_small) auto
  have "valid_name (next_node_name c role) = Inr ()"
    unfolding valid_name_iff next_node_name_eq node_prefix_def
    using name itoa_no_char [OF m, of "CHR ''/''"] by (auto simp: is_digit_def append_eq_Cons_conv)
  then show ?thesis
    using a role next_node_name_fresh [OF idx] ok
    by (auto simp: add_node_def next_reservation_ok Let_def list_ex_iff image_iff)
qed

subsection \<open>Removing\<close>

lemma split_node_Some:
  "split_node name ns = Some (b, n, a) \<Longrightarrow> ns = b @ n # a \<and> node_name n = name \<and> name \<notin> node_name ` set b"
  by (induction ns arbitrary: b) (auto split: if_splits)

lemma split_node_None: "split_node name ns = None \<longleftrightarrow> name \<notin> node_name ` set ns"
  by (induction ns) auto

lemma remove_node_cluster_ok:
  assumes ok: "cluster_ok c" and rm: "remove_node c name = (d, r)"
  shows "cluster_ok d"
proof (cases "split_node name (cl_nodes c)")
  case None
  then show ?thesis using ok rm by (simp add: remove_node_def)
next
  case (Some s)
  obtain b n a where s: "s = (b, n, a)" by (metis prod_cases3)
  have ns: "cl_nodes c = b @ n # a" using Some split_node_Some s by blast
  have "i64 (count_role q (cl_nodes c) - 1) = count_role q (cl_nodes c) - 1" for q
    using count_role_bounds [of q "cl_nodes c"] cluster_ok_size [OF ok]
    by (intro i64_in_range) (simp add: in_i64_def)
  then have "i64 (cl_control_planes c - 1) = cl_control_planes c - 1"
    "i64 (cl_workers c - 1) = cl_workers c - 1"
    using ok by (simp_all only: cluster_ok_def)
  then show ?thesis
    using ok rm Some by (auto simp: s remove_node_def ns cluster_ok_def Let_def)
qed

text \<open>Every sequence of additions and removals keeps the invariant.\<close>

interpretation node_ops: transition_system node_step cluster_ok
proof
  fix c e
  assume "cluster_ok c"
  then show "cluster_ok (node_step c e)"
    by (cases e; cases "add_node c (case e of AddOp r n \<Rightarrow> r | _ \<Rightarrow> []) (case e of AddOp r n \<Rightarrow> n | _ \<Rightarrow> [])";
        cases "remove_node c (case e of RemoveOp n \<Rightarrow> n | _ \<Rightarrow> [])")
       (auto dest: add_node_cluster_ok remove_node_cluster_ok)
qed

subsection \<open>Properties\<close>

lemma sample_cluster_ok: "cluster_ok sample_cluster"
proof -
  have "reservation_ip 0 2 = ''172.30.0.2''" "reservation_ip 0 3 = ''172.30.0.3''"
    by code_simp+
  then have "''172.30.0.2'' \<in> set (node_pool 0)" "''172.30.0.3'' \<in> set (node_pool 0)"
    unfolding in_node_pool by (intro exI [of _ 2] exI [of _ 3]; simp)+
  then show ?thesis
    by (simp add: cluster_ok_def sample_cluster_def zero_cluster_def MaxSubnetIndex_def)
qed

text \<open>C19: Every sequence of node additions and removals, failing ones included, keeps a cluster
  well-formed.\<close>

theorem node_operations_keep_cluster_ok:
  assumes "cluster_ok c"
  shows "cluster_ok (foldl node_step c ops)"
  using assms by (rule node_ops.inv_foldl)

theorem node_operations_keep_cluster_ok_witness:
  "cluster_ok (foldl node_step sample_cluster
     [AddOp RoleWorker [], RemoveOp ''demo-worker-1'', AddOp ''pilot'' [], AddOp RoleControlPlane ''extra''])"
  by (rule node_operations_keep_cluster_ok) (rule sample_cluster_ok)

text \<open>A successful \<^verbatim>\<open>AddNode\<close> on a well-formed cluster appends exactly the node it returns; the
  node has a name no other node has, the lowest address of the pool no other node has, and the
  asked role, whose counter goes up by one.\<close>

lemma add_node_effect:
  assumes "cluster_ok c" "add_node c role name = (d, Inr n)"
  shows "cl_nodes d = cl_nodes c @ [n] \<and> node_role n = role
    \<and> node_name n \<notin> node_name ` set (cl_nodes c) \<and> node_ip n \<notin> node_ip ` set (cl_nodes c)
    \<and> (\<exists>h. node_ip n = reservation_ip (cl_subnet_index c) h \<and> 2 \<le> h \<and> h \<le> 179
          \<and> (\<forall>k. 2 \<le> k \<and> k < h \<longrightarrow> reservation_ip (cl_subnet_index c) k \<in> node_ip ` set (cl_nodes c)))
    \<and> cl_control_planes d + cl_workers d = cl_control_planes c + cl_workers c + 1"
proof -
  obtain a where a: "lowest_free_reservation (cl_subnet_index c) (node_ip ` set (cl_nodes c)) = Inr a"
    and n: "n = new_node (cl_name c) (if name = [] then next_node_name c role else name) role a"
      "role = RoleControlPlane \<or> role = RoleWorker" "node_name n \<notin> node_name ` set (cl_nodes c)"
    and d: "d = (if role = RoleControlPlane
          then c\<lparr>cl_nodes := cl_nodes c @ [n], cl_control_planes := i64 (cl_control_planes c + 1)\<rparr>
          else c\<lparr>cl_nodes := cl_nodes c @ [n], cl_workers := i64 (cl_workers c + 1)\<rparr>)"
    using add_node_Inr [OF assms] by metis
  have "cluster_ok d" using add_node_cluster_ok [OF assms] .
  then have "cl_control_planes d + cl_workers d = cl_control_planes c + cl_workers c + 1"
    using assms(1) n(1,2) by (auto simp: d cluster_ok_def)
  moreover have "cl_nodes d = cl_nodes c @ [n]" by (simp add: d)
  ultimately show ?thesis
    using lowest_free_Inr [OF a] n(3) by (simp add: n(1))
qed

text \<open>C27: As long as a well-formed cluster has fewer than 178 nodes, adding a node with a generated
  name succeeds: the name is new and an address is free. (The numbers already in use must leave
  room for one more 64-bit integer, and the cluster's name must hold no separator.)\<close>

theorem add_node_succeeds:
  assumes "cluster_ok c" "role \<in> {RoleControlPlane, RoleWorker}" "length (cl_nodes c) < 178"
    and "\<forall>n\<in>set (cl_nodes c). node_index c role n < 2 ^ 63 - 1" "CHR ''/'' \<notin> set (cl_name c)"
  shows "\<exists>d n. add_node c role [] = (d, Inr n)"
  using assms by (rule add_node_room)

theorem add_node_succeeds_witness: "\<exists>d n. add_node sample_cluster RoleControlPlane [] = (d, Inr n)"
proof (rule add_node_succeeds [OF sample_cluster_ok])
  show "\<forall>n\<in>set (cl_nodes sample_cluster). node_index sample_cluster RoleControlPlane n < 2 ^ 63 - 1"
    by code_simp
qed (simp_all add: sample_cluster_def zero_cluster_def)

end
