(* ===== verification/Cluster_Store.thy ===== *)
theory Cluster_Store
  imports Cluster_Nodes
begin

text \<open>
  Persisted cluster state, \<^verbatim>\<open>src/internal/cluster/store.go\<close>, over a file system whose paths are
  lists of components and whose files hold a decoded state document or something that is not
  one. Each operation takes the home directory (\<^const>\<open>None\<close>: it cannot be found); saving also takes
  the random part of the temporary file's name and the system call that fails, if one does.

  A document is the decoded cluster with the three facts about the raw JSON object that loading
  asks for: whether the keys \<^verbatim>\<open>subnetIndex\<close>, \<^verbatim>\<open>bgp\<close> and \<^verbatim>\<open>cni\<close> are present. The strings of a
  cluster are UTF-8, on which the JSON encoder and decoder are inverse.
\<close>

subsection \<open>The file system\<close>

type_synonym path = "string list"

record document =
  doc_cluster :: cluster
  doc_has_subnet_index :: bool
  doc_has_bgp :: bool
  doc_has_cni :: bool

datatype content = Document document | NotADocument

datatype entry = DirEntry | FileEntry content

type_synonym fs = "(path, entry) gomap"

definition fs_mkdir_all :: "path \<Rightarrow> fs \<Rightarrow> fs" where
  "fs_mkdir_all p fs = foldl (\<lambda>f q. AList.update q DirEntry f) fs (prefixes p)"

text \<open>\<^verbatim>\<open>os.RemoveAll\<close>, which reports an error when it has to leave something behind.\<close>

definition fs_remove_all :: "path list \<Rightarrow> path \<Rightarrow> fs \<Rightarrow> fs" where
  "fs_remove_all stuck p fs = filter (\<lambda>e. \<not> prefix p (fst e) \<or> fst e \<in> set stuck) fs"

definition fs_rename :: "path \<Rightarrow> path \<Rightarrow> fs \<Rightarrow> fs" where
  "fs_rename p q fs =
     (case map_of fs p of None \<Rightarrow> fs | Some e \<Rightarrow> AList.update q e (AList.delete p fs))"

text \<open>The entries \<^verbatim>\<open>os.ReadDir\<close> returns, in name order, each with whether it is a directory.\<close>

definition fs_read_dir :: "path \<Rightarrow> fs \<Rightarrow> (string \<times> bool) list" where
  "fs_read_dir p fs =
     sort_key fst (map (\<lambda>e. (last (fst e), snd e = DirEntry))
       (filter (\<lambda>e. fst e \<noteq> [] \<and> butlast (fst e) = p) fs))"

subsection \<open>Errors\<close>

datatype save_step = MkdirAll | CreateTemp | ChmodTemp | WriteTemp | CloseTemp | RenameTemp

text \<open>A failing call and whether its error is \<^verbatim>\<open>os.ErrNotExist\<close>.\<close>

type_synonym fault = "(save_step \<times> bool) option"

datatype store_error =
    BadName cluster_error
  | NoHome
  | SaveFailed save_step bool
  | ReadNotExist
  | ReadFailed
  | DecodeFailed
  | LoadReservations cluster_error
  | PersistMigration store_error
  | ListFailed
  | DestroyFailed

fun is_not_exist :: "store_error \<Rightarrow> bool" where
  "is_not_exist (SaveFailed _ b) = b"
| "is_not_exist ReadNotExist = True"
| "is_not_exist (PersistMigration e) = is_not_exist e"
| "is_not_exist _ = False"

subsection \<open>Operations\<close>

definition stateFile :: string where "stateFile = ''cluster.json''"

text \<open>The name \<^verbatim>\<open>os.CreateTemp\<close> makes of the pattern \<^verbatim>\<open>.cluster.json-*\<close>.\<close>

definition temp_name :: "string \<Rightarrow> string" where
  "temp_name rnd = ''.cluster.json-'' @ rnd"

definition clusters_dir :: "path option \<Rightarrow> store_error + path" where
  "clusters_dir home =
     (case home of None \<Rightarrow> Inl NoHome | Some h \<Rightarrow> Inr (h @ [''.talosbox'', ''clusters'']))"

text \<open>\<^verbatim>\<open>filepath.Join\<close> drops empty components; a checked name has no dot components.\<close>

definition dir :: "path option \<Rightarrow> string \<Rightarrow> store_error + path" where
  "dir home name =
     (case valid_name name of
        Inl e \<Rightarrow> Inl (BadName e)
      | Inr _ \<Rightarrow>
         (case home of
            None \<Rightarrow> Inl NoHome
          | Some h \<Rightarrow> Inr (h @ [''.talosbox'', ''clusters'']
                            @ filter (\<lambda>w. w \<noteq> []) (split_on (CHR ''/'') name))))"

definition encode_cluster :: "cluster \<Rightarrow> document" where
  "encode_cluster c =
     \<lparr>doc_cluster = c, doc_has_subnet_index = True, doc_has_bgp = pi_bgp (cl_intent c),
      doc_has_cni = (pi_cni (cl_intent c) \<noteq> [])\<rparr>"

text \<open>The states the file system goes through while \<^verbatim>\<open>Save\<close> runs: after \<^verbatim>\<open>MkdirAll\<close>, after the
  temporary file is created (and made private), while it is being written, when it is written,
  after the rename, and after the deferred removal of the temporary name.\<close>

definition save_states :: "path \<Rightarrow> string \<Rightarrow> cluster \<Rightarrow> fs \<Rightarrow> fs list" where
  "save_states d tmp c fs =
     (let f1 = fs_mkdir_all d fs;
          f2 = AList.update (d @ [tmp]) (FileEntry NotADocument) f1;
          f3 = AList.update (d @ [tmp]) (FileEntry (Document (encode_cluster c))) f2;
          f4 = fs_rename (d @ [tmp]) (d @ [stateFile]) f3
      in [f1, f2, f3, f4])"

text \<open>The state a failing call leaves, before the deferred removal. A failing \<^verbatim>\<open>MkdirAll\<close> may
  leave some of the (empty) directories it was asked for; no file depends on them.\<close>

fun save_failed :: "fs \<Rightarrow> fs list \<Rightarrow> save_step \<Rightarrow> fs" where
  "save_failed fs [f1, f2, f3, f4] step =
     (case step of
        MkdirAll \<Rightarrow> fs | CreateTemp \<Rightarrow> f1 | ChmodTemp \<Rightarrow> f2 | WriteTemp \<Rightarrow> f2
      | CloseTemp \<Rightarrow> f3 | RenameTemp \<Rightarrow> f3)"
| "save_failed fs _ step = fs"

definition save ::
    "path option \<Rightarrow> fault \<Rightarrow> string \<Rightarrow> cluster \<Rightarrow> fs \<Rightarrow> fs \<times> (store_error + unit)" where
  "save home fault rnd c fs =
     (case dir home (cl_name c) of
        Inl e \<Rightarrow> (fs, Inl e)
      | Inr d \<Rightarrow>
         (let tmp = temp_name rnd;
              states = save_states d tmp c fs;
              cleanup = AList.delete (d @ [tmp])
          in case fault of
               None \<Rightarrow> (cleanup (last states), Inr ())
             | Some (step, missing) \<Rightarrow>
                 ((if step = MkdirAll \<or> step = CreateTemp then save_failed fs states step
                   else cleanup (save_failed fs states step)),
                  Inl (SaveFailed step missing))))"

text \<open>What \<^verbatim>\<open>Load\<close> makes of a document before it saves a migrated one.\<close>

definition with_architecture :: "cluster \<Rightarrow> cluster" where
  "with_architecture c =
     (if cl_image_architecture c = [] then c\<lparr>cl_image_architecture := LegacyImageArchitecture\<rparr> else c)"

definition migrate_fields :: "document \<Rightarrow> cluster \<Rightarrow> cluster \<times> bool" where
  "migrate_fields doc c0 =
     (let c = (if \<not> doc_has_subnet_index doc then c0\<lparr>cl_subnet_index := cl_index c0\<rparr> else c0) in
      if doc_has_bgp doc \<and> \<not> doc_has_cni doc \<and> pi_bgp (cl_intent c)
      then (c\<lparr>cl_intent := no_intent\<lparr>pi_cni := CNICilium, pi_lb := True, pi_bgp := True\<rparr>\<rparr>, True)
      else (c, False))"

definition migrate_document :: "document \<Rightarrow> cluster \<times> (cluster_error + bool)" where
  "migrate_document doc =
     (case migrate_fields doc (with_architecture (doc_cluster doc)) of
        (c, legacy) \<Rightarrow>
          (case ensure_node_reservations c of
             (c, Inl e) \<Rightarrow> (c, Inl e)
           | (c, Inr reservations_migrated) \<Rightarrow> (c, Inr (legacy \<or> reservations_migrated))))"

definition load ::
    "path option \<Rightarrow> fault \<Rightarrow> string \<Rightarrow> string \<Rightarrow> fs \<Rightarrow> fs \<times> (store_error + cluster)" where
  "load home fault rnd name fs =
     (case dir home name of
        Inl e \<Rightarrow> (fs, Inl e)
      | Inr d \<Rightarrow>
         (case map_of fs (d @ [stateFile]) of
            None \<Rightarrow> (fs, Inl ReadNotExist)
          | Some DirEntry \<Rightarrow> (fs, Inl ReadFailed)
          | Some (FileEntry NotADocument) \<Rightarrow> (fs, Inl DecodeFailed)
          | Some (FileEntry (Document doc)) \<Rightarrow>
             (case migrate_document doc of
                (c, Inl e) \<Rightarrow> (fs, Inl (LoadReservations e))
              | (c, Inr migrated) \<Rightarrow>
                  if migrated then
                    (case save home fault rnd c fs of
                       (fs, Inl e) \<Rightarrow> (fs, Inl (PersistMigration e))
                     | (fs, Inr _) \<Rightarrow> (fs, Inr c))
                  else (fs, Inr c))))"

fun load_entries ::
    "path option \<Rightarrow> fault \<Rightarrow> string \<Rightarrow> (string \<times> bool) list \<Rightarrow> fs \<Rightarrow> fs \<times> (store_error + cluster list)"
where
  "load_entries home fault rnd [] fs = (fs, Inr [])"
| "load_entries home fault rnd ((name, is_dir) # entries) fs =
     (if \<not> is_dir then load_entries home fault rnd entries fs
      else (case load home fault rnd name fs of
          (fs, Inl e) \<Rightarrow>
            if is_not_exist e then load_entries home fault rnd entries fs else (fs, Inl e)
        | (fs, Inr item) \<Rightarrow>
            (case load_entries home fault rnd entries fs of
               (fs, Inl e) \<Rightarrow> (fs, Inl e)
             | (fs, Inr items) \<Rightarrow> (fs, Inr (item # items)))))"

definition list_clusters ::
    "path option \<Rightarrow> fault \<Rightarrow> string \<Rightarrow> fs \<Rightarrow> fs \<times> (store_error + cluster list)" where
  "list_clusters home fault rnd fs =
     (case clusters_dir home of
        Inl e \<Rightarrow> (fs, Inl e)
      | Inr root \<Rightarrow>
         (case map_of fs root of
            None \<Rightarrow> (fs, Inr [])
          | Some (FileEntry _) \<Rightarrow> (fs, Inl ListFailed)
          | Some DirEntry \<Rightarrow>
             (case load_entries home fault rnd (fs_read_dir root fs) fs of
                (fs, Inl e) \<Rightarrow> (fs, Inl e)
              | (fs, Inr clusters) \<Rightarrow> (fs, Inr (sort_key cl_name clusters)))))"

definition destroy :: "path option \<Rightarrow> path list \<Rightarrow> string \<Rightarrow> fs \<Rightarrow> fs \<times> (store_error + unit)" where
  "destroy home stuck name fs =
     (case dir home name of
        Inl e \<Rightarrow> (fs, Inl e)
      | Inr d \<Rightarrow> (fs_remove_all stuck d fs, if stuck \<noteq> [] then Inl DestroyFailed else Inr ()))"

subsection \<open>Paths\<close>

lemma map_of_mkdir_all: "map_of (fs_mkdir_all p fs) q = (if prefix q p then Some DirEntry else map_of fs q)"
proof -
  have "map_of (foldl (\<lambda>f q. AList.update q DirEntry f) fs ps) q = (if q \<in> set ps then Some DirEntry else map_of fs q)"
    for ps by (induction ps arbitrary: fs) auto
  then show ?thesis by (simp add: fs_mkdir_all_def)
qed

lemma map_of_remove_all:
  "map_of (fs_remove_all [] p fs) q = (if prefix p q then None else map_of fs q)"
  unfolding fs_remove_all_def by (induction fs) auto

lemma not_prefix_snoc [simp]: "\<not> prefix (d @ [x]) d"
  using prefix_length_le by fastforce

abbreviation cluster_root :: "path \<Rightarrow> path" where
  "cluster_root h \<equiv> h @ [''.talosbox'', ''clusters'']"

lemma dir_plain:
  "valid_name n = Inr () \<Longrightarrow> n \<noteq> ''/'' \<Longrightarrow> dir (Some h) n = Inr (cluster_root h @ [n])"
proof -
  assume a: "valid_name n = Inr ()" "n \<noteq> ''/''"
  then have "n \<noteq> []" "CHR ''/'' \<notin> set n" by (auto simp: valid_name_iff)
  then show ?thesis by (simp add: dir_def a(1) split_on_plain)
qed

lemma dir_slash: "dir (Some h) ''/'' = Inr (cluster_root h)"
proof -
  have "valid_name ''/'' = Inr ()" by (simp add: valid_name_iff)
  then show ?thesis by (simp add: dir_def)
qed

lemma dir_Inr: "dir home n = Inr d \<Longrightarrow> valid_name n = Inr () \<and> (\<exists>h. home = Some h)"
  by (simp add: dir_def split: sum.splits option.splits)

lemma temp_not_state [simp]: "temp_name rnd \<noteq> stateFile" "stateFile \<noteq> temp_name rnd"
  by (simp_all add: stateFile_def temp_name_def)

subsection \<open>Saving\<close>

text \<open>At no point of a save is the state file anything but the old one or the new one.\<close>

lemma save_states_state_file:
  assumes "f \<in> set (save_states d tmp c fs)" "tmp \<noteq> stateFile"
  shows "map_of f (d @ [stateFile]) = map_of fs (d @ [stateFile])
     \<or> map_of f (d @ [stateFile]) = Some (FileEntry (Document (encode_cluster c)))"
  using assms by (auto simp: save_states_def Let_def map_of_mkdir_all fs_rename_def)

lemma save_Inr:
  assumes "save home fault rnd c fs = (f, Inr u)"
  obtains d where "dir home (cl_name c) = Inr d" "fault = None"
    "map_of f = (\<lambda>q. if q = d @ [stateFile] then Some (FileEntry (Document (encode_cluster c)))
        else if q = d @ [temp_name rnd] then None
        else if prefix q d then Some DirEntry else map_of fs q)"
proof -
  obtain d where "dir home (cl_name c) = Inr d" "fault = None"
    "f = AList.delete (d @ [temp_name rnd]) (last (save_states d (temp_name rnd) c fs))"
    using assms by (auto simp: save_def Let_def split: sum.splits option.splits)
  moreover from this(3) have "map_of f =
      (\<lambda>q. if q = d @ [stateFile] then Some (FileEntry (Document (encode_cluster c)))
        else if q = d @ [temp_name rnd] then None
        else if prefix q d then Some DirEntry else map_of fs q)"
    by (auto simp: save_states_def Let_def fs_rename_def map_of_mkdir_all)
  ultimately show ?thesis using that by blast
qed

lemma save_Inl:
  assumes "save home fault rnd c fs = (f, Inl e)" "dir home (cl_name c) = Inr d"
  shows "map_of f (d @ [stateFile]) = map_of fs (d @ [stateFile])"
proof -
  obtain step b where "fault = Some (step, b)"
    using assms by (auto simp: save_def Let_def split: option.splits)
  then show ?thesis
    using assms
    by (cases step) (auto simp: save_def Let_def save_states_def map_of_mkdir_all)
qed

lemma dir_inj:
  assumes "dir home a = Inr d" "dir home b = Inr d'" "prefix d d'" "a \<noteq> ''/''"
  shows "a = b"
proof -
  obtain h where h: "home = Some h" "valid_name a = Inr ()" "valid_name b = Inr ()"
    using assms(1,2) dir_Inr by metis
  then show ?thesis
    using assms dir_slash [of h] dir_plain [of a h] dir_plain [of b h]
    by (cases "b = ''/''") auto
qed

subsection \<open>Loading\<close>

lemma with_architecture_simps [simp]:
  "cl_nodes (with_architecture c) = cl_nodes c" "cl_intent (with_architecture c) = cl_intent c"
  "cl_subnet_index (with_architecture c) = cl_subnet_index c" "cl_name (with_architecture c) = cl_name c"
  "with_architecture (with_architecture c) = with_architecture c"
  by (simp_all add: with_architecture_def LegacyImageArchitecture_def)

text \<open>A document that was saved with complete addresses and no BGP without a network needs no
  migration.\<close>

lemma migrate_encoded:
  assumes "addresses_ok (cl_subnet_index c) (cl_nodes c)"
    and "pi_bgp (cl_intent c) \<longrightarrow> pi_cni (cl_intent c) \<noteq> []"
  shows "migrate_document (encode_cluster c) = (with_architecture c, Inr False)"
proof -
  have "ensure_node_reservations (with_architecture c) = (with_architecture c, Inr False)"
    using assms(1) by (intro ensure_complete) simp
  moreover have "migrate_fields (encode_cluster c) (with_architecture c) = (with_architecture c, False)"
    using assms(2) by (auto simp: migrate_fields_def encode_cluster_def Let_def)
  ultimately show ?thesis by (simp add: migrate_document_def encode_cluster_def)
qed

lemma load_document:
  assumes "dir home n = Inr d" "map_of fs (d @ [stateFile]) = Some (FileEntry (Document doc))"
    "migrate_document doc = (c, Inr False)"
  shows "load home fault rnd n fs = (fs, Inr c)"
  using assms by (simp add: load_def)

lemma load_saved:
  assumes s: "save home fault rnd c fs = (f, Inr u)"
    and c: "addresses_ok (cl_subnet_index c) (cl_nodes c)" "pi_bgp (cl_intent c) \<longrightarrow> pi_cni (cl_intent c) \<noteq> []"
  shows "load home fault' rnd' (cl_name c) f = (f, Inr (with_architecture c))"
proof -
  obtain d where d: "dir home (cl_name c) = Inr d"
    and f: "map_of f (d @ [stateFile]) = Some (FileEntry (Document (encode_cluster c)))"
    using save_Inr [OF s] by (metis (full_types))
  show ?thesis by (rule load_document [OF d f migrate_encoded [OF c]])
qed

text \<open>The documents loading may meet without surprise: a key that is absent leaves its field
  empty, and a BGP cluster with a \<^verbatim>\<open>cni\<close> key names a network there.\<close>

definition document_ok :: "document \<Rightarrow> bool" where
  "document_ok doc \<longleftrightarrow>
     (let i = cl_intent (doc_cluster doc) in
      (pi_bgp i \<longrightarrow> doc_has_bgp doc \<and> (doc_has_cni doc \<longrightarrow> pi_cni i \<noteq> [])))"

lemma migrate_result:
  assumes m: "migrate_document doc = (c, Inr b)" and doc: "document_ok doc"
    and si: "0 \<le> cl_subnet_index c" "cl_subnet_index c \<le> 255"
  shows "addresses_ok (cl_subnet_index c) (cl_nodes c)"
    "pi_bgp (cl_intent c) \<longrightarrow> pi_cni (cl_intent c) \<noteq> []" "with_architecture c = c"
proof -
  obtain c0 b0 l where e: "ensure_node_reservations c0 = (c, Inr b0)"
    and f: "migrate_fields doc (with_architecture (doc_cluster doc)) = (c0, l)"
    using m by (auto simp: migrate_document_def split: prod.splits sum.splits)
  have c0: "pi_bgp (cl_intent c0) \<longrightarrow> pi_cni (cl_intent c0) \<noteq> []"
    using f doc by (auto simp: migrate_fields_def document_ok_def CNICilium_def Let_def split: if_splits)
  have "cl_image_architecture c0 \<noteq> []"
    using f by (auto simp: migrate_fields_def with_architecture_def LegacyImageArchitecture_def Let_def
        split: if_splits)
  note same = ensure_same(1) [OF e]
  have eq: "cl_subnet_index c = cl_subnet_index c0" "cl_intent c = cl_intent c0"
    "cl_image_architecture c = cl_image_architecture c0"
    by (subst same, simp)+
  show "addresses_ok (cl_subnet_index c) (cl_nodes c)"
    using ensure_addresses_ok [OF e] si eq by simp
  show "pi_bgp (cl_intent c) \<longrightarrow> pi_cni (cl_intent c) \<noteq> []" using c0 eq by simp
  show "with_architecture c = c"
    using \<open>cl_image_architecture c0 \<noteq> []\<close> eq by (simp add: with_architecture_def)
qed

lemma load_twice:
  assumes l: "load home fault rnd n fs = (f, Inr c)" and name: "cl_name c = n"
    and si: "0 \<le> cl_subnet_index c" "cl_subnet_index c \<le> 255"
    and d: "dir home n = Inr d" "map_of fs (d @ [stateFile]) = Some (FileEntry (Document doc))" "document_ok doc"
  shows "load home fault' rnd' n f = (f, Inr c)"
proof -
  obtain b where m: "migrate_document doc = (c, Inr b)"
    and f: "if b then \<exists>u. save home fault rnd c fs = (f, Inr u) else f = fs"
    using l d by (auto simp: load_def split: prod.splits sum.splits if_splits)
  note r = migrate_result [OF m d(3) si]
  show ?thesis
  proof (cases b)
    case True
    then show ?thesis using f load_saved r name by metis
  next
    case False
    then show ?thesis using f m load_document [OF d(1,2)] by simp
  qed
qed

subsection \<open>Destroying\<close>

lemma destroy_Inr:
  "destroy home stuck n fs = (f, Inr u) \<longleftrightarrow>
     stuck = [] \<and> (\<exists>d. dir home n = Inr d \<and> f = fs_remove_all [] d fs)"
  by (auto simp: destroy_def split: sum.splits)

lemma load_missing:
  "dir home n = Inr d \<Longrightarrow> map_of fs (d @ [stateFile]) = None \<Longrightarrow> load home fault rnd n fs = (fs, Inl ReadNotExist)"
  by (simp add: load_def)

lemma destroy_removes:
  assumes "destroy home stuck n fs = (f, Inr u)"
  shows "load home fault rnd n f = (f, Inl ReadNotExist)"
  using assms by (auto simp: destroy_Inr map_of_remove_all intro: load_missing)

lemma destroy_keeps_others:
  assumes "destroy home stuck a fs = (f, r)" "dir home b = Inr d" "a \<noteq> b" "a \<noteq> ''/''" "b \<noteq> ''/''" "prefix d p"
  shows "map_of f p = map_of fs p"
proof (cases "dir home a")
  case (Inr da)
  have "\<not> prefix da p"
    using dir_inj [OF Inr assms(2)] dir_inj [OF assms(2) Inr] assms(3-6) prefix_same_cases by metis
  then have "map_of (filter (\<lambda>e. \<not> prefix da (fst e) \<or> fst e \<in> set stuck) fs) p = map_of fs p"
    by (induction fs) auto
  then show ?thesis using assms(1) Inr by (auto simp: destroy_def fs_remove_all_def)
qed (use assms in \<open>simp add: destroy_def\<close>)

subsection \<open>Properties\<close>

text \<open>C1: Saving is atomic. At every moment of a save the state file is either what it was or the
  new document in full; a save that reports an error leaves it as it was.\<close>

theorem save_atomic:
  assumes "dir home (cl_name c) = Inr d"
  shows "(\<forall>f\<in>set (save_states d (temp_name rnd) c fs).
            map_of f (d @ [stateFile]) = map_of fs (d @ [stateFile])
            \<or> map_of f (d @ [stateFile]) = Some (FileEntry (Document (encode_cluster c))))
    \<and> (\<forall>f e. save home fault rnd c fs = (f, Inl e) \<longrightarrow> map_of f (d @ [stateFile]) = map_of fs (d @ [stateFile]))"
  using save_states_state_file save_Inl [OF _ assms] temp_not_state by blast

theorem save_atomic_witness:
  "map_of (fst (save (Some [''home'']) (Some (RenameTemp, False)) ''1'' sample_cluster []))
     [''home'', ''.talosbox'', ''clusters'', ''demo'', stateFile] = None"
proof -
  have d: "dir (Some [''home'']) (cl_name sample_cluster) = Inr ([''home'', ''.talosbox'', ''clusters'', ''demo''])"
    by code_simp
  have "\<exists>f e. save (Some [''home'']) (Some (RenameTemp, False)) ''1'' sample_cluster [] = (f, Inl e)"
    by (simp add: save_def d Let_def)
  then show ?thesis using save_atomic [OF d] by fastforce
qed




definition legacy_document :: document where
  "legacy_document = \<lparr>doc_cluster = legacy_cluster, doc_has_subnet_index = False, doc_has_bgp = False,
                      doc_has_cni = False\<rparr>"

definition legacy_fs :: fs where
  "legacy_fs = [([''home'', ''.talosbox'', ''clusters'', ''demo'', stateFile], FileEntry (Document legacy_document))]"


text \<open>C25: Destroying a cluster removes it and nothing else: for a name other than the separator,
  \<^verbatim>\<open>Load\<close> no longer finds it, and every path of every other cluster is as it was.\<close>

theorem destroy_only_that_cluster:
  assumes "destroy home stuck a fs = (f, Inr u)" "a \<noteq> ''/''"
  shows "load home fault rnd a f = (f, Inl ReadNotExist)
    \<and> (\<forall>b d p. dir home b = Inr d \<longrightarrow> b \<noteq> a \<longrightarrow> b \<noteq> ''/'' \<longrightarrow> prefix d p \<longrightarrow> map_of f p = map_of fs p)"
  using destroy_removes [OF assms(1)] destroy_keeps_others [OF assms(1)] assms(2) by metis

theorem destroy_only_that_cluster_witness:
  "\<exists>f. destroy (Some [''home'']) [] ''other'' legacy_fs = (f, Inr ())
     \<and> map_of f [''home'', ''.talosbox'', ''clusters'', ''demo'', stateFile]
       = map_of legacy_fs [''home'', ''.talosbox'', ''clusters'', ''demo'', stateFile]"
proof -
  have d: "dir (Some [''home'']) ''demo'' = Inr ([''home'', ''.talosbox'', ''clusters'', ''demo''])"
    "dir (Some [''home'']) ''other'' = Inr ([''home'', ''.talosbox'', ''clusters'', ''other''])"
    by code_simp+
  then obtain f where f: "destroy (Some [''home'']) [] ''other'' legacy_fs = (f, Inr ())"
    by (simp add: destroy_def)
  then show ?thesis using destroy_only_that_cluster [OF f] d(1) by auto
qed

text \<open>C33: The name check lets the name that is one separator through, and its directory is the one
  that holds all clusters: destroying it makes every cluster disappear.\<close>

theorem destroy_separator_removes_all:
  "valid_name ''/'' = Inr () \<and>
   (\<exists>f. destroy (Some h) [] ''/'' fs = (f, Inr ())
      \<and> (\<forall>n d. dir (Some h) n = Inr d \<longrightarrow> load (Some h) fault rnd n f = (f, Inl ReadNotExist)))"
proof -
  have v: "valid_name ''/'' = Inr ()" by (simp add: valid_name_iff)
  obtain f where f: "destroy (Some h) [] ''/'' fs = (f, Inr ())" "f = fs_remove_all [] (cluster_root h) fs"
    by (simp add: destroy_def dir_slash)
  have "load (Some h) fault rnd n f = (f, Inl ReadNotExist)" if "dir (Some h) n = Inr d" for n d
  proof (rule load_missing [OF that])
    have "prefix (cluster_root h) d"
      using that dir_slash [of h] dir_plain [of n h] dir_Inr [OF that] by (cases "n = ''/''") auto
    then show "map_of f (d @ [stateFile]) = None" by (simp add: f(2) map_of_remove_all)
  qed
  with v f(1) show ?thesis by blast
qed

theorem destroy_separator_removes_all_witness:
  "\<exists>f. destroy (Some [''home'']) [] ''/'' legacy_fs = (f, Inr ())
     \<and> load (Some [''home'']) None ''1'' ''demo'' f = (f, Inl ReadNotExist)"
proof -
  have "dir (Some [''home'']) ''demo'' = Inr ([''home'', ''.talosbox'', ''clusters'', ''demo''])"
    by code_simp
  then show ?thesis using destroy_separator_removes_all by blast
qed

end
