(* ===== verification/Subnets.thy ===== *)
theory Subnets
  imports Cluster_Model
begin

text \<open>
  Subnet selection, \<^verbatim>\<open>src/internal/cluster/subnet.go\<close>: whether a candidate
  \<^verbatim>\<open>172.30.n.0/24\<close> collides with the host's interfaces or routes, the choice of the lowest usable
  one, the choice among routes, and the parser of macOS \<^verbatim>\<open>route get\<close> output. The host is a
  parameter: what reading its interfaces returns, and the route lookup as a function of the
  destination; either source may be missing.
\<close>

subsection \<open>Data\<close>

datatype net_addr = IPNetAddr ipnet | IPAddrAddr ip | OtherAddr string

record host_interface =
  if_name :: string
  if_addrs :: "net_addr list"

record host_route =
  route_interface :: string
  route_network :: "ipnet option"
  route_metric :: int
  looks_like_tunnel :: bool

definition no_route :: host_route where
  "no_route = \<lparr>route_interface = [], route_network = None, route_metric = 0, looks_like_tunnel = False\<rparr>"

record 'e subnet_sources =
  src_interfaces :: "('e + host_interface list) option"
  src_route :: "(ip \<Rightarrow> 'e + host_route) option"

datatype conflict = InterfaceConflict string net_addr | RouteConflict ipnet string

datatype warning = BroaderRoute int string | OwnedSubnetConflict int conflict

record inspection =
  found_conflict :: "conflict option"
  found_warning :: "warning option"

definition clear :: inspection where
  "clear = \<lparr>found_conflict = None, found_warning = None\<rparr>"

datatype 'e subnet_error =
    NoUnallocated
  | NoInterfaceSource
  | InterfacesFailed 'e
  | BadCandidate
  | NoRouteSource
  | RouteFailed 'e
  | IncompleteRoute
  | InvalidRouteMask
  | AllConflict
  | IndexOutOfRange
  | SubnetConflicts int conflict

subsection \<open>Bridges\<close>

definition linux_bridge_name :: "int \<Rightarrow> string" where
  "linux_bridge_name index = ''br-tbx'' @ itoa index"

definition linux_bridge_alias :: "int \<Rightarrow> string" where
  "linux_bridge_alias index = ''talos-box:bridge:'' @ itoa index"

definition is_own_bridge_address :: "ip \<Rightarrow> ipnet \<Rightarrow> int \<Rightarrow> bool" where
  "is_own_bridge_address ip network index \<longleftrightarrow>
     (case mask_size (net_mask network) of (ones, bits) \<Rightarrow>
        bits = 32 \<and> ones = 24 \<and> ip_equal ip (parse_ip (gateway index)))"

definition is_vmnet_bridge_name :: "string \<Rightarrow> bool" where
  "is_vmnet_bridge_name name =
     (let digits = trim_prefix name ''bridge'' in
      if digits = name \<or> digits = [] then False
      else if \<not> list_all is_digit digits then False
      else (case atoi digits of Some number \<Rightarrow> number \<ge> 100 | None \<Rightarrow> False))"

definition is_talos_box_bridge_name :: "string \<Rightarrow> int \<Rightarrow> bool" where
  "is_talos_box_bridge_name name index =
     (if name = linux_bridge_name index then True
      else (case atoi (trim_prefix name ''bridge'') of
              Some bridge_index \<Rightarrow> has_prefix name ''bridge'' \<and> bridge_index = i64 (100 + index)
            | None \<Rightarrow> False))"

definition is_host_bridge_name :: "string \<Rightarrow> int \<Rightarrow> bool" where
  "is_host_bridge_name name index \<longleftrightarrow> name = linux_bridge_name index \<or> is_vmnet_bridge_name name"

definition is_talos_box_bridge :: "string \<Rightarrow> ip \<Rightarrow> ipnet \<Rightarrow> int \<Rightarrow> bool" where
  "is_talos_box_bridge name ip network index \<longleftrightarrow>
     is_own_bridge_address ip network index \<and> is_talos_box_bridge_name name index"

subsection \<open>Inspection\<close>

definition networks_overlap :: "ipnet \<Rightarrow> ipnet \<Rightarrow> bool" where
  "networks_overlap left right \<longleftrightarrow> net_contains left (net_ip right) \<or> net_contains right (net_ip left)"

fun ipv4_network :: "net_addr \<Rightarrow> (ip \<times> ipnet) option" where
  "ipv4_network (IPNetAddr value) =
     (let ip = to4 (net_ip value) in
      if ip = [] then None
      else Some (ip, \<lparr>net_ip = ip_mask ip (net_mask value), net_mask = net_mask value\<rparr>))"
| "ipv4_network (IPAddrAddr value) =
     (let ip = to4 value in
      if ip = [] then None else Some (ip, \<lparr>net_ip = ip, net_mask = cidr_mask 32 32\<rparr>))"
| "ipv4_network (OtherAddr value) =
     (case parse_cidr value of
        None \<Rightarrow> None
      | Some (ip, network) \<Rightarrow> if to4 ip = [] then None else Some (to4 ip, network))"

text \<open>The two nested loops over interfaces and their addresses: the first collision, or the names
  of the bridges taken to be the cluster's own.\<close>

fun scan_interfaces ::
    "ipnet \<Rightarrow> int \<Rightarrow> bool \<Rightarrow> bool \<Rightarrow> string set \<Rightarrow> (string \<times> net_addr) list \<Rightarrow> conflict + string set"
where
  "scan_interfaces candidate index allow attached own [] = Inr own"
| "scan_interfaces candidate index allow attached own ((name, address) # rest) =
     (case ipv4_network address of
        None \<Rightarrow> scan_interfaces candidate index allow attached own rest
      | Some (ip, network) \<Rightarrow>
          if \<not> networks_overlap candidate network
          then scan_interfaces candidate index allow attached own rest
          else if allow \<and> is_talos_box_bridge name ip network index
          then scan_interfaces candidate index allow attached own rest
          else if attached \<and> is_own_bridge_address ip network index \<and> is_host_bridge_name name index
          then scan_interfaces candidate index allow attached (insert name own) rest
          else Inl (InterfaceConflict name address))"

definition addresses :: "host_interface list \<Rightarrow> (string \<times> net_addr) list" where
  "addresses interfaces = concat (map (\<lambda>i. map (Pair (if_name i)) (if_addrs i)) interfaces)"

definition inspect_route ::
    "ipnet \<Rightarrow> int \<Rightarrow> bool \<Rightarrow> bool \<Rightarrow> string set \<Rightarrow> host_route \<Rightarrow> 'e subnet_error + inspection" where
  "inspect_route candidate index allow attached own route =
     (if route_interface route = [] \<and> route_network route = None then Inr clear
      else (case route_network route of
          None \<Rightarrow> Inl IncompleteRoute
        | Some network \<Rightarrow>
            if route_interface route = [] then Inl IncompleteRoute
            else if \<not> networks_overlap candidate network then Inr clear
            else if allow \<and> is_talos_box_bridge_name (route_interface route) index then Inr clear
            else if attached \<and> route_interface route \<in> own then Inr clear
            else (case mask_size (net_mask network) of (ones, bits) \<Rightarrow>
                if bits \<noteq> 32 then Inl InvalidRouteMask
                else if ones = 0 then
                  (if looks_like_tunnel route
                   then Inr (clear\<lparr>found_warning := Some (BroaderRoute index (route_interface route))\<rparr>)
                   else Inr clear)
                else if ones \<ge> 24 then
                  Inr (clear\<lparr>found_conflict := Some (RouteConflict network (route_interface route))\<rparr>)
                else
                  Inr (clear\<lparr>found_warning := Some (BroaderRoute index (route_interface route))\<rparr>))))"

definition inspect_subnet ::
    "int \<Rightarrow> host_interface list \<Rightarrow> (ip \<Rightarrow> 'e + host_route) option \<Rightarrow> bool \<Rightarrow> bool
     \<Rightarrow> 'e subnet_error + inspection" where
  "inspect_subnet index interfaces route_source allow attached =
     (case parse_cidr (subnet_cidr index) of
        None \<Rightarrow> Inl BadCandidate
      | Some (_, candidate) \<Rightarrow>
         (case scan_interfaces candidate index allow attached {} (addresses interfaces) of
            Inl c \<Rightarrow> Inr (clear\<lparr>found_conflict := Some c\<rparr>)
          | Inr own \<Rightarrow>
             (case route_source of
                None \<Rightarrow> Inl NoRouteSource
              | Some look \<Rightarrow>
                 (case look (to4 (parse_ip (''172.30.'' @ itoa index @ ''.2''))) of
                    Inl e \<Rightarrow> Inl (RouteFailed e)
                  | Inr route \<Rightarrow> inspect_route candidate index allow attached own route))))"

definition read_host_interfaces :: "'e subnet_sources \<Rightarrow> 'e subnet_error + host_interface list" where
  "read_host_interfaces sources =
     (case src_interfaces sources of
        None \<Rightarrow> Inl NoInterfaceSource
      | Some (Inl e) \<Rightarrow> Inl (InterfacesFailed e)
      | Some (Inr interfaces) \<Rightarrow> Inr interfaces)"

subsection \<open>The three callers\<close>

fun first_usable ::
    "host_interface list \<Rightarrow> (ip \<Rightarrow> 'e + host_route) option \<Rightarrow> bool list \<Rightarrow> nat list
     \<Rightarrow> 'e subnet_error + int \<times> warning option" where
  "first_usable interfaces route used [] = Inl AllConflict"
| "first_usable interfaces route used (i # is) =
     (if used ! i then first_usable interfaces route used is
      else (case inspect_subnet (int i) interfaces route False False of
          Inl e \<Rightarrow> Inl e
        | Inr inspection \<Rightarrow>
            if found_conflict inspection = None then Inr (int i, found_warning inspection)
            else first_usable interfaces route used is))"

definition lowest_usable_subnet_index ::
    "cluster list \<Rightarrow> 'e subnet_sources \<Rightarrow> 'e subnet_error + int \<times> warning option" where
  "lowest_usable_subnet_index clusters sources =
     (let used = allocated_subnet_indexes clusters in
      if \<not> list_ex Not used then Inl NoUnallocated
      else try_bind (read_host_interfaces sources) (\<lambda>interfaces.
        first_usable interfaces (src_route sources) used [0..<length used]))"

definition check_subnet_index :: "int \<Rightarrow> 'e subnet_sources \<Rightarrow> 'e subnet_error + warning option" where
  "check_subnet_index index sources =
     (if index < 0 \<or> index > MaxSubnetIndex then Inl IndexOutOfRange
      else try_bind (read_host_interfaces sources) (\<lambda>interfaces.
        try_bind (inspect_subnet index interfaces (src_route sources) True False) (\<lambda>inspection.
          case found_conflict inspection of
            Some c \<Rightarrow> Inl (SubnetConflicts index c)
          | None \<Rightarrow> Inr (found_warning inspection))))"

definition attached_subnet_warning :: "int \<Rightarrow> 'e subnet_sources \<Rightarrow> 'e subnet_error + warning option" where
  "attached_subnet_warning index sources =
     (if index < 0 \<or> index > MaxSubnetIndex then Inl IndexOutOfRange
      else try_bind (read_host_interfaces sources) (\<lambda>interfaces.
        try_bind (inspect_subnet index interfaces (src_route sources) True True) (\<lambda>inspection.
          case found_conflict inspection of
            Some c \<Rightarrow> Inr (Some (OwnedSubnetConflict index c))
          | None \<Rightarrow> Inr (found_warning inspection))))"

subsection \<open>Routes\<close>

definition route_step ::
    "ip \<Rightarrow> string set \<Rightarrow> host_route \<times> int \<Rightarrow> host_route \<Rightarrow> host_route \<times> int" where
  "route_step destination ignored state route = (case state of (selected, selected_prefix) \<Rightarrow>
     (case route_network route of
        None \<Rightarrow> state
      | Some network \<Rightarrow>
          if route_interface route \<in> ignored \<or> \<not> net_contains network destination then state
          else (case mask_size (net_mask network) of (ones, bits) \<Rightarrow>
            if bits \<noteq> 32 \<or> int ones < selected_prefix then state
            else if int ones > selected_prefix \<or> route_metric route < route_metric selected
              then (route, int ones)
            else if route_metric route = route_metric selected
              then (selected\<lparr>looks_like_tunnel := looks_like_tunnel selected \<or> looks_like_tunnel route\<rparr>,
                    selected_prefix)
            else state)))"

definition select_most_specific_route :: "ip \<Rightarrow> host_route list \<Rightarrow> string set \<Rightarrow> host_route" where
  "select_most_specific_route destination routes ignored =
     fst (foldl (route_step destination ignored) (no_route, - 1) routes)"

definition route_not_found :: "(string \<Rightarrow> string) \<Rightarrow> string \<Rightarrow> bool" where
  "route_not_found U output =
     (let message = to_lower U output in
      contains message ''not in table'' \<or> contains message ''route has not been found'')"

datatype route_parse_error = NoInterface | BadDestination string | BadMask string | MaskOmitted

definition be_bytes :: "nat \<Rightarrow> byte list" where
  "be_bytes n = [word_of_nat (n div 2 ^ 24), word_of_nat (n div 2 ^ 16), word_of_nat (n div 2 ^ 8), word_of_nat n]"

definition parse_route_mask :: "string \<Rightarrow> route_parse_error + mask option" where
  "parse_route_mask value =
     (if value = [] then Inr None
      else let parsed = to4 (parse_ip value) in
        if parsed \<noteq> [] then Inr (Some parsed)
        else if has_prefix value ''0x'' then
          (case parse_uint 16 32 (trim_prefix value ''0x'') of
             Some n \<Rightarrow> Inr (Some (be_bytes n))
           | None \<Rightarrow> Inl (BadMask value))
        else Inl (BadMask value))"

definition route_fields :: "string \<Rightarrow> string \<Rightarrow> string" where
  "route_fields output =
     foldl (\<lambda>fields line. case cut (trim_space line) (CHR '':'') of (key, value, ok) \<Rightarrow>
         if ok then fields(trim_space key := trim_space value) else fields)
       (\<lambda>_. []) (split_on (CHR 0x0A) output)"

definition parse_host_route :: "string \<Rightarrow> ip \<Rightarrow> route_parse_error + host_route" where
  "parse_host_route output queried =
     (let fields = route_fields output;
          interface = fields ''interface'';
          destination = fields ''destination'' in
      if interface = [] then Inl NoInterface
      else if destination = ''default'' then
        Inr (no_route\<lparr>route_interface := interface,
               route_network := Some \<lparr>net_ip = v4_in_v6 @ [0, 0, 0, 0], net_mask = cidr_mask 0 32\<rparr>\<rparr>)
      else let ip = to4 (parse_ip destination) in
        if ip = [] then Inl (BadDestination destination)
        else try_bind (parse_route_mask (fields ''mask'')) (\<lambda>found.
          case found of
            None \<Rightarrow>
              if \<not> ip_equal ip queried then Inl MaskOmitted
              else let m = cidr_mask 32 32 in
                Inr (no_route\<lparr>route_interface := interface,
                       route_network := Some \<lparr>net_ip = ip_mask ip m, net_mask = m\<rparr>\<rparr>)
          | Some m \<Rightarrow>
              Inr (no_route\<lparr>route_interface := interface,
                     route_network := Some \<lparr>net_ip = ip_mask ip m, net_mask = m\<rparr>\<rparr>)))"

subsection \<open>The candidate network\<close>

lemma itoa_0: "itoa 0 = ''0''"
  by code_simp

lemma parse_subnet_cidr:
  assumes "0 \<le> i" "i \<le> 255"
  shows "parse_cidr (subnet_cidr i) =
     Some (v4_in_v6 @ [172, 30, word_of_int i, 0],
           \<lparr>net_ip = [172, 30, word_of_int i, 0], net_mask = [0xFF, 0xFF, 0xFF, 0]\<rparr>)"
proof -
  have "subnet_cidr i = ip4_string [172, 30, word_of_int i, 0] @ CHR ''/'' # ''24''"
    using reservation_ip_ip4_string [of i 0, symmetric] assms
    by (simp add: subnet_cidr_def reservation_ip_def itoa_0)
  moreover have "CHR ''/'' \<notin> set (ip4_string a)" for a
    using ip4_string_chars by (fastforce simp: is_digit_def)
  ultimately have "cut (subnet_cidr i) (CHR ''/'') = (ip4_string [172, 30, word_of_int i, 0], ''24'', True)"
    by (simp add: cut_append)
  moreover have "digits_value 10 0 ''24'' = Some 24" by code_simp
  ultimately show ?thesis
    by (simp add: parse_cidr_def parse_addr_ip4_string cidr_mask_24 ip_mask_def v4_in_v6_def and_bytes_def)
qed

subsection \<open>The lowest usable subnet\<close>

definition blocked :: "host_interface list \<Rightarrow> (ip \<Rightarrow> 'e + host_route) option \<Rightarrow> int \<Rightarrow> bool" where
  "blocked ifs route i \<longleftrightarrow>
     (case inspect_subnet i ifs route False False of
        Inr ins \<Rightarrow> found_conflict ins \<noteq> None | Inl _ \<Rightarrow> False)"

lemma first_usable_Inr:
  assumes "first_usable ifs route used is = Inr (i, w)"
  shows "\<exists>as k bs ins. is = as @ k # bs \<and> i = int k \<and> \<not> used ! k
        \<and> inspect_subnet i ifs route False False = Inr ins \<and> found_conflict ins = None \<and> found_warning ins = w
        \<and> (\<forall>j\<in>set as. used ! j \<or> blocked ifs route (int j))"
  using assms
proof (induction "is")
  case (Cons k ks)
  show ?case
  proof (cases "used ! k \<or> blocked ifs route (int k)")
    case True
    then have "first_usable ifs route used ks = Inr (i, w)"
      using Cons.prems by (auto simp: blocked_def split: sum.splits if_splits)
    from Cons.IH [OF this] obtain as l bs ins where "ks = as @ l # bs" "i = int l" "\<not> used ! l"
        "inspect_subnet i ifs route False False = Inr ins" "found_conflict ins = None"
        "found_warning ins = w" "\<forall>j\<in>set as. used ! j \<or> blocked ifs route (int j)"
      by blast
    with True show ?thesis
      by (intro exI [of _ "k # as"] exI [of _ l] exI [of _ bs] exI [of _ ins]) simp
  next
    case False
    then show ?thesis
      using Cons.prems
      by (intro exI [of _ "[]"] exI [of _ k] exI [of _ ks]) (auto simp: blocked_def split: sum.splits if_splits)
  qed
qed simp

lemma lowest_usable_Inr:
  assumes "lowest_usable_subnet_index cs src = Inr (i, w)"
  obtains ifs ins where "read_host_interfaces src = Inr ifs" "0 \<le> i" "i \<le> 255"
    "i \<notin> cl_subnet_index ` set cs" "inspect_subnet i ifs (src_route src) False False = Inr ins"
    "found_conflict ins = None" "found_warning ins = w"
    "\<forall>j. 0 \<le> j \<and> j < i \<longrightarrow> j \<in> cl_subnet_index ` set cs \<or> blocked ifs (src_route src) j"
proof -
  obtain ifs where ifs: "read_host_interfaces src = Inr ifs"
    and f: "first_usable ifs (src_route src) (allocated_subnet_indexes cs) [0..<256] = Inr (i, w)"
    using assms by (auto simp: lowest_usable_subnet_index_def try_bind_eq_Inr Let_def split: if_splits)
  from first_usable_Inr [OF f] obtain as k bs ins where
    l: "[0..<256] = as @ k # bs" and k: "i = int k" "\<not> allocated_subnet_indexes cs ! k"
    and ins: "inspect_subnet i ifs (src_route src) False False = Inr ins" "found_conflict ins = None"
      "found_warning ins = w"
    and as: "\<forall>j\<in>set as. allocated_subnet_indexes cs ! j \<or> blocked ifs (src_route src) (int j)"
    by blast
  have ask: "as = [0..<k]" "k < 256" using upt_split [OF l] by simp_all
  have "j \<in> cl_subnet_index ` set cs \<or> blocked ifs (src_route src) j" if "0 \<le> j" "j < i" for j
    using as [unfolded ask(1), rule_format, of "nat j"] allocated_nth [of "nat j" cs] k(1) ask(2) that by simp
  then have "\<forall>j. 0 \<le> j \<and> j < i \<longrightarrow> j \<in> cl_subnet_index ` set cs \<or> blocked ifs (src_route src) j"
    by blast
  then show ?thesis
    using that ifs ins k ask(2) allocated_nth [of k cs] by simp
qed

text \<open>What a clear inspection means for a subnet that is to be claimed: no address of the host
  overlaps it, and no route of 24 bits or more does.\<close>

lemma scan_interfaces_clear:
  "scan_interfaces cand i False False own as = Inr own' \<Longrightarrow> (name, a) \<in> set as \<Longrightarrow>
   ipv4_network a = Some (ip, net) \<Longrightarrow> \<not> networks_overlap cand net"
  by (induction as arbitrary: own) (auto split: option.splits if_splits)

lemma inspect_clear:
  fixes look :: "ip \<Rightarrow> 'e + host_route"
  assumes "inspect_subnet i ifs (Some look) False False = Inr ins" "found_conflict ins = None"
    and "parse_cidr (subnet_cidr i) = Some (x, cand)"
  shows "(name, a) \<in> set (addresses ifs) \<Longrightarrow> ipv4_network a = Some (ip, net) \<Longrightarrow> \<not> networks_overlap cand net"
    and "look (to4 (parse_ip (''172.30.'' @ itoa i @ ''.2''))) = Inr route \<Longrightarrow> route_network route = Some net \<Longrightarrow>
         networks_overlap cand net \<Longrightarrow> fst (mask_size (net_mask net)) < 24"
proof -
  obtain own where s: "scan_interfaces cand i False False {} (addresses ifs) = Inr own"
    using assms by (auto simp: inspect_subnet_def split: sum.splits)
  show "(name, a) \<in> set (addresses ifs) \<Longrightarrow> ipv4_network a = Some (ip, net) \<Longrightarrow> \<not> networks_overlap cand net"
    using scan_interfaces_clear [OF s] .
  assume "look (to4 (parse_ip (''172.30.'' @ itoa i @ ''.2''))) = Inr route"
  then have "inspect_route cand i False False own route = (Inr ins :: 'e subnet_error + inspection)"
    using assms(1,3) s by (simp add: inspect_subnet_def)
  then show "route_network route = Some net \<Longrightarrow> networks_overlap cand net \<Longrightarrow> fst (mask_size (net_mask net)) < 24"
    using assms(2) by (auto simp: inspect_route_def split: if_splits prod.splits)
qed

subsection \<open>A subnet the cluster already owns\<close>

text \<open>A route answer that is complete: none at all, or an interface and an IPv4 network with a
  contiguous mask.\<close>

definition route_complete :: "host_route \<Rightarrow> bool" where
  "route_complete r \<longleftrightarrow>
     (case route_network r of
        None \<Rightarrow> route_interface r = []
      | Some net \<Rightarrow> route_interface r \<noteq> [] \<and> snd (mask_size (net_mask net)) = 32)"

lemma inspect_route_complete: "route_complete r \<Longrightarrow> \<exists>ins. inspect_route cand i al att own r = Inr ins"
  by (auto simp: route_complete_def inspect_route_def split: option.splits prod.splits)

lemma attached_returns:
  fixes src :: "'e subnet_sources"
  assumes "0 \<le> i" "i \<le> 255" "read_host_interfaces src = Inr ifs" "src_route src = Some look"
    "\<And>a. \<exists>r. look a = Inr r \<and> route_complete r"
  shows "\<exists>w. attached_subnet_warning i src = Inr w"
proof -
  obtain r where "look (to4 (parse_ip (''172.30.'' @ itoa i @ ''.2''))) = Inr r" "route_complete r"
    using assms(5) by blast
  then have "\<exists>ins. inspect_subnet i ifs (src_route src) True True = Inr ins"
    using assms(4) inspect_route_complete [of r, where 'a = 'e]
    by (simp add: inspect_subnet_def parse_subnet_cidr assms(1,2) split: sum.split)
  then show ?thesis
    using assms(1-3) by (auto simp: attached_subnet_warning_def MaxSubnetIndex_def split: option.split)
qed

subsection \<open>The most specific route\<close>

text \<open>The routes that count, and the order the kernel uses on them: longer prefix first, then lower
  metric.\<close>

definition route_bits :: "host_route \<Rightarrow> nat" where
  "route_bits r = (case route_network r of None \<Rightarrow> 0 | Some net \<Rightarrow> fst (mask_size (net_mask net)))"

definition applicable :: "ip \<Rightarrow> string set \<Rightarrow> host_route \<Rightarrow> bool" where
  "applicable dest ignored r \<longleftrightarrow>
     (case route_network r of
        None \<Rightarrow> False
      | Some net \<Rightarrow> route_interface r \<notin> ignored \<and> net_contains net dest \<and> snd (mask_size (net_mask net)) = 32)"

definition better :: "host_route \<Rightarrow> host_route \<Rightarrow> bool" where
  "better r q \<longleftrightarrow> route_bits r > route_bits q \<or> (route_bits r = route_bits q \<and> route_metric r < route_metric q)"

definition best_in :: "host_route set \<Rightarrow> host_route \<Rightarrow> bool" where
  "best_in R r \<longleftrightarrow> r \<in> R \<and> (\<forall>q\<in>R. \<not> better q r)"

lemma route_step_eq:
  "route_step dest ign (sel, k) r =
     (if \<not> applicable dest ign r \<or> int (route_bits r) < k then (sel, k)
      else if int (route_bits r) > k \<or> route_metric r < route_metric sel then (r, int (route_bits r))
      else if route_metric r = route_metric sel
        then (sel\<lparr>looks_like_tunnel := looks_like_tunnel sel \<or> looks_like_tunnel r\<rparr>, k)
      else (sel, k))"
  by (auto simp: route_step_def applicable_def route_bits_def split: option.splits prod.splits)

lemma best_in_better:
  assumes "best_in R b" "better r b"
  shows "best_in (insert r R) q \<longleftrightarrow> q = r"
proof -
  have "better r x" if "x \<in> R" for x
    using assms that by (auto simp: best_in_def better_def not_less)
  moreover have "\<not> (better x y \<and> better y x)" for x y by (auto simp: better_def)
  ultimately show ?thesis by (auto simp: best_in_def)
qed

lemma best_in_worse:
  assumes "best_in R b" "better b r"
  shows "best_in (insert r R) q \<longleftrightarrow> best_in R q"
proof -
  have "\<not> better r x" if "\<not> better b x" for x
    using assms(2) that by (auto simp: better_def)
  then show ?thesis using assms by (auto simp: best_in_def)
qed

lemma best_in_tie:
  assumes "best_in R b" "route_bits r = route_bits b" "route_metric r = route_metric b"
  shows "best_in (insert r R) q \<longleftrightarrow> best_in R q \<or> q = r"
proof -
  have "better x r = better x b" "better r x = better b x" for x
    using assms(2,3) by (simp_all add: better_def)
  then show ?thesis using assms(1) by (auto simp: best_in_def)
qed

definition selection_ok :: "host_route set \<Rightarrow> host_route \<times> int \<Rightarrow> bool" where
  "selection_ok R st \<longleftrightarrow>
     (if R = {} then st = (no_route, - 1)
      else \<exists>b. best_in R b \<and> snd st = int (route_bits b)
             \<and> fst st = b\<lparr>looks_like_tunnel := (\<exists>q. best_in R q \<and> looks_like_tunnel q)\<rparr>)"

lemma selection_ok_step:
  assumes "selection_ok R st"
  shows "selection_ok (if applicable dest ign r then insert r R else R) (route_step dest ign st r)"
proof (cases "applicable dest ign r \<and> R \<noteq> {}")
  case True
  obtain sel k where st: "st = (sel, k)" by fastforce
  from assms True obtain b where b: "best_in R b" "k = int (route_bits b)"
      "sel = b\<lparr>looks_like_tunnel := (\<exists>q. best_in R q \<and> looks_like_tunnel q)\<rparr>"
    by (auto simp: selection_ok_def st)
  have sel: "route_metric sel = route_metric b" by (simp add: b)
  consider "better r b" | "better b r" | "route_bits r = route_bits b" "route_metric r = route_metric b"
    unfolding better_def by linarith
  then show ?thesis
  proof cases
    case 1
    then have "best_in (insert r R) q \<longleftrightarrow> q = r" for q
      using best_in_better [OF b(1)] by blast
    moreover have "route_step dest ign st r = (r, int (route_bits r))"
      using True 1 sel by (auto simp: st route_step_eq better_def b(2))
    ultimately show ?thesis using True by (simp add: selection_ok_def)
  next
    case 2
    then have "best_in (insert r R) q \<longleftrightarrow> best_in R q" for q
      using best_in_worse [OF b(1)] by blast
    moreover have "route_step dest ign st r = st"
      using True 2 sel by (auto simp: st route_step_eq better_def b(2))
    ultimately show ?thesis using True assms by (simp add: selection_ok_def)
  next
    case 3
    then have "best_in (insert r R) q \<longleftrightarrow> best_in R q \<or> q = r" for q
      using best_in_tie [OF b(1)] by blast
    moreover have "route_step dest ign st r =
        (sel\<lparr>looks_like_tunnel := looks_like_tunnel sel \<or> looks_like_tunnel r\<rparr>, k)"
      using True 3 sel by (simp add: st route_step_eq b(2))
    ultimately show ?thesis
      using True b by (simp add: selection_ok_def ex_disj_distrib conj_disj_distribR) blast
  qed
next
  case False
  obtain sel k where st: "st = (sel, k)" by fastforce
  show ?thesis
  proof (cases "applicable dest ign r")
    case True
    then have "R = {}" "k = - 1" using False assms by (auto simp: selection_ok_def st)
    then show ?thesis
      using True by (auto simp: selection_ok_def st route_step_eq best_in_def better_def)
  next
    case False
    then show ?thesis using assms by (simp add: st route_step_eq)
  qed
qed

lemma selection_ok_routes:
  "selection_ok {r \<in> set routes. applicable dest ign r} (foldl (route_step dest ign) (no_route, - 1) routes)"
proof (induction routes rule: rev_induct)
  case (snoc r routes)
  have "{q \<in> set (routes @ [r]). applicable dest ign q} =
      (if applicable dest ign r then insert r {q \<in> set routes. applicable dest ign q}
       else {q \<in> set routes. applicable dest ign q})"
    by auto
  then show ?case
    using selection_ok_step [OF snoc, of dest ign r] by simp
qed (simp add: selection_ok_def)

subsection \<open>Properties\<close>

text \<open>C26: The subnet \<^verbatim>\<open>LowestUsableSubnetIndex\<close> picks is one no cluster uses; no address of the host
  overlaps it, and the host's route to it, if it covers the subnet, is shorter than 24 bits. Every
  lower index is in use or collides.\<close>

theorem lowest_usable_subnet_correct:
  assumes "lowest_usable_subnet_index cs src = Inr (i, w)" "src_route src = Some look"
  shows "0 \<le> i \<and> i \<le> 255 \<and> i \<notin> cl_subnet_index ` set cs
    \<and> (\<exists>ifs. read_host_interfaces src = Inr ifs
        \<and> (\<forall>j. 0 \<le> j \<and> j < i \<longrightarrow> j \<in> cl_subnet_index ` set cs \<or> blocked ifs (src_route src) j)
        \<and> (\<forall>name a ip net. (name, a) \<in> set (addresses ifs) \<longrightarrow> ipv4_network a = Some (ip, net) \<longrightarrow>
             \<not> networks_overlap \<lparr>net_ip = [172, 30, word_of_int i, 0], net_mask = [0xFF, 0xFF, 0xFF, 0]\<rparr> net)
        \<and> (\<forall>route net. look (to4 (parse_ip (''172.30.'' @ itoa i @ ''.2''))) = Inr route \<longrightarrow>
             route_network route = Some net \<longrightarrow>
             networks_overlap \<lparr>net_ip = [172, 30, word_of_int i, 0], net_mask = [0xFF, 0xFF, 0xFF, 0]\<rparr> net \<longrightarrow>
             fst (mask_size (net_mask net)) < 24))"
proof -
  obtain ifs ins where l: "read_host_interfaces src = Inr ifs" "0 \<le> i" "i \<le> 255"
    "i \<notin> cl_subnet_index ` set cs" "inspect_subnet i ifs (src_route src) False False = Inr ins"
    "found_conflict ins = None" "found_warning ins = w"
    "\<forall>j. 0 \<le> j \<and> j < i \<longrightarrow> j \<in> cl_subnet_index ` set cs \<or> blocked ifs (src_route src) j"
    by (rule lowest_usable_Inr [OF assms(1)])
  note clear = inspect_clear [OF l(5) [unfolded assms(2)] l(6) parse_subnet_cidr [OF l(2,3)]]
  show ?thesis using l(1-4,8) clear by blast
qed

text \<open>A host whose only interface holds \<^verbatim>\<open>172.30.0.1/24\<close> and whose routes are all unknown.\<close>

definition sample_sources :: "unit subnet_sources" where
  "sample_sources =
     \<lparr>src_interfaces = Some (Inr [\<lparr>if_name = ''eth0'', if_addrs = [OtherAddr ''172.30.0.1/24'']\<rparr>]),
      src_route = Some (\<lambda>_. Inr no_route)\<rparr>"

theorem lowest_usable_subnet_correct_witness:
  "lowest_usable_subnet_index [] sample_sources = Inr (1, None) \<and> (1 :: int) \<notin> cl_subnet_index ` set []"
proof -
  let ?ifs = "[\<lparr>if_name = ''eth0'', if_addrs = [OtherAddr ''172.30.0.1/24'']\<rparr>]"
  let ?r = "Some (\<lambda>_. Inr no_route :: unit + host_route)"
  have "first_usable ?ifs ?r (replicate 256 False) [0, 1] = Inr (1, None)"
    by code_simp
  moreover have "first_usable ifs r u (is @ js) = Inr x" if "first_usable ifs r u is = Inr x"
    for ifs and r :: "(ip \<Rightarrow> unit + host_route) option" and u "is" js x
    using that by (induction "is") (auto split: sum.splits if_splits)
  moreover have upt: "[0..<256] = [0, 1] @ [2..<256]" by (simp add: upt_rec)
  ultimately have f: "first_usable ?ifs ?r (replicate 256 False) [0..<256] = Inr (1, None)"
    unfolding upt by blast
  have u: "allocated_subnet_indexes [] = replicate 256 False"
    by (simp add: allocated_subnet_indexes_def MaxSubnetIndex_def)
  have "read_host_interfaces sample_sources = Inr ?ifs" "src_route sample_sources = ?r"
    by (simp_all add: sample_sources_def read_host_interfaces_def)
  then have l: "lowest_usable_subnet_index [] sample_sources = Inr (1, None)"
    unfolding lowest_usable_subnet_index_def u Let_def length_replicate
    by (simp only: try_bind_Inr f list_ex_iff set_replicate) auto
  from lowest_usable_subnet_correct [OF l] l show ?thesis by (simp add: sample_sources_def)
qed

text \<open>For a subnet a cluster already owns, the check never fails on a collision: whenever the host's
  interfaces can be read and its route answers are complete, it returns, at most with a warning.\<close>

lemma attached_subnet_never_fails:
  assumes "0 \<le> i" "i \<le> 255" "read_host_interfaces src = Inr ifs" "src_route src = Some look"
    and "\<And>a. \<exists>r. look a = Inr r \<and> route_complete r"
  shows "\<exists>w. attached_subnet_warning i src = Inr w"
  using assms by (rule attached_returns)

text \<open>Among the routes that apply to a destination, the selected one has the longest prefix and,
  among those, the lowest metric; it looks like a tunnel exactly when one of the routes tied for
  best does. With no applicable route the result is the empty route.\<close>

lemma selected_route_is_best:
  fixes routes dest ignored
  defines "R \<equiv> {r \<in> set routes. applicable dest ignored r}"
  shows "if R = {} then select_most_specific_route dest routes ignored = no_route
    else \<exists>b. best_in R b \<and> select_most_specific_route dest routes ignored =
           b\<lparr>looks_like_tunnel := (\<exists>q. best_in R q \<and> looks_like_tunnel q)\<rparr>"
  using selection_ok_routes [of routes dest ignored]
  by (auto simp: R_def selection_ok_def select_most_specific_route_def split: if_splits)

end
