(* ===== verification/Domains.thy ===== *)
theory Domains
  imports Cluster_Model
begin

text \<open>
  Cluster domains, \<^verbatim>\<open>src/internal/domain/domain.go\<close>: canonicalisation and the domain policy. The
  label pattern of the code is the predicate \<open>label_ok\<close>, which the configuration parser shares.
\<close>

datatype domain_error =
    DomainTooLong string
  | TooFewLabels string
  | LabelTooLong string
  | LabelInvalid string
  | TldRejected string string
  | ReservedSuffix string
  | CanShadowDns string

definition lower_alnum :: "char \<Rightarrow> bool" where
  "lower_alnum c \<longleftrightarrow> (97 \<le> (of_char c :: nat) \<and> (of_char c :: nat) \<le> 122) \<or> is_digit c"

text \<open>The pattern \<^verbatim>\<open>^[a-z0-9]([a-z0-9-]*[a-z0-9])?$\<close>.\<close>

definition label_ok :: "string \<Rightarrow> bool" where
  "label_ok l \<longleftrightarrow> l \<noteq> [] \<and> lower_alnum (hd l) \<and> lower_alnum (last l)
     \<and> list_all (\<lambda>c. lower_alnum c \<or> c = CHR ''-'') l"

definition rejected_tlds :: "(string \<times> string) list" where
  "rejected_tlds =
     [(''local'', ''macOS routes .local to mDNS/Bonjour''),
      (''localhost'', ''.localhost is reserved for loopback''),
      (''invalid'', ''.invalid is reserved to never resolve'')]"

definition safe_domain :: "string \<Rightarrow> bool" where
  "safe_domain name \<longleftrightarrow>
     (after_last (CHR ''.'') name = ''test'' \<or> after_last (CHR ''.'') name = ''internal'')
     \<or> name = ''home.arpa'' \<or> has_suffix name ''.home.arpa''"

fun check_labels :: "string list \<Rightarrow> domain_error + unit" where
  "check_labels [] = Inr ()"
| "check_labels (label # labels) =
     (if length label > 63 then Inl (LabelTooLong label)
      else if \<not> label_ok label then Inl (LabelInvalid label)
      else check_labels labels)"

definition validate_domain :: "(string \<Rightarrow> string) \<Rightarrow> string \<Rightarrow> bool \<Rightarrow> domain_error + string" where
  "validate_domain U input allow_unsafe =
     (let name = to_lower U (trim_suffix input ''.'') in
      if length name > 253 then Inl (DomainTooLong name)
      else let labels = split_on (CHR ''.'') name in
        if length labels < 2 then Inl (TooFewLabels name)
        else try_bind (check_labels labels) (\<lambda>_.
          case map_of rejected_tlds (last labels) of
            Some reason \<Rightarrow> Inl (TldRejected name reason)
          | None \<Rightarrow>
              if name = DefaultDomainSuffix then Inl (ReservedSuffix name)
              else if \<not> safe_domain name \<and> \<not> allow_unsafe then Inl (CanShadowDns name)
              else Inr name))"

subsection \<open>Canonical domains\<close>

definition canonical_domain :: "string \<Rightarrow> bool" where
  "canonical_domain name \<longleftrightarrow>
     length name \<le> 253 \<and> length (split_on (CHR ''.'') name) \<ge> 2
     \<and> (\<forall>l\<in>set (split_on (CHR ''.'') name). length l \<le> 63 \<and> label_ok l)
     \<and> last (split_on (CHR ''.'') name) \<notin> {''local'', ''localhost'', ''invalid''}
     \<and> name \<noteq> DefaultDomainSuffix"

lemma check_labels_Inr: "check_labels ls = Inr u \<longleftrightarrow> (\<forall>l\<in>set ls. length l \<le> 63 \<and> label_ok l)"
  by (induction ls) auto

lemma validate_domain_Inr:
  "validate_domain U input allow = Inr name \<longleftrightarrow>
     name = to_lower U (trim_suffix input ''.'') \<and> canonical_domain name \<and> (safe_domain name \<or> allow)"
proof -
  define n where "n = to_lower U (trim_suffix input ''.'')"
  let ?ls = "split_on (CHR ''.'') n"
  have tld: "last ?ls \<notin> {''local'', ''localhost'', ''invalid''} \<longleftrightarrow> map_of rejected_tlds (last ?ls) = None"
    by (simp add: rejected_tlds_def)
  have labels: "(\<forall>l\<in>set ?ls. length l \<le> 63 \<and> label_ok l) \<longleftrightarrow> check_labels ?ls = Inr ()"
    by (simp add: check_labels_Inr)
  have v: "validate_domain U input allow =
      (if length n > 253 then Inl (DomainTooLong n)
       else if length ?ls < 2 then Inl (TooFewLabels n)
       else try_bind (check_labels ?ls) (\<lambda>_.
          case map_of rejected_tlds (last ?ls) of
            Some reason \<Rightarrow> Inl (TldRejected n reason)
          | None \<Rightarrow> if n = DefaultDomainSuffix then Inl (ReservedSuffix n)
              else if \<not> safe_domain n \<and> \<not> allow then Inl (CanShadowDns n) else Inr n))"
    unfolding validate_domain_def Let_def n_def ..
  have c: "canonical_domain n \<longleftrightarrow> length n \<le> 253 \<and> length ?ls \<ge> 2 \<and> check_labels ?ls = Inr ()
      \<and> map_of rejected_tlds (last ?ls) = None \<and> n \<noteq> DefaultDomainSuffix"
    unfolding canonical_domain_def tld labels ..
  have "validate_domain U input allow = Inr n \<longleftrightarrow> canonical_domain n \<and> (safe_domain n \<or> allow)"
    unfolding v c
    by (cases "check_labels ?ls"; cases "map_of rejected_tlds (last ?ls)") simp_all
  moreover have "validate_domain U input allow = Inr name \<Longrightarrow> name = n"
    unfolding v by (auto simp: try_bind_eq_Inr split: if_splits option.splits)
  ultimately show ?thesis unfolding n_def by blast
qed

text \<open>A canonical domain is lower-case ASCII without a trailing dot, so validating it again, under
  whatever case mapping, returns it.\<close>

lemma lower_alnum_ascii: "lower_alnum c \<Longrightarrow> is_ascii c \<and> ascii_lower c = c"
  by (auto simp: lower_alnum_def is_digit_def is_ascii_def ascii_lower_def)

lemma label_lower: "label_ok l \<Longrightarrow> c \<in> set l \<Longrightarrow> is_ascii c \<and> ascii_lower c = c \<and> c \<noteq> CHR ''.''"
  using lower_alnum_ascii
  by (fastforce simp: label_ok_def list_all_iff lower_alnum_def is_digit_def is_ascii_def ascii_lower_def)

lemma set_join: "set (join [d] ws) \<subseteq> insert d (\<Union> (set ` set ws))"
proof (induction ws)
  case (Cons w ws)
  then show ?case by (cases "ws = []") (auto simp: join_Cons)
qed simp

lemma canonical_lower:
  assumes "canonical_domain name" "c \<in> set name"
  shows "is_ascii c \<and> ascii_lower c = c"
proof (cases "c = CHR ''.''")
  case True
  then show ?thesis by (simp add: is_ascii_def ascii_lower_def)
next
  case False
  have "c \<in> set (join ''.'' (split_on (CHR ''.'') name))" using assms(2) by (simp add: join_split_on)
  then obtain l where "l \<in> set (split_on (CHR ''.'') name)" "c \<in> set l"
    using set_join False by fastforce
  then show ?thesis using assms(1) label_lower by (auto simp: canonical_domain_def)
qed

lemma canonical_no_trailing_dot:
  assumes "canonical_domain name"
  shows "\<not> has_suffix name ''.''"
proof
  assume "has_suffix name ''.''"
  then obtain p where p: "name = p @ [CHR ''.'']" by (auto simp: has_suffix_iff)
  have "split_on (CHR ''.'') (p @ [CHR ''.'']) = split_on (CHR ''.'') p @ [[]]"
    by (induction p) (auto split: list.split)
  then have "[] \<in> set (split_on (CHR ''.'') name)" by (simp add: p)
  then show False using assms by (auto simp: canonical_domain_def label_ok_def)
qed

lemma canonical_to_lower: "canonical_domain name \<Longrightarrow> to_lower U name = name"
proof -
  assume a: "canonical_domain name"
  have "list_all is_ascii name" "map ascii_lower name = name"
    using canonical_lower [OF a] by (simp_all add: list_all_iff map_idI)
  then show ?thesis by (simp add: to_lower_def)
qed

lemma validate_canonical:
  "canonical_domain name \<Longrightarrow> safe_domain name \<or> allow \<Longrightarrow> validate_domain U name allow = Inr name"
  by (simp add: validate_domain_Inr canonical_no_trailing_dot trim_suffix_none canonical_to_lower)

subsection \<open>Properties\<close>

text \<open>What \<^verbatim>\<open>Validate\<close> returns is canonical (at least two valid labels within the length limits, no
  rejected top-level domain, not the reserved suffix), is safe unless unsafe domains were allowed,
  and is a fixed point: validating it again, under any case mapping, returns it.\<close>

lemma validated_domain_canonical:
  assumes "validate_domain U input allow = Inr name"
  shows "canonical_domain name \<and> (safe_domain name \<or> allow) \<and> validate_domain V name allow = Inr name"
proof -
  have "canonical_domain name \<and> (safe_domain name \<or> allow)"
    using assms unfolding validate_domain_Inr by blast
  then show ?thesis using validate_canonical by blast
qed

end
