(* ===== verification/Talos_Version.thy ===== *)
theory Talos_Version
  imports Go_Strings
begin

text \<open>
  The window of supported Talos versions, \<^verbatim>\<open>src/internal/talosversion/talosversion.go\<close>. The
  comparison of the code is the strict order of an instance of \<^verbatim>\<open>linorder\<close>.
\<close>

datatype version = Version (major: int) (minor: int) (patch: int) (prerelease: bool)

fun version_less :: "version \<Rightarrow> version \<Rightarrow> bool" where
  "version_less (Version a b c p) (Version a' b' c' p') =
     (if a \<noteq> a' then a < a'
      else if b \<noteq> b' then b < b'
      else if c \<noteq> c' then c < c'
      else p \<and> \<not> p')"

definition ident_char :: "char \<Rightarrow> bool" where
  "ident_char c \<longleftrightarrow> is_digit c \<or> c = CHR ''-''
     \<or> (65 \<le> (of_char c :: nat) \<and> (of_char c :: nat) \<le> 90)
     \<or> (97 \<le> (of_char c :: nat) \<and> (of_char c :: nat) \<le> 122)"

text \<open>The pattern \<^verbatim>\<open>^v(\d+)\.(\d+)\.(\d+)(-[0-9A-Za-z-]+(?:\.[0-9A-Za-z-]+)*)?$\<close>: its four groups.
  The pattern leaves no choice, because a dot or a dash ends a run of digits.\<close>

definition digits_then :: "string \<Rightarrow> string \<times> string" where
  "digits_then s = (takeWhile is_digit s, dropWhile is_digit s)"

definition suffix_shape :: "string \<Rightarrow> bool" where
  "suffix_shape s \<longleftrightarrow>
     (case s of
        [] \<Rightarrow> True
      | c # ids \<Rightarrow> c = CHR ''-'' \<and>
          list_all (\<lambda>w. w \<noteq> [] \<and> list_all ident_char w) (split_on (CHR ''.'') ids))"

definition version_shape :: "string \<Rightarrow> (string \<times> string \<times> string \<times> string) option" where
  "version_shape s =
     (case s of
        [] \<Rightarrow> None
      | v # r \<Rightarrow>
         (if v \<noteq> CHR ''v'' then None
          else case digits_then r of (d1, r1) \<Rightarrow>
            if d1 = [] \<or> r1 = [] \<or> hd r1 \<noteq> CHR ''.'' then None
            else case digits_then (tl r1) of (d2, r2) \<Rightarrow>
              if d2 = [] \<or> r2 = [] \<or> hd r2 \<noteq> CHR ''.'' then None
              else case digits_then (tl r2) of (d3, r3) \<Rightarrow>
                if d3 = [] \<or> \<not> suffix_shape r3 then None else Some (d1, d2, d3, r3)))"

datatype version_error = BadShape string | BadNumber string | BelowMinimum string

definition parse_version :: "string \<Rightarrow> version_error + version" where
  "parse_version s =
     (case version_shape s of
        None \<Rightarrow> Inl (BadShape s)
      | Some (d1, d2, d3, pre) \<Rightarrow>
         (case atoi d1 of None \<Rightarrow> Inl (BadNumber s)
          | Some a \<Rightarrow> (case atoi d2 of None \<Rightarrow> Inl (BadNumber s)
            | Some b \<Rightarrow> (case atoi d3 of None \<Rightarrow> Inl (BadNumber s)
              | Some c \<Rightarrow> Inr (Version a b c (pre \<noteq> []))))))"

definition DefaultVersion :: string where "DefaultVersion = ''v1.13.9''"
definition MinVersion :: string where "MinVersion = ''v1.12.0''"

text \<open>\<^verbatim>\<open>mustParse\<close>: the two constants of the package parse (lemma below), so the panic of the
  code is unreachable; the model puts the zero version there.\<close>

definition must_parse :: "string \<Rightarrow> version" where
  "must_parse s = (case parse_version s of Inr v \<Rightarrow> v | Inl _ \<Rightarrow> Version 0 0 0 False)"

definition floor_version :: version where "floor_version = must_parse MinVersion"
definition tested_version :: version where "tested_version = must_parse DefaultVersion"

definition validate_version :: "string \<Rightarrow> version_error + unit" where
  "validate_version s =
     try_bind (parse_version s) (\<lambda>requested.
       if version_less requested floor_version then Inl (BelowMinimum s) else Inr ())"

definition newer_than_tested_warning :: "string \<Rightarrow> bool" where
  "newer_than_tested_warning s =
     (case parse_version s of
        Inl _ \<Rightarrow> False
      | Inr requested \<Rightarrow> version_less tested_version requested)"

subsection \<open>The order\<close>

instantiation version :: linorder
begin

definition less_version :: "version \<Rightarrow> version \<Rightarrow> bool" where
  "less_version v w = version_less v w"

definition less_eq_version :: "version \<Rightarrow> version \<Rightarrow> bool" where
  "less_eq_version v w = (version_less v w \<or> v = w)"

instance
proof
  fix u v w :: version
  show "v < w \<longleftrightarrow> v \<le> w \<and> \<not> w \<le> v"
    by (cases v; cases w) (auto simp: less_version_def less_eq_version_def split: if_splits)
  show "v \<le> v" by (simp add: less_eq_version_def)
  show "u \<le> v \<Longrightarrow> v \<le> w \<Longrightarrow> u \<le> w"
    by (cases u; cases v; cases w) (auto simp: less_eq_version_def split: if_splits)
  show "v \<le> w \<Longrightarrow> w \<le> v \<Longrightarrow> v = w"
    by (cases v; cases w) (auto simp: less_eq_version_def split: if_splits)
  show "v \<le> w \<or> w \<le> v"
    by (cases v; cases w) (auto simp: less_eq_version_def)
qed

end

lemma floor_version_eq [simp]: "floor_version = Version 1 12 0 False"
  by code_simp

lemma tested_version_eq [simp]: "tested_version = Version 1 13 9 False"
  by code_simp

lemma validate_version_Inr:
  "validate_version s = Inr u \<longleftrightarrow> (\<exists>v. parse_version s = Inr v \<and> floor_version \<le> v)"
  by (auto simp: validate_version_def try_bind_eq_Inr not_less simp flip: less_version_def)

subsection \<open>Printing and parsing\<close>

definition show_version :: "version \<Rightarrow> string" where
  "show_version v =
     ''v'' @ itoa (major v) @ ''.'' @ itoa (minor v) @ ''.'' @ itoa (patch v)
     @ (if prerelease v then ''-0'' else [])"

lemma digits_then_itoa:
  assumes "0 \<le> n" "r = [] \<or> \<not> is_digit (hd r)"
  shows "digits_then (itoa n @ r) = (itoa n, r)"
proof -
  have "\<forall>c\<in>set (itoa n). is_digit c" using itoa_nat_digits [OF assms(1)] by blast
  then show ?thesis
    using assms(2) by (cases r) (simp_all add: digits_then_def takeWhile_append2 dropWhile_append2)
qed

lemma parse_show_version:
  assumes "0 \<le> major v" "0 \<le> minor v" "0 \<le> patch v" "in_i64 (major v)" "in_i64 (minor v)" "in_i64 (patch v)"
  shows "parse_version (show_version v) = Inr v"
proof -
  let ?pre = "if prerelease v then ''-0'' else []"
  have "suffix_shape ''-0''" "suffix_shape []" by code_simp+
  then have "suffix_shape ?pre" by simp
  moreover have "?pre = [] \<or> \<not> is_digit (hd ?pre)" by (simp add: is_digit_def)
  ultimately have "version_shape (show_version v) = Some (itoa (major v), itoa (minor v), itoa (patch v), ?pre)"
    using assms digits_then_itoa
    by (simp add: version_shape_def show_version_def is_digit_def del: if_split)
  then show ?thesis
    using assms by (cases v) (simp add: parse_version_def atoi_itoa)
qed

subsection \<open>Properties\<close>

text \<open>The supported window is upward closed in the order of the code, which is linear: with one
  version every later one is accepted, and a version that draws the newer-than-tested warning is
  never refused.\<close>

lemma supported_versions_upward_closed:
  "(\<forall>s t v w. validate_version s = Inr () \<longrightarrow> parse_version s = Inr v \<longrightarrow> parse_version t = Inr w \<longrightarrow> v \<le> w \<longrightarrow>
      validate_version t = Inr ())
   \<and> (\<forall>s. newer_than_tested_warning s \<longrightarrow> validate_version s = Inr ())"
proof (intro conjI allI impI)
  fix s t v w
  assume "validate_version s = Inr ()" "parse_version s = Inr v" "parse_version t = Inr w" "v \<le> w"
  then show "validate_version t = Inr ()"
    using order_trans by (fastforce simp: validate_version_Inr)
next
  fix s
  assume "newer_than_tested_warning s"
  then obtain v where v: "parse_version s = Inr v" "tested_version < v"
    by (auto simp: newer_than_tested_warning_def less_version_def split: sum.splits)
  have "floor_version < tested_version" by (simp add: less_version_def)
  with v show "validate_version s = Inr ()"
    by (simp add: validate_version_Inr del: floor_version_eq tested_version_eq)
qed

end
