(* ===== verification/Config.thy ===== *)
theory Config
  imports Domains
begin

text \<open>
  The declarative cluster description, \<^verbatim>\<open>src/internal/config/config.go\<close>, with the hypervisor names
  of \<^verbatim>\<open>src/internal/hypervisor/registry.go\<close>. The YAML decoder is a third-party package: what it
  makes of the file is the argument of \<open>parse_config\<close>, an error or the raw document.
\<close>

subsection \<open>Data\<close>

record talos_spec =
  ts_version :: string
  ts_schematic :: string
  ts_extensions :: "string list option"

definition no_talos :: talos_spec where
  "no_talos = \<lparr>ts_version = [], ts_schematic = [], ts_extensions = None\<rparr>"

record raw_talos =
  rt_version :: string
  rt_schematic :: string
  rt_extensions :: "string list option"

record raw_node =
  rn_memory :: string
  rn_cpus :: int
  rn_disk_size :: string

record raw_cluster =
  rc_name :: string
  rc_hypervisor :: string
  rc_control_planes :: "int option"
  rc_workers :: "int option"
  rc_intent :: intent_input
  rc_domain :: string
  rc_allow_unsafe_domain :: bool
  rc_node :: raw_node
  rc_control_plane :: "raw_node option"
  rc_worker :: "raw_node option"
  rc_talos :: "raw_talos option"

record raw_config =
  raw_version :: "int option"
  raw_file_talos :: raw_talos
  raw_clusters :: "raw_cluster list"

record cluster_spec =
  cs_name :: string
  cs_hypervisor :: string
  cs_control_planes :: int
  cs_workers :: int
  cs_intent :: provisioning_intent
  cs_domain :: string
  cs_allow_unsafe_domain :: bool
  cs_node :: node_defaults
  cs_control_plane :: "node_defaults option"
  cs_worker :: "node_defaults option"
  cs_talos :: talos_spec

record config =
  cfg_talos :: talos_spec
  cfg_clusters :: "cluster_spec list"

datatype 'e config_error =
    DecodeYaml 'e
  | MissingVersion
  | UnsupportedVersion int
  | NoClusters
  | ClusterNameInvalid string
  | DuplicateClusterName string
  | BadHypervisor string string
  | BadIntent string intent_error
  | BadDomain string domain_error
  | NameFormsNoDomain string
  | DomainTaken string string string
  | NeedsControlPlane string
  | NegativeWorkers string
  | BadNode string string
  | BadControlPlane string string
  | BadWorker string string

definition default_node :: node_defaults where
  "default_node = \<lparr>memory_mib = DefaultMemoryMiB, cpus = DefaultCPUs, disk_gib = DefaultDiskGiB\<rparr>"

definition defaultControlPlanes :: int where "defaultControlPlanes = 1"
definition defaultWorkers :: int where "defaultWorkers = 2"

subsection \<open>Image pins\<close>

text \<open>Field-wise equality, where a missing extension list differs from an empty one.\<close>

definition talos_equal :: "talos_spec \<Rightarrow> talos_spec \<Rightarrow> bool" where
  "talos_equal t other \<longleftrightarrow>
     ts_version t = ts_version other \<and> ts_schematic t = ts_schematic other
     \<and> (ts_extensions t = None) = (ts_extensions other = None)
     \<and> case_option [] id (ts_extensions t) = case_option [] id (ts_extensions other)"

definition talos_is_zero :: "talos_spec \<Rightarrow> bool" where
  "talos_is_zero t \<longleftrightarrow> ts_version t = [] \<and> ts_schematic t = [] \<and> ts_extensions t = None"

definition resolve_talos :: "talos_spec \<Rightarrow> raw_talos option \<Rightarrow> talos_spec" where
  "resolve_talos base raw0 =
     (case raw0 of
        None \<Rightarrow> base
      | Some raw \<Rightarrow>
         (let out = base;
              out = (if rt_version raw \<noteq> [] then out\<lparr>ts_version := rt_version raw\<rparr> else out);
              out = (if rt_schematic raw \<noteq> [] then out\<lparr>ts_schematic := rt_schematic raw\<rparr> else out);
              out = (case rt_extensions raw of
                       None \<Rightarrow> out | Some es \<Rightarrow> out\<lparr>ts_extensions := Some es\<rparr>)
          in out))"

subsection \<open>Node sizes\<close>

definition parse_size_mib :: "string \<Rightarrow> string + int" where
  "parse_size_mib s =
     (let suffix = (if has_suffix s ''GiB'' then Some (1024, trim_suffix s ''GiB'')
                    else if has_suffix s ''MiB'' then Some (1, trim_suffix s ''MiB'')
                    else None) in
      case suffix of
        None \<Rightarrow> Inl s
      | Some (mult, num) \<Rightarrow>
         (case atoi num of
            None \<Rightarrow> Inl s
          | Some n \<Rightarrow> if n \<le> 0 then Inl s else Inr (i64 (n * mult))))"

definition resolve_node :: "node_defaults \<Rightarrow> raw_node \<Rightarrow> string + node_defaults" where
  "resolve_node base raw =
     try_bind (if rn_memory raw \<noteq> []
               then try_bind (parse_size_mib (rn_memory raw)) (\<lambda>mib. Inr (base\<lparr>memory_mib := mib\<rparr>))
               else Inr base) (\<lambda>out.
       let out = (if rn_cpus raw \<noteq> 0 then out\<lparr>cpus := rn_cpus raw\<rparr> else out) in
       if rn_disk_size raw \<noteq> [] then
         try_bind (parse_size_mib (rn_disk_size raw)) (\<lambda>mib.
           if mib smod 1024 \<noteq> 0 then Inl (rn_disk_size raw)
           else Inr (out\<lparr>disk_gib := mib sdiv 1024\<rparr>))
       else Inr out)"

subsection \<open>Clusters\<close>

definition parse_hypervisor_name :: "string \<Rightarrow> string + string" where
  "parse_hypervisor_name raw = (if raw = ''vz'' \<or> raw = ''qemu'' then Inr raw else Inl raw)"

definition map_error :: "('e \<Rightarrow> 'f) \<Rightarrow> 'e + 'a \<Rightarrow> 'f + 'a" where
  "map_error f r = (case r of Inl e \<Rightarrow> Inl (f e) | Inr a \<Rightarrow> Inr a)"

definition default_domain :: "string \<Rightarrow> string" where
  "default_domain name = name @ ''.'' @ DefaultDomainSuffix"

text \<open>The domain of a cluster: the one to store (empty for the default) and the effective one.\<close>

definition parse_domain :: "(string \<Rightarrow> string) \<Rightarrow> raw_cluster \<Rightarrow> 'e config_error + string \<times> string" where
  "parse_domain U rc =
     try_bind
       (if rc_domain rc \<noteq> [] then
          try_bind (map_error (BadDomain (rc_name rc))
                     (validate_domain U (rc_domain rc) (rc_allow_unsafe_domain rc))) (\<lambda>canonical.
            Inr (if canonical = default_domain (rc_name rc) then [] else canonical))
        else Inr []) (\<lambda>stored.
       if stored = [] then
         (let effective = default_domain (rc_name rc) in
          if validate_domain U effective True \<noteq> Inr effective
          then Inl (NameFormsNoDomain (rc_name rc)) else Inr ([], effective))
       else Inr (stored, stored))"

definition opt_node :: "(string \<Rightarrow> 'e config_error) \<Rightarrow> node_defaults \<Rightarrow> raw_node option
    \<Rightarrow> 'e config_error + node_defaults option" where
  "opt_node err base raw =
     (case raw of
        None \<Rightarrow> Inr None
      | Some r \<Rightarrow> try_bind (map_error err (resolve_node base r)) (\<lambda>n. Inr (Some n)))"

type_synonym parse_state = "string set \<times> (string \<rightharpoonup> string) \<times> cluster_spec list"

text \<open>The second half of the loop body: counts, sizes, and the specification itself.\<close>

definition finish_cluster ::
    "talos_spec \<Rightarrow> raw_cluster \<Rightarrow> string \<Rightarrow> provisioning_intent \<Rightarrow> string \<Rightarrow> string \<Rightarrow> parse_state
     \<Rightarrow> 'e config_error + parse_state" where
  "finish_cluster talos rc hypervisor intent stored effective st =
     (case st of (seen, seen_domains, specs) \<Rightarrow>
       (let name = rc_name rc;
            control_planes = case_option defaultControlPlanes id (rc_control_planes rc);
            workers = case_option defaultWorkers id (rc_workers rc) in
        if control_planes < 1 then Inl (NeedsControlPlane name)
        else if workers < 0 then Inl (NegativeWorkers name)
        else
          try_bind (map_error (BadNode name) (resolve_node default_node (rc_node rc))) (\<lambda>node.
          try_bind (opt_node (BadControlPlane name) node (rc_control_plane rc)) (\<lambda>cp.
          try_bind (opt_node (BadWorker name) node (rc_worker rc)) (\<lambda>worker.
            Inr (insert name seen, seen_domains(effective \<mapsto> name),
                 specs @ [\<lparr>cs_name = name, cs_hypervisor = hypervisor,
                    cs_control_planes = control_planes, cs_workers = workers,
                    cs_intent = intent, cs_domain = stored,
                    cs_allow_unsafe_domain = rc_allow_unsafe_domain rc, cs_node = node,
                    cs_control_plane = cp, cs_worker = worker,
                    cs_talos = resolve_talos talos (rc_talos rc)\<rparr>]))))))"

definition parse_cluster ::
    "(string \<Rightarrow> string) \<Rightarrow> talos_spec \<Rightarrow> parse_state \<Rightarrow> raw_cluster \<Rightarrow> 'e config_error + parse_state" where
  "parse_cluster U talos st rc = (case st of (seen, seen_domains, specs) \<Rightarrow>
     (let name = rc_name rc in
      if \<not> label_ok name then Inl (ClusterNameInvalid name)
      else if name \<in> seen then Inl (DuplicateClusterName name)
      else try_bind (if rc_hypervisor rc \<noteq> []
                     then map_error (BadHypervisor name) (parse_hypervisor_name (rc_hypervisor rc))
                     else Inr []) (\<lambda>hypervisor.
        try_bind (map_error (BadIntent name) (intent_of_input (rc_intent rc))) (\<lambda>intent.
        try_bind (parse_domain U rc) (\<lambda>(stored, effective).
        case seen_domains effective of
          Some owner \<Rightarrow> Inl (DomainTaken name effective owner)
        | None \<Rightarrow> finish_cluster talos rc hypervisor intent stored effective st)))))"

definition parse_config :: "(string \<Rightarrow> string) \<Rightarrow> 'e + raw_config \<Rightarrow> 'e config_error + config" where
  "parse_config U decoded =
     (case decoded of
        Inl e \<Rightarrow> Inl (DecodeYaml e)
      | Inr raw \<Rightarrow>
         (case raw_version raw of
            None \<Rightarrow> Inl MissingVersion
          | Some v \<Rightarrow>
              if v \<noteq> 1 then Inl (UnsupportedVersion v)
              else if raw_clusters raw = [] then Inl NoClusters
              else let talos = resolve_talos no_talos (Some (raw_file_talos raw)) in
                try_bind (fold_try (parse_cluster U talos) ({}, Map.empty, []) (raw_clusters raw))
                  (\<lambda>(_, _, specs). Inr \<lparr>cfg_talos = talos, cfg_clusters = specs\<rparr>)))"

subsection \<open>What a parsed configuration guarantees\<close>

definition spec_domain :: "cluster_spec \<Rightarrow> string" where
  "spec_domain s = (if cs_domain s \<noteq> [] then cs_domain s else default_domain (cs_name s))"

definition spec_ok :: "cluster_spec \<Rightarrow> bool" where
  "spec_ok s \<longleftrightarrow> label_ok (cs_name s) \<and> canonical_domain (spec_domain s)
     \<and> cs_control_planes s \<ge> 1 \<and> cs_workers s \<ge> 0 \<and> intent_ok (cs_intent s)
     \<and> cs_hypervisor s \<in> {[], ''vz'', ''qemu''}"

definition specs_ok :: "cluster_spec list \<Rightarrow> bool" where
  "specs_ok specs \<longleftrightarrow> (\<forall>s\<in>set specs. spec_ok s)
     \<and> distinct (map cs_name specs) \<and> distinct (map spec_domain specs)"

definition parse_inv :: "parse_state \<Rightarrow> bool" where
  "parse_inv st = (case st of (seen, seen_domains, specs) \<Rightarrow>
     specs_ok specs \<and> seen = cs_name ` set specs \<and> dom seen_domains = spec_domain ` set specs)"

lemma map_error_eq_Inr [simp]: "map_error f r = Inr a \<longleftrightarrow> r = Inr a"
  by (cases r) (simp_all add: map_error_def)

lemma canonical_nonempty: "canonical_domain d \<Longrightarrow> d \<noteq> []"
  by (auto simp: canonical_domain_def)

lemma parse_domain_Inr:
  assumes "parse_domain U rc = Inr (stored, effective)"
  shows "canonical_domain effective"
    "effective = (if stored \<noteq> [] then stored else default_domain (rc_name rc))"
  using assms
  by (auto simp: parse_domain_def try_bind_eq_Inr validate_domain_Inr Let_def
      dest: canonical_nonempty split: if_splits)

lemma parsed_hypervisor:
  "(if h \<noteq> [] then map_error f (parse_hypervisor_name h) else Inr []) = Inr hyp \<Longrightarrow> hyp \<in> {[], ''vz'', ''qemu''}"
  by (auto simp: parse_hypervisor_name_def split: if_splits)

lemma parsed_intent: "intent_of_input i = Inr intent \<Longrightarrow> intent_ok intent"
  by (auto simp: intent_of_input_def dest: parse_intent_sound)

lemma finish_cluster_Inr:
  assumes "(finish_cluster talos rc hyp intent stored effective (seen, doms, specs) :: 'e config_error + parse_state) = Inr st"
    and "label_ok (rc_name rc)" "hyp \<in> {[], ''vz'', ''qemu''}" "intent_ok intent" "canonical_domain effective"
    "effective = (if stored \<noteq> [] then stored else default_domain (rc_name rc))"
  shows "\<exists>s. st = (insert (cs_name s) seen, doms(spec_domain s \<mapsto> cs_name s), specs @ [s])
           \<and> spec_ok s \<and> cs_name s = rc_name rc \<and> spec_domain s = effective"
proof -
  from assms(1) obtain node cp w cps ws where "1 \<le> cps" "0 \<le> ws"
    and st: "st = (insert (rc_name rc) seen, doms(effective \<mapsto> rc_name rc),
       specs @ [\<lparr>cs_name = rc_name rc, cs_hypervisor = hyp, cs_control_planes = cps, cs_workers = ws,
          cs_intent = intent, cs_domain = stored, cs_allow_unsafe_domain = rc_allow_unsafe_domain rc,
          cs_node = node, cs_control_plane = cp, cs_worker = w, cs_talos = resolve_talos talos (rc_talos rc)\<rparr>])"
    by (auto simp: finish_cluster_def Let_def try_bind_eq_Inr not_less split: if_splits)
  with assms show ?thesis
    by (intro exI [of _ "last (snd (snd st))"]) (auto simp: spec_ok_def spec_domain_def)
qed

lemma parse_cluster_Inr:
  assumes "(parse_cluster U talos (seen, doms, specs) rc :: 'e config_error + parse_state) = Inr st"
  shows "\<exists>s. st = (insert (cs_name s) seen, doms(spec_domain s \<mapsto> cs_name s), specs @ [s])
           \<and> spec_ok s \<and> cs_name s \<notin> seen \<and> doms (spec_domain s) = None \<and> cs_name s = rc_name rc"
proof -
  have n: "label_ok (rc_name rc)" "rc_name rc \<notin> seen"
    using assms by (auto simp: parse_cluster_def Let_def split: if_splits)
  then obtain hyp intent stored effective where
    h: "(if rc_hypervisor rc \<noteq> [] then map_error (BadHypervisor (rc_name rc)) (parse_hypervisor_name (rc_hypervisor rc))
         else Inr []) = (Inr hyp :: 'e config_error + string)"
    and i: "intent_of_input (rc_intent rc) = Inr intent"
    and d: "(parse_domain U rc :: 'e config_error + string \<times> string) = Inr (stored, effective)"
    and rest: "(case doms effective of Some owner \<Rightarrow> Inl (DomainTaken (rc_name rc) effective owner)
        | None \<Rightarrow> finish_cluster talos rc hyp intent stored effective (seen, doms, specs)) = (Inr st :: 'e config_error + parse_state)"
    using assms [unfolded parse_cluster_def prod.case Let_def, simplified n not_True_eq_False if_False
      try_bind_eq_Inr map_error_eq_Inr split_paired_Ex prod.case] by blast
  have none: "doms effective = None"
    and fin: "finish_cluster talos rc hyp intent stored effective (seen, doms, specs) = (Inr st :: 'e config_error + parse_state)"
    using rest by (cases "doms effective"; simp)+
  from finish_cluster_Inr [OF fin n(1) parsed_hypervisor [OF h] parsed_intent [OF i] parse_domain_Inr [OF d]]
  show ?thesis using n(2) none by metis
qed

lemma parse_cluster_inv:
  assumes "parse_inv st" "(parse_cluster U talos st rc :: 'e config_error + parse_state) = Inr st'"
  shows "parse_inv st'"
proof -
  obtain seen doms specs where st: "st = (seen, doms, specs)" by (metis prod_cases3)
  from parse_cluster_Inr [OF assms(2) [unfolded st]] obtain s where
    s: "st' = (insert (cs_name s) seen, doms(spec_domain s \<mapsto> cs_name s), specs @ [s])"
      "spec_ok s" "cs_name s \<notin> seen" "doms (spec_domain s) = None"
    by blast
  then have "spec_domain s \<notin> dom doms" by (simp add: domIff)
  with s assms(1) show ?thesis
    by (simp only: st parse_inv_def prod.case specs_ok_def) auto
qed

lemma parse_clusters_names:
  "(fold_try (parse_cluster U talos) (seen, doms, specs) rcs :: 'e config_error + parse_state) = Inr (seen', doms', specs') \<Longrightarrow>
     map cs_name specs' = map cs_name specs @ map rc_name rcs"
proof (induction rcs arbitrary: seen doms specs)
  case (Cons rc rcs)
  from Cons.prems obtain st where st: "(parse_cluster U talos (seen, doms, specs) rc :: 'e config_error + parse_state) = Inr st"
    "fold_try (parse_cluster U talos) st rcs = (Inr (seen', doms', specs') :: 'e config_error + parse_state)"
    by (auto simp: try_bind_eq_Inr)
  from parse_cluster_Inr [OF st(1)] Cons.IH st(2) show ?case by fastforce
qed simp

lemma parse_config_Inr:
  assumes "(parse_config U decoded :: 'e config_error + config) = Inr cfg"
  obtains raw seen doms where "decoded = Inr raw"
    "(fold_try (parse_cluster U (cfg_talos cfg)) ({}, Map.empty, []) (raw_clusters raw) :: 'e config_error + parse_state)
       = Inr (seen, doms, cfg_clusters cfg)"
  using assms
  by (auto simp: parse_config_def Let_def try_bind_eq_Inr split: sum.splits option.splits if_splits)

lemma parse_config_ok:
  assumes "(parse_config U decoded :: 'e config_error + config) = Inr cfg"
  shows "specs_ok (cfg_clusters cfg)"
proof -
  obtain raw seen doms where "decoded = Inr raw"
    "(fold_try (parse_cluster U (cfg_talos cfg)) ({}, Map.empty, []) (raw_clusters raw) :: 'e config_error + parse_state)
       = Inr (seen, doms, cfg_clusters cfg)"
    by (rule parse_config_Inr [OF assms])
  from this(2) have "parse_inv (seen, doms, cfg_clusters cfg)"
  proof (rule fold_try_inv)
    show "parse_inv ({}, Map.empty, [])" by (simp add: parse_inv_def specs_ok_def)
  qed (rule parse_cluster_inv)
  then show ?thesis by (simp add: parse_inv_def)
qed

lemma parse_config_names:
  assumes "(parse_config U decoded :: 'e config_error + config) = Inr cfg"
  shows "\<exists>raw. decoded = Inr raw \<and> map cs_name (cfg_clusters cfg) = map rc_name (raw_clusters raw)"
proof -
  obtain raw seen doms where "decoded = Inr raw"
    "(fold_try (parse_cluster U (cfg_talos cfg)) ({}, Map.empty, []) (raw_clusters raw) :: 'e config_error + parse_state)
       = Inr (seen, doms, cfg_clusters cfg)"
    by (rule parse_config_Inr [OF assms])
  then show ?thesis using parse_clusters_names by fastforce
qed

subsection \<open>Sizes\<close>

lemma itoa_not_suffix: "0 \<le> n \<Longrightarrow> \<not> has_suffix (itoa n @ ''MiB'') ''GiB''"
  by (simp add: has_suffix_def)

lemma parse_size_printed:
  assumes "0 < n"
  shows "in_i64 n \<Longrightarrow> parse_size_mib (itoa n @ ''GiB'') = Inr (i64 (n * 1024))"
    and "in_i64 n \<Longrightarrow> parse_size_mib (itoa n @ ''MiB'') = Inr n"
  using assms
  by (simp_all add: parse_size_mib_def atoi_itoa itoa_not_suffix i64_simps)

subsection \<open>Properties\<close>

text \<open>C28: A parsed configuration has one specification per described cluster, in order; their names
  are valid and distinct, their effective domains canonical and distinct, each asks for at least
  one control plane and no negative number of workers, a known hypervisor, and a well-formed
  intent.\<close>

theorem parsed_config_well_formed:
  assumes "(parse_config U decoded :: 'e config_error + config) = Inr cfg"
  shows "specs_ok (cfg_clusters cfg)
    \<and> (\<exists>raw. decoded = Inr raw \<and> map cs_name (cfg_clusters cfg) = map rc_name (raw_clusters raw))"
  using parse_config_ok [OF assms] parse_config_names [OF assms] by blast

definition sample_raw_cluster :: raw_cluster where
  "sample_raw_cluster =
     \<lparr>rc_name = ''lab'', rc_hypervisor = [], rc_control_planes = None, rc_workers = Some 1,
      rc_intent = no_input, rc_domain = [], rc_allow_unsafe_domain = False,
      rc_node = \<lparr>rn_memory = ''4GiB'', rn_cpus = 0, rn_disk_size = []\<rparr>,
      rc_control_plane = None, rc_worker = None, rc_talos = None\<rparr>"

definition sample_raw :: raw_config where
  "sample_raw =
     \<lparr>raw_version = Some 1, raw_file_talos = \<lparr>rt_version = [], rt_schematic = [], rt_extensions = None\<rparr>,
      raw_clusters = [sample_raw_cluster, sample_raw_cluster\<lparr>rc_name := ''prod''\<rparr>]\<rparr>"

theorem parsed_config_well_formed_witness:
  "\<exists>cfg. (parse_config id (Inr sample_raw) :: unit config_error + config) = Inr cfg
     \<and> map cs_name (cfg_clusters cfg) = [''lab'', ''prod'']"
proof -
  have "\<not> isl (parse_config id (Inr sample_raw) :: unit config_error + config)" by code_simp
  then obtain cfg where c: "(parse_config id (Inr sample_raw) :: unit config_error + config) = Inr cfg"
    by (cases "parse_config id (Inr sample_raw) :: unit config_error + config") auto
  from parsed_config_well_formed [OF c] c show ?thesis
    by (simp add: sample_raw_def sample_raw_cluster_def)
qed


end
