(* ===== verification/Go_Binary.thy ===== *)
theory Go_Binary
  imports Go_Hash
begin

text \<open>
  Network byte order, the part of \<^verbatim>\<open>encoding/binary\<close> the DNS messages and the frame router use:
  reading and writing sixteen-bit fields of a list of bytes.
\<close>

type_synonym u16 = "16 word"

definition be16 :: "byte list \<Rightarrow> nat \<Rightarrow> u16" where
  "be16 m i = push_bit 8 (ucast (m ! i)) OR ucast (m ! Suc i)"

definition bytes16 :: "u16 \<Rightarrow> byte list" where
  "bytes16 w = [ucast (drop_bit 8 w), ucast w]"

definition put16 :: "byte list \<Rightarrow> nat \<Rightarrow> u16 \<Rightarrow> byte list" where
  "put16 m i w = m[i := ucast (drop_bit 8 w), Suc i := ucast w]"

subsection \<open>Sixteen-bit fields\<close>

lemma be16_bytes: "push_bit 8 (ucast (ucast (drop_bit 8 w) :: byte)) OR ucast (ucast w :: byte) = (w :: u16)"
  by (rule bit_word_eqI) (auto simp: bit_simps)

lemma be16_put16: "Suc i < length m \<Longrightarrow> be16 (put16 m i w) i = w"
  by (simp add: be16_def put16_def be16_bytes)

lemma be16_put16_other: "Suc i < j \<or> Suc j < i \<Longrightarrow> be16 (put16 m i w) j = be16 m j"
  by (auto simp: be16_def put16_def)

lemma length_put16 [simp]: "length (put16 m i w) = length m"
  by (simp add: put16_def)

lemma be16_append: "Suc i < length m \<Longrightarrow> be16 (m @ r) i = be16 m i"
  by (simp add: be16_def nth_append)

lemma be16_bytes16: "be16 (m @ bytes16 w @ r) (length m) = w"
  by (simp add: be16_def bytes16_def nth_append be16_bytes)

end
