(* ===== verification/Dns_Message.thy ===== *)
theory Dns_Message
  imports Go_Binary
begin

text \<open>
  DNS messages, \<^verbatim>\<open>src/internal/dns/message.go\<close>: names and questions on the wire, answers with
  their flags, counts and authority section, and the probe's reading of an answer. A message is
  a list of bytes; sixteen-bit fields are words in network order.
\<close>

subsection \<open>Fields\<close>

definition typeA :: u16 where "typeA = 1"
definition typeSOA :: u16 where "typeSOA = 6"
definition classIN :: u16 where "classIN = 1"
definition negativeTTL :: u32 where "negativeTTL = 5"
definition flagRecursionAvailable :: u16 where "flagRecursionAvailable = 0x0080"

record question =
  q_name :: string
  q_type :: u16
  q_class :: u16
  q_end :: nat

datatype dns_error = NotOneQuestion | TruncatedName | InvalidLabel | TruncatedQuestion
  | InvalidResponse | InvalidAnswer | UnencodableName

subsection \<open>Encoding\<close>

fun encode_labels :: "string list \<Rightarrow> byte list option" where
  "encode_labels [] = Some [0]"
| "encode_labels (label # labels) =
     (if length label = 0 \<or> length label > 63 then None
      else map_option (\<lambda>rest. word_of_nat (length label) # map byte_of_char label @ rest)
             (encode_labels labels))"

definition encode_name :: "string \<Rightarrow> byte list option" where
  "encode_name name = encode_labels (split_on (CHR ''.'') (trim_suffix name ''.''))"

definition encode_query :: "string \<Rightarrow> u16 \<Rightarrow> byte list option" where
  "encode_query name ident =
     (let message = put16 (put16 (put16 (replicate 12 0) 0 ident) 2 0x0100) 4 1 in
      map_option (\<lambda>encoded. message @ encoded @ bytes16 typeA @ bytes16 classIN) (encode_name name))"

subsection \<open>Questions\<close>

text \<open>The loop over labels works on the part of the message after the current offset.\<close>

function parse_labels :: "byte list \<Rightarrow> dns_error + string list \<times> byte list" where
  "parse_labels [] = Inl TruncatedName"
| "parse_labels (l # rest) =
     (if l = 0 then Inr ([], rest)
      else if unat l > 63 \<or> unat l > length rest then Inl InvalidLabel
      else try_bind (parse_labels (drop (unat l) rest)) (\<lambda>(labels, end).
        Inr (map char_of_byte (take (unat l) rest) # labels, end)))"
  by pat_completeness auto
termination by (relation "measure length") auto

declare parse_labels.simps [simp del]

definition parse_question :: "byte list \<Rightarrow> dns_error + question" where
  "parse_question message =
     (if length message < 12 \<or> be16 message 4 \<noteq> 1 then Inl NotOneQuestion
      else try_bind (parse_labels (drop 12 message)) (\<lambda>(labels, rest).
        let offset = length message - length rest in
        if offset + 4 > length message then Inl TruncatedQuestion
        else Inr \<lparr>q_name = join ''.'' labels, q_type = be16 message offset,
                  q_class = be16 message (offset + 2), q_end = offset + 4\<rparr>))"

subsection \<open>Answers\<close>

definition authority_soa :: "string \<Rightarrow> byte list option" where
  "authority_soa zone =
     (case encode_name zone of
        None \<Rightarrow> None
      | Some owner \<Rightarrow>
         (case encode_name (''hostmaster.'' @ zone) of
            None \<Rightarrow> None
          | Some mailbox \<Rightarrow>
             (let rdata = owner @ mailbox @ put32 1 @ put32 3600 @ put32 600 @ put32 86400
                          @ put32 negativeTTL
              in Some (owner @ bytes16 typeSOA @ bytes16 classIN @ put32 negativeTTL
                       @ bytes16 (word_of_nat (length rdata)) @ rdata))))"

text \<open>The header both kinds of answer share: the query up to the end of its question, new flags,
  one question and no records.\<close>

definition answer_header :: "byte list \<Rightarrow> nat \<Rightarrow> u16 \<Rightarrow> byte list" where
  "answer_header query end flags =
     put16 (put16 (put16 (put16 (put16 (take end query) 2 flags) 4 1) 6 0) 8 0) 10 0"

definition answer :: "byte list \<Rightarrow> (string \<Rightarrow> ip) \<Rightarrow> string \<Rightarrow> dns_error + byte list" where
  "answer query lookup zone =
     try_bind (parse_question query) (\<lambda>q.
       let ip = to4 (lookup (q_name q));
           matched = (q_type q = typeA \<and> q_class q = classIN \<and> ip \<noteq> []);
           name_exists = (ip \<noteq> []);
           flags = 0x8400 OR flagRecursionAvailable OR (be16 query 2 AND 0x0100);
           flags = (if \<not> matched \<and> \<not> name_exists then flags OR 3 else flags);
           response = answer_header query (q_end q) flags
       in if \<not> matched then
            (if zone = [] then Inr response
             else (case authority_soa zone of
                 None \<Rightarrow> Inr response
               | Some soa \<Rightarrow> Inr (put16 response 8 1 @ soa)))
          else Inr (put16 response 6 1 @
                 [0xc0, 0x0c, 0, 1, 0, 1, 0, 0, 0, 30, 0, 4] @ ip))"

definition error_answer :: "byte list \<Rightarrow> u16 \<Rightarrow> dns_error + byte list" where
  "error_answer query rcode =
     try_bind (parse_question query) (\<lambda>q.
       let flags = 0x8000 OR flagRecursionAvailable OR (be16 query 2 AND 0x0100) OR (rcode AND 0xf)
       in Inr (answer_header query (q_end q) flags))"

text \<open>The probe's reading: the address of the first answer, if there is one, and the response
  code. \<^verbatim>\<open>net.IPv4\<close> builds the sixteen-byte form.\<close>

definition parse_answer_ip :: "byte list \<Rightarrow> u16 \<Rightarrow> dns_error + ip \<times> nat" where
  "parse_answer_ip message ident =
     (if length message < 12 \<or> be16 message 0 \<noteq> ident \<or> be16 message 2 AND 0x8000 = 0
      then Inl InvalidResponse
      else let rcode = unat (be16 message 2 AND 0xf) in
        try_bind (parse_question message) (\<lambda>q.
          if be16 message 6 = 0 then Inr ([], rcode)
          else let offset = q_end q in
            if offset + 16 > length message \<or> message ! offset \<noteq> 0xc0
               \<or> be16 message (offset + 2) \<noteq> typeA \<or> be16 message (offset + 10) \<noteq> 4
            then Inl InvalidAnswer
            else Inr (v4_in_v6 @ [message ! (offset + 12), message ! (offset + 13),
                                  message ! (offset + 14), message ! (offset + 15)], rcode)))"

lemma drop_put16: "Suc i < n \<Longrightarrow> drop n (put16 m i w) = drop n m"
  by (simp add: put16_def)

lemmas be16_simps = be16_put16 be16_put16_other be16_append

subsection \<open>Names\<close>

lemma char_byte_char [simp]: "char_of_byte (byte_of_char c) = c"
proof -
  have "unat (word_of_nat (of_char c) :: byte) = of_char c"
    by (simp add: unat_of_nat)
  then show ?thesis by (simp add: char_of_byte_def byte_of_char_def)
qed

lemma parse_labels_encode:
  "encode_labels ls = Some e \<Longrightarrow> parse_labels (e @ t) = Inr (ls, t)"
proof (induction ls arbitrary: e)
  case (Cons l ls)
  then obtain rest where rest: "encode_labels ls = Some rest" "length l \<noteq> 0" "length l \<le> 63"
    "e = word_of_nat (length l) # map byte_of_char l @ rest"
    by (auto split: if_splits)
  have u: "unat (word_of_nat (length l) :: byte) = length l"
    using rest(3) by (simp add: unat_of_nat)
  then have "word_of_nat (length l) \<noteq> (0 :: byte)" using rest(2) by (metis unat_0)
  then show ?case
    using Cons.IH [OF rest(1)] rest(3) u
    by (simp add: rest(4) parse_labels.simps comp_def)
qed (simp add: parse_labels.simps)

lemma encode_query_parse:
  assumes "encode_query name ident = Some m"
  shows "parse_question m = Inr \<lparr>q_name = trim_suffix name ''.'', q_type = typeA, q_class = classIN, q_end = length m\<rparr>"
    and "be16 m 0 = ident"
proof -
  let ?h = "put16 (put16 (put16 (replicate 12 0) 0 ident) 2 0x0100) 4 1 :: byte list"
  let ?ls = "split_on (CHR ''.'') (trim_suffix name ''.'')"
  obtain e where e: "encode_labels ?ls = Some e" and m: "m = ?h @ e @ bytes16 typeA @ bytes16 classIN"
    using assms by (auto simp: encode_query_def encode_name_def Let_def)
  have l: "parse_labels (drop 12 m) = Inr (?ls, bytes16 typeA @ bytes16 classIN)"
    using parse_labels_encode [OF e] by (simp add: m)
  have h: "be16 m 4 = 1" "be16 m 0 = ident" by (simp_all add: m be16_simps)
  have t: "be16 m (12 + length e) = typeA" "be16 m (12 + length e + 2) = classIN"
    using be16_bytes16 [of "?h @ e" typeA] be16_bytes16 [of "?h @ e @ bytes16 typeA" classIN "[]"]
    by (simp_all add: m bytes16_def ac_simps)
  have "length m = 12 + length e + 4" by (simp add: m bytes16_def)
  then show "parse_question m = Inr \<lparr>q_name = trim_suffix name ''.'', q_type = typeA, q_class = classIN, q_end = length m\<rparr>"
    using h l t join_split_on [of "CHR ''.''" "trim_suffix name ''.''"]
    by (simp add: parse_question_def bytes16_def)
  show "be16 m 0 = ident" by (rule h)
qed

subsection \<open>A question reads the same in every message that carries it\<close>

lemma parse_labels_local:
  "parse_labels m = Inr (ls, rest) \<Longrightarrow> \<exists>pre. m = pre @ rest \<and> (\<forall>t. parse_labels (pre @ t) = Inr (ls, t))"
proof (induction m arbitrary: ls rule: parse_labels.induct)
  case (2 l r)
  show ?case
  proof (cases "l = 0")
    case True
    then show ?thesis using 2(2) by (auto simp: parse_labels.simps intro!: exI [of _ "[0]"])
  next
    case False
    then obtain ls' where ok: "unat l \<le> 63" "unat l \<le> length r"
      and p: "parse_labels (drop (unat l) r) = Inr (ls', rest)" and ls: "ls = map char_of_byte (take (unat l) r) # ls'"
      using 2(2) by (auto simp: parse_labels.simps try_bind_eq_Inr split: if_splits)
    obtain pre where pre: "drop (unat l) r = pre @ rest" "\<And>t. parse_labels (pre @ t) = Inr (ls', t)"
      using 2(1) [OF False _ p] ok by auto
    have "l # r = (l # take (unat l) r @ pre) @ rest"
      using pre(1) by (simp flip: append_assoc) (metis append_take_drop_id append.assoc)
    moreover have "parse_labels ((l # take (unat l) r @ pre) @ t) = Inr (ls, t)" for t
      using False ok pre(2) by (simp add: parse_labels.simps ls min_def)
    ultimately show ?thesis by blast
  qed
qed (simp add: parse_labels.simps)

lemma be16_drop: "n \<le> i \<Longrightarrow> n \<le> length m \<Longrightarrow> be16 m i = be16 (drop n m) (i - n)"
  by (simp add: be16_def Suc_diff_le)

lemma be16_take: "Suc i < n \<Longrightarrow> n \<le> length m \<Longrightarrow> be16 (take n m @ t) i = be16 m i"
  by (simp add: be16_def nth_append)

text \<open>The layout of a message with a question: header, labels, type and class, the rest.\<close>

lemma parse_question_Inr:
  assumes "parse_question m = Inr q"
  obtains pre rest ls where "drop 12 m = pre @ rest" "4 \<le> length rest" "q_end q = 12 + length pre + 4"
    "12 \<le> length m" "be16 m 4 = 1" "q_type q = be16 rest 0" "q_class q = be16 rest 2"
    "q_name q = join ''.'' ls" "\<forall>t. parse_labels (pre @ t) = Inr (ls, t)"
proof -
  obtain ls rest where p: "parse_labels (drop 12 m) = Inr (ls, rest)" and m: "12 \<le> length m" "be16 m 4 = 1"
    and len: "length m - length rest + 4 \<le> length m"
    and q: "q = \<lparr>q_name = join ''.'' ls, q_type = be16 m (length m - length rest),
             q_class = be16 m (length m - length rest + 2), q_end = length m - length rest + 4\<rparr>"
    using assms by (auto simp: parse_question_def try_bind_eq_Inr Let_def split: if_splits)
  obtain pre where pre: "drop 12 m = pre @ rest" "\<forall>t. parse_labels (pre @ t) = Inr (ls, t)"
    using parse_labels_local [OF p] by blast
  have l: "length m = 12 + length pre + length rest"
    using arg_cong [OF pre(1), of length] m(1) by simp
  have be: "be16 m (12 + length pre + k) = be16 rest k" for k
    using be16_drop [of 12 "12 + length pre + k" m] m(1) pre(1)
    by (simp add: be16_def nth_append)
  show ?thesis
    by (rule that [OF pre(1) _ _ m _ _ _ pre(2)]) (use l len be [of 0] be [of 2] in \<open>simp_all add: q\<close>)
qed

lemma parse_question_same:
  assumes "parse_question m = Inr q" "12 \<le> length m'" "be16 m' 4 = 1"
    "drop 12 m' = drop 12 (take (q_end q) m) @ t"
  shows "parse_question m' = Inr q"
proof -
  obtain pre rest ls where l: "drop 12 m = pre @ rest" "4 \<le> length rest" "q_end q = 12 + length pre + 4"
    "12 \<le> length m" "be16 m 4 = 1" "q_type q = be16 rest 0" "q_class q = be16 rest 2"
    "q_name q = join ''.'' ls" "\<forall>t. parse_labels (pre @ t) = Inr (ls, t)"
    by (rule parse_question_Inr [OF assms(1)])
  have "drop 12 (take (q_end q) m) = take (length pre + 4) (drop 12 m)"
    by (simp add: l(3) drop_take add.commute)
  then have d: "drop 12 m' = pre @ take 4 rest @ t" using assms(4) l(1) by simp
  then have p: "parse_labels (drop 12 m') = Inr (ls, take 4 rest @ t)" using l(9) by simp
  have len: "length m' = 12 + length pre + 4 + length t"
    using arg_cong [OF d, of length] assms(2) l(2) by simp
  have be: "be16 m' (12 + length pre + k) = be16 rest k" if "k \<le> 2" for k
    using be16_drop [of 12 "12 + length pre + k" m'] assms(2) d be16_take [of k 4 rest t] l(2) that
    by (simp add: be16_def nth_append)
  show ?thesis
    using p len be [of 0] be [of 2] assms(2,3) l(2,3,6,7,8)
    by (cases q) (simp add: parse_question_def)
qed

lemma question_bounds:
  assumes "parse_question m = Inr q"
  shows "17 \<le> q_end q" "q_end q \<le> length m"
proof -
  obtain pre rest ls where l: "drop 12 m = pre @ rest" "4 \<le> length rest" "q_end q = 12 + length pre + 4"
    "12 \<le> length m" "be16 m 4 = 1" "q_type q = be16 rest 0" "q_class q = be16 rest 2"
    "q_name q = join ''.'' ls" "\<forall>t. parse_labels (pre @ t) = Inr (ls, t)"
    by (rule parse_question_Inr [OF assms])
  have "length m - 12 = length pre + length rest" using arg_cong [OF l(1), of length] by simp
  moreover have "pre \<noteq> []" using l(9) by (auto simp: parse_labels.simps dest: spec [of _ "[]"])
  then have "1 \<le> length pre" by (cases pre) simp_all
  ultimately show "17 \<le> q_end q" "q_end q \<le> length m" using l(2-4) by simp_all
qed

subsection \<open>Answers\<close>

lemma answer_header_fields:
  assumes "parse_question m = Inr q"
  shows "length (answer_header m (q_end q) f) = q_end q" "be16 (answer_header m (q_end q) f) 0 = be16 m 0"
    "be16 (answer_header m (q_end q) f) 2 = f" "be16 (answer_header m (q_end q) f) 4 = 1"
    "be16 (answer_header m (q_end q) f) 6 = 0" "be16 (answer_header m (q_end q) f) 8 = 0"
    "be16 (answer_header m (q_end q) f) 10 = 0"
    "drop 12 (answer_header m (q_end q) f) = drop 12 (take (q_end q) m)"
  using question_bounds [OF assms] be16_take [of 0 "q_end q" m "[]"]
  by (simp_all add: answer_header_def be16_simps drop_put16)

lemma answer_header_question:
  assumes "parse_question m = Inr q" "i = 6 \<or> i = 8"
  shows "parse_question (put16 (answer_header m (q_end q) f) i w @ t) = Inr q"
  using answer_header_fields [OF assms(1), of f] question_bounds [OF assms(1)] assms(2)
  by (intro parse_question_same [OF assms(1)]) (auto simp: be16_simps drop_put16)

lemma answer_flags:
  fixes x :: u16
  defines "f \<equiv> 0x8400 OR flagRecursionAvailable OR (x AND 0x0100)"
  shows "f AND 0x8000 \<noteq> 0" "(f OR 3) AND 0x8000 \<noteq> 0" "f AND 0xf = 0" "(f OR 3) AND 0xf = 3"
  by (simp_all add: f_def flagRecursionAvailable_def bit.conj_disj_distrib2 and.assoc)

text \<open>What the probe reads from an answer: the address when the question is for an A record of a
  known name; otherwise no address, with response code 3 exactly for an unknown name.\<close>

lemma parse_answer:
  fixes lookup zone
  assumes q: "parse_question m = Inr q"
  defines "ip \<equiv> to4 (lookup (q_name q))"
  shows "\<exists>r. answer m lookup zone = Inr r \<and>
     parse_answer_ip r (be16 m 0) =
       Inr (if q_type q = typeA \<and> q_class q = classIN \<and> ip \<noteq> [] then v4_in_v6 @ ip else [],
            if ip = [] then 3 else 0)"
proof -
  let ?f = "0x8400 OR flagRecursionAvailable OR (be16 m 2 AND 0x0100)"
  let ?h = "\<lambda>f. answer_header m (q_end q) f"
  note h = answer_header_fields [OF q] and b = question_bounds [OF q]
  show ?thesis
  proof (cases "q_type q = typeA \<and> q_class q = classIN \<and> ip \<noteq> []")
    case True
    then have "length ip = 4" using length_to4 by (auto simp: ip_def)
    then obtain a c d e where ip: "ip = [a, c, d, e]" by (auto simp: numeral_eq_Suc length_Suc_conv)
    let ?r = "put16 (?h ?f) 6 1 @ [0xc0, 0x0c, 0, 1, 0, 1, 0, 0, 0, 30, 0, 4] @ ip"
    have "answer m lookup zone = Inr ?r"
      using True q by (simp add: answer_def ip_def [symmetric] Let_def)
    moreover have "parse_question ?r = Inr q" using answer_header_question [OF q, of 6] by simp
    then have "parse_answer_ip ?r (be16 m 0) = Inr (v4_in_v6 @ ip, 0)"
      using h b answer_flags [of "be16 m 2"]
      by (simp add: parse_answer_ip_def be16_simps ip nth_append)
         (simp add: be16_def nth_append typeA_def)
    ultimately show ?thesis using True by simp
  next
    case False
    let ?g = "if ip = [] then ?f OR 3 else ?f"
    have g: "?g AND 0x8000 \<noteq> 0" "unat (?g AND 0xf) = (if ip = [] then 3 else 0)"
      using answer_flags [of "be16 m 2"] by simp_all
    have "answer m lookup zone = Inr (?h ?g) \<or> (\<exists>soa. answer m lookup zone = Inr (put16 (?h ?g) 8 1 @ soa))"
      using False q by (cases "zone = []"; cases "authority_soa zone") (auto simp: answer_def ip_def [symmetric] Let_def)
    then obtain r t where r: "answer m lookup zone = Inr r" "r = ?h ?g \<or> r = put16 (?h ?g) 8 1 @ t"
      by blast
    have "parse_question r = Inr q" "be16 r 6 = 0" "be16 r 0 = be16 m 0" "be16 r 2 = ?g" "12 \<le> length r"
      using r(2) answer_header_question [OF q, of 8] h b parse_question_same [OF q, of "?h ?g" "[]"]
      by (auto simp: be16_simps)
    then show ?thesis using r(1) g False by (auto simp: parse_answer_ip_def)
  qed
qed

subsection \<open>Properties\<close>

text \<open>C30: An answer to any well-formed question is read back by the probe as it was meant: the looked-up
  address exactly for an A question of class IN on a known name, and otherwise no address; the
  response code is 3 exactly for a name with no address, so a known name asked for another type is
  not denied.\<close>

theorem answer_roundtrip:
  assumes "parse_question m = Inr q"
  shows "\<exists>r. answer m lookup zone = Inr r \<and>
     parse_answer_ip r (be16 m 0) =
       Inr (if q_type q = typeA \<and> q_class q = classIN \<and> to4 (lookup (q_name q)) \<noteq> []
              then v4_in_v6 @ to4 (lookup (q_name q)) else [],
            if to4 (lookup (q_name q)) = [] then 3 else 0)"
  by (rule parse_answer [OF assms])

theorem answer_roundtrip_witness:
  "\<exists>m r. encode_query ''a.k8s.test'' 7 = Some m \<and> answer m (\<lambda>_. []) ''k8s.test'' = Inr r
     \<and> parse_answer_ip r 7 = Inr ([], 3)"
proof -
  obtain m where m: "encode_query ''a.k8s.test'' 7 = Some m"
    by (simp add: encode_query_def encode_name_def Let_def trim_suffix_def has_suffix_def)
  note p = encode_query_parse [OF m]
  from answer_roundtrip [OF p(1), of "\<lambda>_. []" "''k8s.test''"] m p(2) show ?thesis by auto
qed

text \<open>Reading a question never leaves the message: the end of the question lies within it, after
  the header, the label terminator, the type and the class.\<close>

lemma question_within_message:
  assumes "parse_question m = Inr q"
  shows "17 \<le> q_end q \<and> q_end q \<le> length m"
  using question_bounds [OF assms] by blast

end
