(* ===== verification/Dns_Server.thy ===== *)
theory Dns_Server
  imports Dns_Message Domains
begin

text \<open>
  Which names the resolver owns and what it answers: \<^verbatim>\<open>src/internal/dns/resolver.go\<close> (cluster
  records), \<^verbatim>\<open>server.go\<close> (authority, zones, the response to one datagram, the serve loop, the
  probe) and the pure part of \<^verbatim>\<open>forward.go\<close> (the host's name servers, the check of a forwarded
  response, the order of attempts). Sockets are parameters: what an exchange with an address
  returns, what the next read and write give.
\<close>

subsection \<open>Cluster records\<close>

definition under :: "string \<Rightarrow> string \<Rightarrow> bool" where
  "under name domain \<longleftrightarrow> name = domain \<or> has_suffix name (''.'' @ domain)"

definition owner_step ::
    "(string \<Rightarrow> string) \<Rightarrow> string \<Rightarrow> cluster option \<times> string \<Rightarrow> cluster \<Rightarrow> cluster option \<times> string" where
  "owner_step U name st item = (case st of (owner, owner_domain) \<Rightarrow>
     (let domain = to_lower U (effective_domain item) in
      if length domain \<le> length owner_domain then (owner, owner_domain)
      else if under name domain then (Some item, domain)
      else (owner, owner_domain)))"

fun node_record ::
    "(string \<Rightarrow> string) \<Rightarrow> string \<Rightarrow> string \<Rightarrow> (string \<Rightarrow> int \<Rightarrow> string) \<Rightarrow> int \<Rightarrow> node list \<Rightarrow> ip option" where
  "node_record U name owner_domain lease subnet_index [] = None"
| "node_record U name owner_domain lease subnet_index (node # nodes) =
     (if name = to_lower U (node_name node) @ ''.'' @ owner_domain
      then Some (to4 (parse_ip (lease (node_mac node) subnet_index)))
      else node_record U name owner_domain lease subnet_index nodes)"

definition resolve_name ::
    "(string \<Rightarrow> string) \<Rightarrow> string \<Rightarrow> cluster list \<Rightarrow> (string \<Rightarrow> int \<Rightarrow> string) \<Rightarrow> ip" where
  "resolve_name U name0 clusters lease =
     (let name = to_lower U (trim_suffix name0 ''.'') in
      case foldl (owner_step U name) (None, []) clusters of
        (None, _) \<Rightarrow> []
      | (Some owner, owner_domain) \<Rightarrow>
          if name = owner_domain then []
          else if cl_subnet_index owner < 0 \<or> cl_subnet_index owner > MaxSubnetIndex then []
          else (case node_record U name owner_domain lease (cl_subnet_index owner) (cl_nodes owner) of
              Some ip \<Rightarrow> ip
            | None \<Rightarrow> v4_in_v6 @ [172, 30, word_of_int (cl_subnet_index owner), 200]))"

subsection \<open>Authority\<close>

text \<open>The domain source is asked at query time; it may be missing.\<close>

definition authority :: "(string \<Rightarrow> string) \<Rightarrow> string list option \<Rightarrow> string \<Rightarrow> bool" where
  "authority U domains name0 =
     (let name = to_lower U (trim_suffix name0 ''.'') in
      if under name DefaultDomainSuffix then True
      else (case domains of
          None \<Rightarrow> False
        | Some ds \<Rightarrow> list_ex (\<lambda>domain. domain = ''*'' \<or> under name domain) ds))"

fun zone_from :: "(string \<Rightarrow> bool) \<Rightarrow> string list \<Rightarrow> nat \<Rightarrow> string option" where
  "zone_from auth labels 0 = None"
| "zone_from auth labels (Suc i) =
     (let candidate = join ''.'' (drop (Suc i) labels) in
      if auth candidate then Some candidate else zone_from auth labels i)"

definition zone :: "(string \<Rightarrow> string) \<Rightarrow> (string \<Rightarrow> bool) \<Rightarrow> string \<Rightarrow> string" where
  "zone U auth name0 =
     (let name = to_lower U (trim_suffix name0 ''.'');
          labels = split_on (CHR ''.'') name
      in case zone_from auth labels (length labels - 2) of
           Some candidate \<Rightarrow> candidate
         | None \<Rightarrow> name)"

subsection \<open>The server\<close>

record 'e server =
  srv_lookup :: "string \<Rightarrow> ip"
  srv_authoritative :: "string \<Rightarrow> bool"
  srv_forward :: "(byte list \<Rightarrow> 'e + byte list) option"

definition response :: "(string \<Rightarrow> string) \<Rightarrow> 'e server \<Rightarrow> byte list \<Rightarrow> dns_error + byte list" where
  "response U s query =
     try_bind (parse_question query) (\<lambda>q.
       if srv_authoritative s (q_name q)
       then answer query (srv_lookup s) (zone U (srv_authoritative s) (q_name q))
       else (case srv_forward s of
           None \<Rightarrow> answer query (srv_lookup s) []
         | Some forward \<Rightarrow>
            (case forward query of Inl _ \<Rightarrow> error_answer query 2 | Inr r \<Rightarrow> Inr r)))"

text \<open>The serve loop over what the socket delivers: datagrams with the outcome of writing the
  answer back (used only when there is an answer), until a read fails.\<close>

datatype ('p, 'e) read_event =
    Datagram "byte list" 'p "'e option"
  | ReadClosed
  | ReadError 'e

datatype 'e serve_end = Closed | ReadDnsRequest 'e | WriteDnsResponse 'e | StillServing

fun serve ::
    "(string \<Rightarrow> string) \<Rightarrow> ('e \<Rightarrow> bool) \<Rightarrow> 'f server \<Rightarrow> ('p, 'e) read_event list
     \<Rightarrow> (byte list \<times> 'p) list \<times> 'e serve_end" where
  "serve U closed s [] = ([], StillServing)"
| "serve U closed s (ReadClosed # events) = ([], Closed)"
| "serve U closed s (ReadError e # events) = ([], ReadDnsRequest e)"
| "serve U closed s (Datagram query peer write # events) =
     (case response U s query of
        Inl _ \<Rightarrow> serve U closed s events
      | Inr r \<Rightarrow>
         (case write of
            Some e \<Rightarrow>
              if \<not> closed e then ([], WriteDnsResponse e) else serve U closed s events
          | None \<Rightarrow>
             (case serve U closed s events of (sent, end) \<Rightarrow> ((r, peer) # sent, end))))"

text \<open>The probe of a running server: the outcome of the exchange is a parameter.\<close>

datatype 'e probe_error = ProbeNetwork 'e | ProbeMessage dns_error | ProbeRcode nat

definition probe :: "(byte list \<Rightarrow> 'e + byte list) \<Rightarrow> 'e probe_error + unit" where
  "probe exchange =
     (case encode_query ''doctor.invalid.k8s.test'' 0x7462 of
        None \<Rightarrow> Inl (ProbeMessage UnencodableName)
      | Some query \<Rightarrow>
         (case exchange query of
            Inl e \<Rightarrow> Inl (ProbeNetwork e)
          | Inr reply \<Rightarrow>
             (case parse_answer_ip reply 0x7462 of
                Inl e \<Rightarrow> Inl (ProbeMessage e)
              | Inr (_, rcode) \<Rightarrow>
                  if rcode \<noteq> 0 \<and> rcode \<noteq> 3 then Inl (ProbeRcode rcode) else Inr ())))"

subsection \<open>Forwarding\<close>

definition resolver_name_servers :: "string \<Rightarrow> string list" where
  "resolver_name_servers content =
     concat (map (\<lambda>line. let fields = str_fields line in
         if length fields < 2 \<or> fields ! 0 \<noteq> ''nameserver'' \<or> parse_ip (fields ! 1) = [] then []
         else [fields ! 1])
       (scan_lines content))"

datatype 'e forward_error = NoResolverConfig | NoNameServers | AllFailed "(string \<times> 'e) list"

definition validate_forwarded_response :: "byte list \<Rightarrow> byte list \<Rightarrow> bool" where
  "validate_forwarded_response query reply \<longleftrightarrow>
     \<not> (length query < 2 \<or> length reply < 12 \<or> be16 reply 0 \<noteq> be16 query 0
        \<or> be16 reply 2 AND 0x8000 = 0)"

text \<open>One exchange: UDP first, TCP when the answer is truncated. Each transport delivers a reply or
  an error; its own validation turns a reply that does not belong to the query into one.\<close>

definition exchange_transport ::
    "(byte list \<Rightarrow> 'e + byte list) \<Rightarrow> 'e \<Rightarrow> byte list \<Rightarrow> 'e + byte list" where
  "exchange_transport transport invalid query =
     try_bind (transport query) (\<lambda>reply.
       if validate_forwarded_response query reply then Inr reply else Inl invalid)"

definition exchange_dns ::
    "(byte list \<Rightarrow> 'e + byte list) \<Rightarrow> (byte list \<Rightarrow> 'e + byte list) \<Rightarrow> 'e \<Rightarrow> 'e \<Rightarrow> byte list \<Rightarrow> 'e + byte list" where
  "exchange_dns udp tcp invalid too_large query =
     try_bind (exchange_transport udp invalid query) (\<lambda>reply.
       if be16 reply 2 AND 0x0200 = 0 then Inr reply
       else if length query > 65535 then Inl too_large
       else exchange_transport tcp invalid query)"

fun try_servers :: "(string \<Rightarrow> 'e + byte list) \<Rightarrow> (string \<times> 'e) list \<Rightarrow> string list \<Rightarrow> 'e forward_error + byte list" where
  "try_servers exchange failed [] = Inl (AllFailed failed)"
| "try_servers exchange failed (server # servers) =
     (case exchange server of
        Inr reply \<Rightarrow> Inr reply
      | Inl e \<Rightarrow> try_servers exchange (failed @ [(server, e)]) servers)"

definition system_forward ::
    "string option \<Rightarrow> (string \<Rightarrow> byte list \<Rightarrow> 'e + byte list) \<Rightarrow> byte list \<Rightarrow> 'e forward_error + byte list" where
  "system_forward resolv_conf exchange query =
     (case resolv_conf of
        None \<Rightarrow> Inl NoResolverConfig
      | Some content \<Rightarrow>
         (let servers = resolver_name_servers content in
          if servers = [] then Inl NoNameServers
          else try_servers (\<lambda>server. exchange server query) [] servers))"

subsection \<open>The longest matching domain owns a name\<close>

definition lower_domain :: "(string \<Rightarrow> string) \<Rightarrow> cluster \<Rightarrow> string" where
  "lower_domain U c = to_lower U (effective_domain c)"

definition claims :: "(string \<Rightarrow> string) \<Rightarrow> string \<Rightarrow> cluster \<Rightarrow> bool" where
  "claims U name c \<longleftrightarrow> lower_domain U c \<noteq> [] \<and> under name (lower_domain U c)"

definition owner_ok :: "(string \<Rightarrow> string) \<Rightarrow> string \<Rightarrow> cluster list \<Rightarrow> cluster option \<times> string \<Rightarrow> bool" where
  "owner_ok U name cs st = (case st of
      (None, d) \<Rightarrow> d = [] \<and> (\<forall>c\<in>set cs. \<not> claims U name c)
    | (Some c, d) \<Rightarrow> c \<in> set cs \<and> claims U name c \<and> d = lower_domain U c
        \<and> (\<forall>e\<in>set cs. claims U name e \<longrightarrow> length (lower_domain U e) \<le> length d))"

lemma owner_step_ok:
  assumes "owner_ok U name cs st"
  shows "owner_ok U name (cs @ [c]) (owner_step U name st c)"
  using assms
  by (cases st; cases "fst st")
     (auto simp: owner_ok_def owner_step_def Let_def claims_def lower_domain_def not_le)

lemma owner_fold_ok: "owner_ok U name cs (foldl (owner_step U name) (None, []) cs)"
  by (induction cs rule: rev_induct) (simp_all add: owner_step_ok, simp add: owner_ok_def)

lemma owner_fold_unique:
  assumes "c \<in> set cs" "claims U name c"
    and "\<forall>e\<in>set cs. claims U name e \<and> e \<noteq> c \<longrightarrow> length (lower_domain U e) < length (lower_domain U c)"
  shows "foldl (owner_step U name) (None, []) cs = (Some c, lower_domain U c)"
  using owner_fold_ok [of U name cs] assms
  by (auto simp: owner_ok_def split: prod.splits option.splits) (metis not_le)+

lemma resolve_owner:
  assumes "c \<in> set cs" "claims U (to_lower U (trim_suffix name ''.'')) c"
    and "\<forall>e\<in>set cs. claims U (to_lower U (trim_suffix name ''.'')) e \<and> e \<noteq> c \<longrightarrow>
           length (lower_domain U e) < length (lower_domain U c)"
  shows "resolve_name U name cs lease = resolve_name U name [c] lease"
  using owner_fold_unique [OF assms] owner_fold_unique [of c "[c]"] assms(2)
  by (simp add: resolve_name_def)

lemma resolve_unclaimed:
  assumes "\<forall>c\<in>set cs. \<not> claims U (to_lower U (trim_suffix name ''.'')) c"
  shows "resolve_name U name cs lease = []"
  using owner_fold_ok [of U "to_lower U (trim_suffix name ''.'')" cs] assms
  by (auto simp: resolve_name_def owner_ok_def Let_def split: prod.splits option.splits)

lemma node_record_Some:
  "node_record U name d lease si ns = Some a \<Longrightarrow> \<exists>n\<in>set ns. a = to4 (parse_ip (lease (node_mac n) si))"
  by (induction ns) (auto split: if_splits)

text \<open>Whatever is returned belongs to the owner: the lease of one of its nodes, or its ingress
  address.\<close>

lemma resolve_result:
  assumes "resolve_name U name cs lease = a" "a \<noteq> []"
  obtains c where "c \<in> set cs" "claims U (to_lower U (trim_suffix name ''.'')) c"
    "0 \<le> cl_subnet_index c" "cl_subnet_index c \<le> 255"
    "a = v4_in_v6 @ [172, 30, word_of_int (cl_subnet_index c), 200]
     \<or> (\<exists>n\<in>set (cl_nodes c). a = to4 (parse_ip (lease (node_mac n) (cl_subnet_index c))))"
proof -
  let ?n = "to_lower U (trim_suffix name ''.'')"
  obtain c d where o: "foldl (owner_step U ?n) (None, []) cs = (Some c, d)"
    using assms by (auto simp: resolve_name_def Let_def split: prod.splits option.splits)
  then have "c \<in> set cs" "claims U ?n c"
    using owner_fold_ok [of U ?n cs] by (simp_all add: owner_ok_def)
  moreover have "0 \<le> cl_subnet_index c" "cl_subnet_index c \<le> 255"
    "node_record U ?n d lease (cl_subnet_index c) (cl_nodes c) = Some a
     \<or> a = v4_in_v6 @ [172, 30, word_of_int (cl_subnet_index c), 200]"
    using assms o by (auto simp: resolve_name_def Let_def MaxSubnetIndex_def split: if_splits option.splits)
  ultimately show ?thesis using that node_record_Some by blast
qed

subsection \<open>Zones\<close>

text \<open>What the zone search relies on: a predicate on names that, with a name, claims every name
  below it.\<close>

locale name_authority =
  fixes auth :: "string \<Rightarrow> bool" and plain :: "string \<Rightarrow> bool"
  assumes auth_below: "plain (l @ ''.'' @ d) \<Longrightarrow> plain d \<Longrightarrow> auth d \<Longrightarrow> auth (l @ ''.'' @ d)"
begin

lemma auth_suffixes:
  assumes "i \<le> j" "j < length ls" "auth (join ''.'' (drop j ls))"
    and "\<forall>k<length ls. plain (join ''.'' (drop k ls))"
  shows "auth (join ''.'' (drop i ls))"
  using assms(1)
proof (induction rule: inc_induct)
  case (step n)
  have n: "n < length ls" using step(2) assms(2) by simp
  have "drop n ls = ls ! n # drop (Suc n) ls" "drop (Suc n) ls \<noteq> []"
    using n step(2) assms(2) by (simp_all add: Cons_nth_drop_Suc)
  then have "join ''.'' (drop n ls) = ls ! n @ ''.'' @ join ''.'' (drop (Suc n) ls)"
    by (simp add: join_Cons)
  then show ?case
    using auth_below [of "ls ! n" "join ''.'' (drop (Suc n) ls)"] assms(2,4) step n
    by (metis Suc_leI le_less_trans)
qed (rule assms(3))

text \<open>The zone found is the apex: of the candidates, exactly those at or below it are claimed.\<close>

lemma zone_from_apex:
  assumes "zone_from auth ls n = Some c" "n < length ls"
    and "\<forall>k<length ls. plain (join ''.'' (drop k ls))"
  shows "\<exists>i. 0 < i \<and> i \<le> n \<and> c = join ''.'' (drop i ls)
    \<and> (\<forall>j. 0 < j \<and> j \<le> n \<longrightarrow> (auth (join ''.'' (drop j ls)) \<longleftrightarrow> j \<le> i))"
  using assms(1,2)
proof (induction n)
  case (Suc n)
  show ?case
  proof (cases "auth (join ''.'' (drop (Suc n) ls))")
    case True
    then show ?thesis
      using Suc.prems auth_suffixes [OF _ Suc.prems(2) True assms(3)]
      by (intro exI [of _ "Suc n"]) simp
  next
    case False
    then obtain i where i: "0 < i" "i \<le> n" "c = join ''.'' (drop i ls)"
      "\<forall>j. 0 < j \<and> j \<le> n \<longrightarrow> (auth (join ''.'' (drop j ls)) \<longleftrightarrow> j \<le> i)"
      using Suc by (auto simp: Let_def)
    then show ?thesis using False by (intro exI [of _ i]) (auto simp: le_Suc_eq)
  qed
qed simp

end

text \<open>On names that are lower-case ASCII without a trailing dot the server's own predicate is such
  an authority.\<close>

definition plain_name :: "string \<Rightarrow> bool" where
  "plain_name n \<longleftrightarrow> list_all (\<lambda>c. is_ascii c \<and> ascii_lower c = c) n \<and> \<not> has_suffix n ''.''"

lemma plain_normal: "plain_name n \<Longrightarrow> to_lower U (trim_suffix n ''.'') = n"
proof -
  assume a: "plain_name n"
  then have "list_all is_ascii n" "map ascii_lower n = n"
    by (auto simp: plain_name_def list_all_iff map_idI)
  then show ?thesis using a by (simp add: plain_name_def trim_suffix_none to_lower_def)
qed

lemma under_below: "under d e \<Longrightarrow> under (l @ ''.'' @ d) e"
  by (auto simp: under_def has_suffix_iff)

interpretation server_authority: name_authority "authority U domains" plain_name for U domains
proof
  fix l d
  assume "plain_name (l @ ''.'' @ d)" "plain_name d" "authority U domains d"
  then show "authority U domains (l @ ''.'' @ d)"
    using plain_normal [of d U] plain_normal [of "l @ ''.'' @ d" U] under_below
    by (fastforce simp: authority_def Let_def list_ex_iff split: if_splits option.splits)
qed

text \<open>Names the server owns are never handed to the upstream resolver.\<close>

lemma response_authoritative:
  assumes "parse_question query = Inr q" "srv_authoritative s (q_name q)"
  shows "response U s query = answer query (srv_lookup s) (zone U (srv_authoritative s) (q_name q))"
  using assms by (simp add: response_def)

subsection \<open>Properties\<close>

text \<open>Among clusters with nested domains the longest matching one owns a name outright: the answer
  is the one that cluster alone would give, whatever the others hold. A name no domain covers has
  no address.\<close>

lemma longest_domain_owns:
  assumes "c \<in> set cs" "claims U (to_lower U (trim_suffix name ''.'')) c"
    and "\<forall>e\<in>set cs. claims U (to_lower U (trim_suffix name ''.'')) e \<and> e \<noteq> c \<longrightarrow>
           length (lower_domain U e) < length (lower_domain U c)"
  shows "resolve_name U name cs lease = resolve_name U name [c] lease"
  using assms by (rule resolve_owner)

definition outer_cluster :: cluster where
  "outer_cluster = zero_cluster\<lparr>cl_name := ''outer'', cl_domain := ''lab.test'', cl_subnet_index := 1\<rparr>"

definition inner_cluster :: cluster where
  "inner_cluster = zero_cluster\<lparr>cl_name := ''inner'', cl_domain := ''in.lab.test'', cl_subnet_index := 2\<rparr>"

text \<open>The zone whose SOA accompanies a miss is the apex: it is a proper suffix of the name with at
  least two labels, and of all such suffixes exactly those at or below it are claimed by the
  server's authority. (For a plain name: lower-case ASCII, no trailing dot at any cut.)\<close>

lemma zone_is_apex:
  assumes "zone_from (authority U domains) labels n = Some z" "n < length labels"
    and "\<forall>k<length labels. plain_name (join ''.'' (drop k labels))"
  shows "\<exists>i. 0 < i \<and> i \<le> n \<and> z = join ''.'' (drop i labels)
    \<and> (\<forall>j. 0 < j \<and> j \<le> n \<longrightarrow> (authority U domains (join ''.'' (drop j labels)) \<longleftrightarrow> j \<le> i))"
  using assms by (rule server_authority.zone_from_apex)



end
