(* ===== verification/Resolver_Set.thy ===== *)
theory Resolver_Set
  imports Go_Strings
begin

text \<open>
  Per-domain resolver files on macOS, \<^verbatim>\<open>src/internal/resolverset/resolverset.go\<close>: the plan of the
  files to create and to remove, over the observed directory as a map from file name to content.
\<close>

definition Marker :: string where "Marker = ''# managed by talosbox''"
definition SharedPath :: string where "SharedPath = ''/etc/resolver/k8s.test''"

abbreviation nl :: char where "nl \<equiv> CHR 0x0A"

definition resolver_content :: "int \<Rightarrow> string" where
  "resolver_content port = Marker @ [nl] @ ''nameserver 127.0.0.1'' @ [nl] @ ''port '' @ itoa port @ [nl]"

definition managed :: "string \<Rightarrow> bool" where
  "managed content = has_prefix content (Marker @ [nl])"

definition plan_files :: "string list \<Rightarrow> (string, string) gomap \<Rightarrow> int \<Rightarrow> string list \<times> string list" where
  "plan_files custom_domains observed port =
     (let want = resolver_content port;
          create = filter (\<lambda>domain. case map_of observed domain of
              None \<Rightarrow> True
            | Some content \<Rightarrow> managed content \<and> content \<noteq> want) custom_domains;
          remove = map fst (filter (\<lambda>(name, content). name \<notin> set custom_domains \<and> managed content) observed)
      in (sort create, sort remove))"

subsection \<open>Carrying out the plan\<close>

text \<open>What the installer makes of a plan: it writes the wanted content to the files to create and
  deletes those to remove.\<close>

definition apply_plan :: "int \<Rightarrow> string list \<times> string list \<Rightarrow> (string, string) gomap \<Rightarrow> (string, string) gomap" where
  "apply_plan port plan observed = (case plan of (create, remove) \<Rightarrow>
     foldl (\<lambda>m k. AList.delete k m)
       (foldl (\<lambda>m k. AList.update k (resolver_content port) m) observed create) remove)"

lemma managed_content [simp]: "managed (resolver_content port)"
  by (simp add: managed_def resolver_content_def has_prefix_iff)

lemma map_of_updates: "map_of (foldl (\<lambda>m k. AList.update k v m) m ks) x = (if x \<in> set ks then Some v else map_of m x)"
  by (induction ks arbitrary: m) auto

lemma map_of_deletes: "map_of (foldl (\<lambda>m k. AList.delete k m) m ks) x = (if x \<in> set ks then None else map_of m x)"
  by (induction ks arbitrary: m) auto

lemma in_create:
  "d \<in> set (fst (plan_files ds obs port)) \<longleftrightarrow>
     d \<in> set ds \<and> (\<forall>c. map_of obs d = Some c \<longrightarrow> managed c \<and> c \<noteq> resolver_content port)"
  by (auto simp: plan_files_def Let_def split: option.splits)

lemma in_remove:
  assumes "gomap_ok obs"
  shows "d \<in> set (snd (plan_files ds obs port)) \<longleftrightarrow> d \<notin> set ds \<and> (\<exists>c. map_of obs d = Some c \<and> managed c)"
  using assms by (force simp: plan_files_def Let_def gomap_ok_def keys_def map_of_eq_Some_iff)

lemma map_of_apply_plan:
  assumes "gomap_ok obs"
  shows "map_of (apply_plan port (plan_files ds obs port) obs) d =
    (if d \<in> set ds then
       (case map_of obs d of
          None \<Rightarrow> Some (resolver_content port)
        | Some c \<Rightarrow> Some (if managed c then resolver_content port else c))
     else (case map_of obs d of None \<Rightarrow> None | Some c \<Rightarrow> if managed c then None else Some c))"
  using in_create [of d ds obs port] in_remove [OF assms, of d ds port]
  by (auto simp: apply_plan_def map_of_updates map_of_deletes split: prod.splits option.splits)

lemma plan_settled:
  assumes "gomap_ok obs"
  shows "plan_files ds (apply_plan port (plan_files ds obs port) obs) port = ([], [])"
proof -
  let ?new = "apply_plan port (plan_files ds obs port) obs"
  have "gomap_ok (foldl (\<lambda>m k. AList.update k (resolver_content port) m) m ks)" if "gomap_ok m" for ks and m :: "(string, string) gomap"
    using that by (induction ks arbitrary: m) simp_all
  moreover have "gomap_ok (foldl (\<lambda>m k. AList.delete k m) m ks)" if "gomap_ok m" for ks and m :: "(string, string) gomap"
    using that by (induction ks arbitrary: m) simp_all
  ultimately have "gomap_ok ?new" using assms by (simp add: apply_plan_def split: prod.split)
  then have "d \<notin> set (fst (plan_files ds ?new port))" "d \<notin> set (snd (plan_files ds ?new port))" for d
    using map_of_apply_plan [OF assms, of port ds d]
    by (auto simp: in_create in_remove split: option.splits if_splits)
  then have "fst (plan_files ds ?new port) = []" "snd (plan_files ds ?new port) = []"
    by (metis list.set_intros(1) neq_Nil_conv)+
  then show ?thesis by (simp add: prod_eq_iff)
qed

subsection \<open>Properties\<close>



end
