(* ===== verification/Balloon_Plan.thy ===== *)
theory Balloon_Plan
  imports Tbx_Prelude "HOL-Library.While_Combinator"
begin

text \<open>
  Memory-balloon targets, \<^verbatim>\<open>src/internal/balloon/plan.go\<close>: sharing a memory deficit over nodes in
  proportion to their size without pushing one below the floor. The arithmetic is that of 64-bit
  integers. A division by a zero weight panics; the plan is then \<^const>\<open>None\<close>.
\<close>

record bnode =
  bn_name :: string
  bn_configured :: int

type_synonym target_map = "(string, int) gomap"

definition at_key :: "target_map \<Rightarrow> string \<Rightarrow> int" where
  "at_key m k = case_option 0 id (map_of m k)"

text \<open>The body of the loop over the active names.\<close>

definition plan_step ::
    "int \<Rightarrow> int \<Rightarrow> int \<Rightarrow> target_map \<times> target_map \<times> int \<times> bool \<Rightarrow> string \<Rightarrow> target_map \<times> target_map \<times> int \<times> bool"
where
  "plan_step floor remaining weight st name = (case st of (targets, active, distributed, clamped) \<Rightarrow>
     (let share = i64 (i64 (remaining * at_key active name) sdiv weight);
          target = i64 (at_key targets name - share)
      in if target \<le> floor
         then (AList.update name floor targets, AList.delete name active,
               i64 (distributed + i64 (at_key targets name - floor)), True)
         else (AList.update name target targets, active, i64 (distributed + share), clamped)))"

definition total_weight :: "target_map \<Rightarrow> int" where
  "total_weight active = foldl (\<lambda>w e. i64 (w + snd e)) 0 active"

text \<open>A pass that clamps a node drops it, so the loop ends.\<close>

definition shrunk :: "target_map \<Rightarrow> target_map \<times> target_map \<times> int \<times> bool \<Rightarrow> bool" where
  "shrunk active0 st = (case st of (targets, active, distributed, clamped) \<Rightarrow>
     if clamped then length active < length active0 else active = active0)"

lemma length_delete:
  "length (AList.delete k m) \<le> length m" "k \<in> set (keys m) \<Longrightarrow> length (AList.delete k m) < length m"
  by (auto simp: AList.delete_eq keys_def intro: length_filter_less)

lemma plan_step_shrunk:
  assumes "shrunk active st" "name \<in> set (keys active)"
  shows "shrunk active (plan_step fl r w st name)"
proof -
  obtain t a d c where st: "st = (t, a, d, c)" by (metis prod_cases4)
  show ?thesis
  proof (cases "i64 (at_key t name - i64 (i64 (r * at_key a name) sdiv w)) \<le> fl")
    case True
    then have "plan_step fl r w st name =
        (AList.update name fl t, AList.delete name a, i64 (d + i64 (at_key t name - fl)), True)"
      by (simp add: plan_step_def st)
    moreover have "length (AList.delete name a) < length active"
      using assms length_delete [of name a] by (auto simp: shrunk_def st split: if_splits)
    ultimately show ?thesis by (simp add: shrunk_def)
  next
    case False
    then show ?thesis using assms(1) by (simp add: plan_step_def st shrunk_def Let_def)
  qed
qed

lemma plan_pass_shrunk:
  "set names \<subseteq> set (keys active) \<Longrightarrow> shrunk active st \<Longrightarrow> shrunk active (foldl (plan_step fl r w) st names)"
  by (induction names arbitrary: st) (simp_all add: plan_step_shrunk)

lemma plan_pass_shrinks:
  assumes "(t, a, d, True) = foldl (plan_step fl r w) (targets, active, 0, False) (sort (keys active))"
  shows "length a < length active"
  using plan_pass_shrunk [of "sort (keys active)" active "(targets, active, 0, False)" fl r w]
  by (simp add: assms [symmetric] shrunk_def)

function plan_loop :: "int \<Rightarrow> target_map \<Rightarrow> target_map \<Rightarrow> int \<Rightarrow> target_map option" where
  "plan_loop floor targets active remaining =
     (if \<not> (remaining > 0 \<and> length active > 0) then Some targets
      else let weight = total_weight active in
        if weight = 0 then None
        else (case foldl (plan_step floor remaining weight) (targets, active, 0, False) (sort (keys active)) of
            (targets', active', distributed, clamped) \<Rightarrow>
              if \<not> clamped then Some targets'
              else plan_loop floor targets' active' (i64 (remaining - distributed))))"
  by pat_completeness auto
termination
  by (relation "measure (\<lambda>(floor, targets, active, remaining). length active)")
     (auto dest: plan_pass_shrinks)

declare plan_loop.simps [simp del]

text \<open>The same loop as the code writes it: a state, a condition and a body that may break off or panic.\<close>

datatype plan_exit = Running | Broken | Panicked

definition plan_going :: "target_map \<times> target_map \<times> int \<times> plan_exit \<Rightarrow> bool" where
  "plan_going = (\<lambda>(targets, active, remaining, e). e = Running \<and> remaining > 0 \<and> length active > 0)"

definition plan_body ::
    "int \<Rightarrow> target_map \<times> target_map \<times> int \<times> plan_exit \<Rightarrow> target_map \<times> target_map \<times> int \<times> plan_exit" where
  "plan_body floor = (\<lambda>(targets, active, remaining, e).
     let weight = total_weight active
     in if weight = 0 then (targets, active, remaining, Panicked)
        else (case foldl (plan_step floor remaining weight) (targets, active, 0, False) (sort (keys active)) of
            (targets, active, distributed, clamped) \<Rightarrow>
              (targets, active, i64 (remaining - distributed), if clamped then Running else Broken)))"

text \<open>What the loop leaves behind.\<close>

definition plan_left :: "target_map \<times> target_map \<times> int \<times> plan_exit \<Rightarrow> target_map option" where
  "plan_left = (\<lambda>(targets, active, remaining, e). if e = Panicked then None else Some targets)"

definition plan_targets :: "bnode list \<Rightarrow> int \<Rightarrow> int \<Rightarrow> target_map option" where
  "plan_targets nodes deficit floor =
     (let targets = foldl (\<lambda>m n. AList.update (bn_name n) (bn_configured n) m) [] nodes in
      if deficit \<le> 0 then Some targets
      else let active = foldl (\<lambda>m n. if bn_configured n > floor
                                     then AList.update (bn_name n) (bn_configured n) m else m) [] nodes
        in plan_loop floor targets active deficit)"

definition overcommit :: "int \<Rightarrow> int \<Rightarrow> int \<Rightarrow> bool" where
  "overcommit planned host_ram reserve \<longleftrightarrow> planned > i64 (host_ram - reserve)"

subsection \<open>One pass over the active nodes\<close>

text \<open>What a node gives in one pass, in unbounded arithmetic.\<close>

definition share_of :: "int \<Rightarrow> int \<Rightarrow> target_map \<Rightarrow> string \<Rightarrow> int" where
  "share_of r w a x = r * at_key a x div w"

definition lowered :: "int \<Rightarrow> int \<Rightarrow> int \<Rightarrow> target_map \<Rightarrow> target_map \<Rightarrow> string \<Rightarrow> int" where
  "lowered fl r w a t x = max fl (at_key t x - share_of r w a x)"

definition floored :: "int \<Rightarrow> int \<Rightarrow> int \<Rightarrow> target_map \<Rightarrow> target_map \<Rightarrow> string \<Rightarrow> bool" where
  "floored fl r w a t x \<longleftrightarrow> at_key t x - share_of r w a x \<le> fl"

lemma at_key_update [simp]: "at_key (AList.update k v m) x = (if x = k then v else at_key m x)"
  by (simp add: at_key_def)

lemma at_key_delete [simp]: "at_key (AList.delete k m) x = (if x = k then 0 else at_key m x)"
  by (simp add: at_key_def)

text \<open>The sizes for which no step wraps around: \<open>2 ^ 31\<close> MiB are two pebibytes.\<close>

definition step_fits :: "int \<Rightarrow> int \<Rightarrow> int \<Rightarrow> target_map \<Rightarrow> target_map \<Rightarrow> string \<Rightarrow> bool" where
  "step_fits fl r w a t x \<longleftrightarrow> 0 \<le> fl \<and> fl < at_key t x \<and> at_key t x \<le> at_key a x \<and> at_key a x \<le> w
     \<and> 0 \<le> r \<and> r \<le> 2 ^ 31 \<and> w \<le> 2 ^ 31"

lemma share_bounds:
  assumes "step_fits fl r w a t x"
  shows "0 \<le> share_of r w a x" "share_of r w a x \<le> r" "0 < w"
proof -
  from assms have A: "0 \<le> at_key a x" "at_key a x \<le> w" "0 \<le> r" "0 < w" by (auto simp: step_fits_def)
  then show "0 < w" "0 \<le> share_of r w a x" by (simp_all add: share_of_def pos_imp_zdiv_nonneg_iff)
  have "r * at_key a x div w \<le> r * w div w" using A by (intro zdiv_mono1 mult_left_mono)
  then show "share_of r w a x \<le> r" using A by (simp add: share_of_def)
qed

lemma taken_bounds:
  assumes "step_fits fl r w a t x"
  shows "0 \<le> at_key t x - lowered fl r w a t x" "at_key t x - lowered fl r w a t x \<le> share_of r w a x"
  using share_bounds [OF assms] assms by (auto simp: lowered_def step_fits_def)

lemma plan_step_exact:
  assumes fits: "step_fits fl r w a t x" and d: "0 \<le> d" "d \<le> 2 ^ 62"
  shows "plan_step fl r w (t, a, d, c) x =
     (AList.update x (lowered fl r w a t x) t,
      if floored fl r w a t x then AList.delete x a else a,
      d + (at_key t x - lowered fl r w a t x), c \<or> floored fl r w a t x)"
proof -
  let ?s = "share_of r w a x"
  from fits have B: "0 \<le> at_key a x" "at_key a x \<le> 2 ^ 31" "0 \<le> r" "r \<le> 2 ^ 31" "0 \<le> fl" "fl < at_key t x" "at_key t x \<le> 2 ^ 31"
    by (auto simp: step_fits_def)
  have "r * at_key a x \<le> 2 ^ 31 * 2 ^ 31" using B by (intro mult_mono) auto
  then have "i64 (r * at_key a x) = r * at_key a x" using B by (intro i64_small) auto
  then have "i64 (i64 (r * at_key a x) sdiv w) = i64 ?s"
    using share_bounds [OF fits] B by (simp add: sdiv_nonneg share_of_def)
  also have "\<dots> = ?s" using share_bounds [OF fits] B by (intro i64_small) auto
  finally have s: "i64 (i64 (r * at_key a x) sdiv w) = ?s" .
  have t: "i64 (at_key t x - ?s) = at_key t x - ?s"
    using share_bounds [OF fits] B by (intro i64_in_range) (auto simp: in_i64_def)
  have f: "i64 (at_key t x - fl) = at_key t x - fl" using B by (intro i64_small) auto
  have e: "i64 (d + (at_key t x - fl)) = d + (at_key t x - fl)" "i64 (d + ?s) = d + ?s"
    using share_bounds [OF fits] B d by (auto intro!: i64_small)
  show ?thesis
    by (simp add: plan_step_def s t f e Let_def floored_def lowered_def max_def)
qed

lemma plan_pass_exact:
  assumes "distinct ns" "\<forall>x\<in>set ns. step_fits fl r w a t x" "0 \<le> d"
    and "d + (\<Sum>x\<leftarrow>ns. share_of r w a x) \<le> 2 ^ 62"
  shows "\<exists>t' a'. foldl (plan_step fl r w) (t, a, d, c) ns =
       (t', a', d + (\<Sum>x\<leftarrow>ns. at_key t x - lowered fl r w a t x), c \<or> (\<exists>x\<in>set ns. floored fl r w a t x))
     \<and> (\<forall>x. map_of t' x = (if x \<in> set ns then Some (lowered fl r w a t x) else map_of t x))
     \<and> (\<forall>x. map_of a' x = (if x \<in> set ns \<and> floored fl r w a t x then None else map_of a x))
     \<and> (gomap_ok a \<longrightarrow> gomap_ok a')"
  using assms
proof (induction ns arbitrary: t a d c)
  case (Cons n ns)
  let ?t = "AList.update n (lowered fl r w a t n) t" and ?a = "if floored fl r w a t n then AList.delete n a else a"
  let ?d = "d + (at_key t n - lowered fl r w a t n)" and ?c = "c \<or> floored fl r w a t n"
  have n: "step_fits fl r w a t n" and ns: "\<forall>x\<in>set ns. step_fits fl r w a t x" "n \<notin> set ns"
    using Cons.prems by auto
  have shares: "0 \<le> (\<Sum>x\<leftarrow>ns. share_of r w a x)"
    using ns by (intro sum_list_nonneg) (auto intro: share_bounds)
  have same: "at_key ?a x = at_key a x" "at_key ?t x = at_key t x" if "x \<in> set ns" for x
    using that ns by auto
  then have eq: "share_of r w ?a x = share_of r w a x" "lowered fl r w ?a ?t x = lowered fl r w a t x"
    "floored fl r w ?a ?t x = floored fl r w a t x" "step_fits fl r w ?a ?t x = step_fits fl r w a t x" if "x \<in> set ns" for x
    using that by (simp_all add: share_of_def lowered_def floored_def step_fits_def)
  have sums: "(\<Sum>x\<leftarrow>ns. share_of r w ?a x) = (\<Sum>x\<leftarrow>ns. share_of r w a x)"
    "(\<Sum>x\<leftarrow>ns. at_key ?t x - lowered fl r w ?a ?t x) = (\<Sum>x\<leftarrow>ns. at_key t x - lowered fl r w a t x)"
    using eq same by (auto cong: map_cong)
  have ex: "(\<exists>x\<in>set ns. floored fl r w ?a ?t x) = (\<exists>x\<in>set ns. floored fl r w a t x)" using eq by auto
  have d: "0 \<le> d" "d \<le> 2 ^ 62" "0 \<le> ?d" "?d + (\<Sum>x\<leftarrow>ns. share_of r w a x) \<le> 2 ^ 62"
    using Cons.prems taken_bounds [OF n] share_bounds [OF n] shares by auto
  obtain t' a' where IH: "foldl (plan_step fl r w) (?t, ?a, ?d, ?c) ns =
       (t', a', ?d + (\<Sum>x\<leftarrow>ns. at_key t x - lowered fl r w a t x), ?c \<or> (\<exists>x\<in>set ns. floored fl r w a t x))"
     "\<forall>x. map_of t' x = (if x \<in> set ns then Some (lowered fl r w ?a ?t x) else map_of ?t x)"
     "\<forall>x. map_of a' x = (if x \<in> set ns \<and> floored fl r w ?a ?t x then None else map_of ?a x)"
     "gomap_ok ?a \<longrightarrow> gomap_ok a'"
    using Cons.IH [of ?a ?t ?d ?c] Cons.prems ns eq d unfolding sums ex by auto
  have "foldl (plan_step fl r w) (t, a, d, c) (n # ns) = foldl (plan_step fl r w) (?t, ?a, ?d, ?c) ns"
    by (simp add: plan_step_exact [OF n d(1,2)])
  with IH(1) have 1: "foldl (plan_step fl r w) (t, a, d, c) (n # ns) =
       (t', a', d + (\<Sum>x\<leftarrow>n # ns. at_key t x - lowered fl r w a t x), c \<or> (\<exists>x\<in>set (n # ns). floored fl r w a t x))"
    by (simp add: algebra_simps disj_assoc)
  have 2: "\<forall>x. map_of t' x = (if x \<in> set (n # ns) then Some (lowered fl r w a t x) else map_of t x)"
    using IH(2) eq ns by auto
  have 3: "\<forall>x. map_of a' x = (if x \<in> set (n # ns) \<and> floored fl r w a t x then None else map_of a x)"
    using IH(3) eq ns by (auto split: if_splits)
  have 4: "gomap_ok a \<longrightarrow> gomap_ok a'" using IH(4) by simp
  from 1 2 3 4 show ?case by blast
qed simp

subsection \<open>The whole plan\<close>

lemma sum_keys: "gomap_ok m \<Longrightarrow> (\<Sum>x\<leftarrow>sort (keys m). f x) = (\<Sum>x\<in>dom (map_of m). f x :: int)"
  by (simp add: sum_list_distinct_conv_sum_set gomap_ok_def set_keys [symmetric])

lemma total_weight_from:
  assumes "\<forall>e\<in>set m. 0 \<le> snd e" "0 \<le> w" "w + sum_list (map snd m) \<le> 2 ^ 31"
  shows "foldl (\<lambda>w e. i64 (w + snd e)) w m = w + sum_list (map snd m)"
  using assms
proof (induction m arbitrary: w)
  case (Cons e m)
  moreover have "0 \<le> sum_list (map snd m)" using Cons.prems by (intro sum_list_nonneg) auto
  ultimately show ?case by (simp add: i64_small)
qed simp

lemma sum_values: "gomap_ok m \<Longrightarrow> sum_list (map snd m) = (\<Sum>x\<in>dom (map_of m). at_key m x)"
proof (induction m)
  case (Cons e m)
  obtain k v where e: "e = (k, v)" by (cases e)
  from Cons.prems have m: "gomap_ok m" "k \<notin> dom (map_of m)"
    by (auto simp: gomap_ok_def keys_def e dom_map_of_conv_image_fst)
  have "(\<Sum>x\<in>dom (map_of m). at_key (e # m) x) = (\<Sum>x\<in>dom (map_of m). at_key m x)"
    using m(2) by (intro sum.cong refl) (auto simp: at_key_def e)
  moreover have "(\<Sum>x\<in>dom (map_of (e # m)). at_key (e # m) x) = at_key (e # m) k + (\<Sum>x\<in>dom (map_of m). at_key (e # m) x)"
    using sum.insert [OF finite_dom_map_of m(2), of "at_key (e # m)"] by (simp only: e map_of.simps dom_fun_upd) simp
  moreover have "at_key (e # m) k = v" by (simp add: at_key_def e)
  moreover have "sum_list (map snd (e # m)) = v + sum_list (map snd m)" by (simp add: e)
  ultimately show ?case using Cons.IH [OF m(1)] by linarith
qed simp

text \<open>What holds between two passes.\<close>

definition plan_inv :: "int \<Rightarrow> target_map \<Rightarrow> target_map \<Rightarrow> int \<Rightarrow> bool" where
  "plan_inv fl t a r \<longleftrightarrow> gomap_ok a \<and> 0 \<le> fl \<and> r \<le> 2 ^ 31 \<and> (\<Sum>x\<in>dom (map_of a). at_key a x) \<le> 2 ^ 31
     \<and> (\<forall>x\<in>dom (map_of a). fl < at_key t x \<and> at_key t x \<le> at_key a x)"

definition taken :: "target_map \<Rightarrow> target_map \<Rightarrow> string set \<Rightarrow> int" where
  "taken t t' X = (\<Sum>x\<in>X. at_key t x - at_key t' x)"

lemma plan_inv_weight:
  assumes "plan_inv fl t a r" "0 < r"
  shows "total_weight a = (\<Sum>x\<in>dom (map_of a). at_key a x)"
    and "x \<in> dom (map_of a) \<Longrightarrow> step_fits fl r (total_weight a) a t x"
proof -
  from assms have a: "gomap_ok a" "(\<Sum>x\<in>dom (map_of a). at_key a x) \<le> 2 ^ 31" "\<forall>x\<in>dom (map_of a). 0 < at_key a x"
    unfolding plan_inv_def by force+
  have "0 \<le> snd e" if "e \<in> set a" for e
  proof -
    have "map_of a (fst e) = Some (snd e)" using a(1) that by (simp add: gomap_ok_def keys_def)
    moreover from this have "0 < at_key a (fst e)" using a(3) by auto
    ultimately show ?thesis by (simp add: at_key_def)
  qed
  then show w: "total_weight a = (\<Sum>x\<in>dom (map_of a). at_key a x)"
    using total_weight_from [of a 0] a by (simp add: total_weight_def sum_values)
  show "step_fits fl r (total_weight a) a t x" if "x \<in> dom (map_of a)"
  proof -
    have "at_key a x \<le> (\<Sum>x\<in>dom (map_of a). at_key a x)"
      using a(3) that by (intro member_le_sum) (auto simp: finite_dom_map_of intro: less_imp_le)
    with assms that a(2) show ?thesis by (simp add: step_fits_def plan_inv_def w)
  qed
qed

lemma shares_sum:
  assumes "plan_inv fl t a r" "0 < r" "a \<noteq> []"
  shows "(\<Sum>x\<in>dom (map_of a). share_of r (total_weight a) a x) \<le> r"
    and "r < (\<Sum>x\<in>dom (map_of a). share_of r (total_weight a) a x) + int (card (dom (map_of a)))"
proof -
  let ?D = "dom (map_of a)" and ?w = "total_weight a"
  from assms(3) obtain y where y: "y \<in> ?D" by (cases a) auto
  have fin: "finite ?D" by (rule finite_dom_map_of)
  have w: "0 < ?w" using share_bounds(3) plan_inv_weight(2) [OF assms(1,2) y] by blast
  have sum: "(\<Sum>x\<in>?D. r * at_key a x) = r * ?w"
    by (simp add: plan_inv_weight(1) [OF assms(1,2)] sum_distrib_left)
  have "(\<Sum>x\<in>?D. share_of r ?w a x) * ?w \<le> (\<Sum>x\<in>?D. r * at_key a x)"
    unfolding sum_distrib_right share_of_def using w
    by (intro sum_mono) (simp add: mult.commute minus_mod_eq_mult_div [symmetric])
  with w sum show "(\<Sum>x\<in>?D. share_of r ?w a x) \<le> r" by simp
  have "(\<Sum>x\<in>?D. r * at_key a x) < (\<Sum>x\<in>?D. (share_of r ?w a x + 1) * ?w)"
  proof (rule sum_strict_mono [OF fin])
    show "?D \<noteq> {}" using y by auto
    fix x assume "x \<in> ?D"
    have "r * at_key a x mod ?w < ?w" using w by simp
    moreover have "r * at_key a x = ?w * share_of r ?w a x + r * at_key a x mod ?w"
      unfolding share_of_def by (rule mult_div_mod_eq [symmetric])
    moreover have "(share_of r ?w a x + 1) * ?w = ?w * share_of r ?w a x + ?w" by (simp add: algebra_simps)
    ultimately show "r * at_key a x < (share_of r ?w a x + 1) * ?w" by linarith
  qed
  also have "\<dots> = ((\<Sum>x\<in>?D. share_of r ?w a x) + int (card ?D)) * ?w"
    by (simp add: sum_distrib_right [symmetric] sum.distrib)
  finally show "r < (\<Sum>x\<in>?D. share_of r ?w a x) + int (card ?D)" using sum w by simp
qed

lemma plan_loop_pass:
  assumes inv: "plan_inv fl t a r" and r: "0 < r" and a: "a \<noteq> []"
  obtains t' a' where "plan_loop fl t a r =
      (if \<exists>x\<in>dom (map_of a). floored fl r (total_weight a) a t x
       then plan_loop fl t' a' (r - taken t t' (dom (map_of a))) else Some t')"
    and "\<forall>x. map_of t' x = (if x \<in> dom (map_of a) then Some (lowered fl r (total_weight a) a t x) else map_of t x)"
    and "\<forall>x. map_of a' x = (if floored fl r (total_weight a) a t x then None else map_of a x)"
    and "gomap_ok a'" "taken t t' (dom (map_of a)) \<le> r" "0 \<le> taken t t' (dom (map_of a))"
proof -
  let ?D = "dom (map_of a)" and ?w = "total_weight a"
  have ok: "gomap_ok a" and small: "r \<le> 2 ^ 31" using inv by (auto simp: plan_inv_def)
  have fits: "step_fits fl r ?w a t x" if "x \<in> ?D" for x using plan_inv_weight(2) [OF inv r that] .
  have ns: "distinct (sort (keys a))" "set (sort (keys a)) = ?D"
    using ok by (simp_all add: gomap_ok_def set_keys)
  have sum: "(\<Sum>x\<leftarrow>sort (keys a). share_of r ?w a x) \<le> r"
    using shares_sum(1) [OF inv r a] by (simp add: sum_keys [OF ok])
  obtain t' a' where P: "foldl (plan_step fl r ?w) (t, a, 0, False) (sort (keys a)) =
       (t', a', \<Sum>x\<leftarrow>sort (keys a). at_key t x - lowered fl r ?w a t x, \<exists>x\<in>?D. floored fl r ?w a t x)"
     "\<forall>x. map_of t' x = (if x \<in> ?D then Some (lowered fl r ?w a t x) else map_of t x)"
     "\<forall>x. map_of a' x = (if x \<in> ?D \<and> floored fl r ?w a t x then None else map_of a x)" "gomap_ok a'"
    using plan_pass_exact [of "sort (keys a)" fl r ?w a t 0 False] ns fits sum small ok by auto
  have eq: "(\<Sum>x\<leftarrow>sort (keys a). at_key t x - lowered fl r ?w a t x) = taken t t' ?D"
    using P(2) by (simp add: sum_keys [OF ok] taken_def at_key_def)
  have "taken t t' ?D \<le> (\<Sum>x\<in>?D. share_of r ?w a x)"
    unfolding taken_def using fits taken_bounds P(2) by (intro sum_mono) (auto simp: at_key_def)
  then have le: "taken t t' ?D \<le> r" using shares_sum(1) [OF inv r a] by simp
  have ge: "0 \<le> taken t t' ?D"
    unfolding taken_def using fits taken_bounds P(2) by (intro sum_nonneg) (auto simp: at_key_def)
  from a obtain y where y: "y \<in> ?D" by (cases a) auto
  have "?w \<noteq> 0" using share_bounds(3) [OF fits [OF y]] by simp
  moreover have "i64 (r - taken t t' ?D) = r - taken t t' ?D" using le ge r small by (intro i64_small) auto
  ultimately have "plan_loop fl t a r =
      (if \<exists>x\<in>?D. floored fl r ?w a t x then plan_loop fl t' a' (r - taken t t' ?D) else Some t')"
    using r a by (simp add: plan_loop.simps [of fl t a r] P(1) eq Let_def)
  moreover have "\<forall>x. map_of a' x = (if floored fl r ?w a t x then None else map_of a x)"
    using P(3) by (auto simp: domIff)
  ultimately show ?thesis using that P(2,4) le ge by blast
qed

text \<open>The promise of the loop: within the floor, never more than asked, and short by less than one
  MiB per node unless every node is at the floor.\<close>

definition plan_result :: "int \<Rightarrow> target_map \<Rightarrow> string set \<Rightarrow> int \<Rightarrow> target_map \<Rightarrow> bool" where
  "plan_result fl t D r t' \<longleftrightarrow>
     (\<forall>x. x \<notin> D \<longrightarrow> map_of t' x = map_of t x)
   \<and> (\<forall>x\<in>D. x \<in> dom (map_of t') \<and> fl \<le> at_key t' x \<and> at_key t' x \<le> at_key t x)
   \<and> taken t t' D \<le> max 0 r
   \<and> ((\<forall>x\<in>D. at_key t' x = fl) \<or> r - taken t t' D < max 1 (int (card D)))"

lemma at_key_dom: "0 < at_key t x \<Longrightarrow> x \<in> dom (map_of t)"
  by (auto simp: at_key_def split: option.splits)

lemma taken_split:
  assumes "finite D" "E \<subseteq> D" "\<forall>x\<in>D - E. at_key t'' x = at_key t' x"
  shows "taken t t'' D = taken t t' D + taken t' t'' E"
proof -
  have "taken t t'' D = taken t t' D + taken t' t'' D" by (simp add: taken_def flip: sum.distrib)
  moreover have "taken t' t'' D = taken t' t'' E"
    unfolding taken_def using assms by (intro sum.mono_neutral_right) auto
  ultimately show ?thesis by simp
qed

lemma length_dom: "gomap_ok m \<Longrightarrow> length m = card (dom (map_of m))"
  by (metis distinct_card gomap_ok_def keys_def length_map set_keys)

lemma plan_inv_next:
  assumes inv: "plan_inv fl t a r" and E: "dom (map_of a') \<subseteq> dom (map_of a)" "gomap_ok a'" "0 \<le> d"
    and same: "\<forall>x\<in>dom (map_of a'). map_of a' x = map_of a x \<and> fl < at_key t' x \<and> at_key t' x \<le> at_key t x"
  shows "plan_inv fl t' a' (r - d)"
proof -
  have pos: "0 \<le> at_key a x" "at_key t x \<le> at_key a x" if "x \<in> dom (map_of a)" for x
    using inv that unfolding plan_inv_def by force+
  have eq: "at_key a' x = at_key a x" if "x \<in> dom (map_of a')" for x using same that by (simp add: at_key_def)
  have "(\<Sum>x\<in>dom (map_of a'). at_key a' x) = (\<Sum>x\<in>dom (map_of a'). at_key a x)" using eq by simp
  also have "\<dots> \<le> (\<Sum>x\<in>dom (map_of a). at_key a x)"
    using E(1) pos(1) by (intro sum_mono2) (auto simp: finite_dom_map_of)
  finally have "(\<Sum>x\<in>dom (map_of a'). at_key a' x) \<le> 2 ^ 31" using inv by (simp add: plan_inv_def)
  moreover have "\<forall>x\<in>dom (map_of a'). fl < at_key t' x \<and> at_key t' x \<le> at_key a' x"
    using same eq pos(2) E(1) by (metis order_trans subsetD)
  ultimately show ?thesis using inv E(2,3) by (simp add: plan_inv_def)
qed

lemma plan_result_next:
  assumes next_ok: "plan_result fl t' E (r - taken t t' D) t''" and E: "E \<subseteq> D" "finite D"
    and t': "\<forall>x. x \<notin> D \<longrightarrow> map_of t' x = map_of t x"
      "\<forall>x\<in>D. x \<in> dom (map_of t') \<and> fl \<le> at_key t' x \<and> at_key t' x \<le> at_key t x" "\<forall>x\<in>D - E. at_key t' x = fl"
    and d: "taken t t' D \<le> r"
  shows "plan_result fl t D r t''"
proof -
  have out: "map_of t'' x = map_of t' x" if "x \<notin> E" for x using next_ok that by (simp add: plan_result_def)
  have ins: "x \<in> dom (map_of t'') \<and> fl \<le> at_key t'' x \<and> at_key t'' x \<le> at_key t' x" if "x \<in> E" for x
    using next_ok that by (simp add: plan_result_def)
  have keep: "at_key t'' x = at_key t' x" if "x \<notin> E" for x using out [OF that] by (simp add: at_key_def)
  have sum: "taken t t'' D = taken t t' D + taken t' t'' E" using E keep by (intro taken_split) auto
  have card: "card E \<le> card D" using E by (intro card_mono)
  have "x \<in> dom (map_of t'') \<and> fl \<le> at_key t'' x \<and> at_key t'' x \<le> at_key t x" if "x \<in> D" for x
  proof (cases "x \<in> E")
    case True
    then show ?thesis using ins [OF True] t'(2) that by force
  next
    case False
    then show ?thesis using out [OF False] keep [OF False] t'(2) that by (auto simp: domIff)
  qed
  moreover have "map_of t'' x = map_of t x" if "x \<notin> D" for x using that out [of x] t'(1) E(1) by auto
  moreover have "taken t t'' D \<le> max 0 r" using next_ok d unfolding sum plan_result_def by linarith
  moreover have "(\<forall>x\<in>D. at_key t'' x = fl) \<or> r - taken t t'' D < max 1 (int (card D))"
  proof (cases "\<forall>x\<in>E. at_key t'' x = fl")
    case True
    then show ?thesis using keep t'(3) by auto
  next
    case False
    then have "r - taken t t' D - taken t' t'' E < max 1 (int (card E))" using next_ok by (auto simp: plan_result_def)
    then show ?thesis using card unfolding sum by linarith
  qed
  ultimately show ?thesis by (simp add: plan_result_def)
qed

lemma plan_loop_correct:
  "plan_inv fl t a r \<Longrightarrow> \<exists>t'. plan_loop fl t a r = Some t' \<and> plan_result fl t (dom (map_of a)) r t'"
proof (induction "length a" arbitrary: t a r rule: less_induct)
  case less
  let ?D = "dom (map_of a)" and ?w = "total_weight a"
  have pos: "\<forall>x\<in>?D. fl < at_key t x \<and> at_key t x \<le> at_key a x" "0 \<le> fl" using less.prems by (auto simp: plan_inv_def)
  then have dom: "?D \<subseteq> dom (map_of t)" by (intro subsetI at_key_dom) force
  show ?case
  proof (cases "0 < r \<and> a \<noteq> []")
    case False
    then have "plan_loop fl t a r = Some t" by (simp add: plan_loop.simps)
    moreover have "plan_result fl t ?D r t"
      using False pos dom by (auto simp: plan_result_def taken_def intro: less_imp_le)
    ultimately show ?thesis by blast
  next
    case True
    then have r: "0 < r" "a \<noteq> []" by auto
    from plan_loop_pass [OF less.prems r] obtain t' a' where
      L: "plan_loop fl t a r = (if \<exists>x\<in>?D. floored fl r ?w a t x then plan_loop fl t' a' (r - taken t t' ?D) else Some t')"
      and t': "\<forall>x. map_of t' x = (if x \<in> ?D then Some (lowered fl r ?w a t x) else map_of t x)"
      and a': "\<forall>x. map_of a' x = (if floored fl r ?w a t x then None else map_of a x)" "gomap_ok a'"
      and d: "taken t t' ?D \<le> r" "0 \<le> taken t t' ?D" .
    have at: "at_key t' x = lowered fl r ?w a t x" if "x \<in> ?D" for x using t' that by (simp add: at_key_def)
    have low: "fl \<le> at_key t' x \<and> at_key t' x \<le> at_key t x" if "x \<in> ?D" for x
      using at [OF that] taken_bounds [OF plan_inv_weight(2) [OF less.prems r(1) that]] by (simp add: lowered_def)
    show ?thesis
    proof (cases "\<exists>x\<in>?D. floored fl r ?w a t x")
      case False
      have "(\<Sum>x\<in>?D. share_of r ?w a x) = taken t t' ?D"
        unfolding taken_def using at False by (intro sum.cong refl) (force simp: lowered_def floored_def)
      then have "r - taken t t' ?D < int (card ?D)" using shares_sum(2) [OF less.prems r] by simp
      then have "plan_result fl t ?D r t'" using t' low d by (auto simp: plan_result_def)
      with L False show ?thesis by auto
    next
      case True
      have sub: "dom (map_of a') \<subseteq> ?D" using a'(1) by (metis domIff subsetI)
      have "dom (map_of a') \<noteq> ?D" using True a'(1) by (force simp: domIff)
      then have "card (dom (map_of a')) < card ?D" using sub by (intro psubset_card_mono) (auto simp: finite_dom_map_of)
      then have "length a' < length a" using a'(2) less.prems by (simp add: length_dom plan_inv_def)
      moreover have "plan_inv fl t' a' (r - taken t t' ?D)"
      proof (rule plan_inv_next [OF less.prems sub a'(2) d(2)], intro ballI)
        fix x assume x: "x \<in> dom (map_of a')"
        then have "\<not> floored fl r ?w a t x" "map_of a' x = map_of a x" "x \<in> ?D" using a'(1) sub by (auto split: if_splits)
        then show "map_of a' x = map_of a x \<and> fl < at_key t' x \<and> at_key t' x \<le> at_key t x"
          using at low by (auto simp: floored_def lowered_def)
      qed
      ultimately obtain t'' where "plan_loop fl t' a' (r - taken t t' ?D) = Some t''"
        "plan_result fl t' (dom (map_of a')) (r - taken t t' ?D) t''"
        using less.hyps by blast
      moreover from this(2) have "plan_result fl t ?D r t''"
      proof (rule plan_result_next [OF _ sub finite_dom_map_of])
        show "\<forall>x\<in>?D - dom (map_of a'). at_key t' x = fl"
        proof
          fix x assume x: "x \<in> ?D - dom (map_of a')"
          with a'(1) have "floored fl r ?w a t x" by (metis DiffD1 DiffD2 domIff)
          with at x show "at_key t' x = fl" by (simp add: floored_def lowered_def)
        qed
      qed (use t' low d(1) in auto)
      ultimately show ?thesis using L True by auto
    qed
  qed
qed

text \<open>The maps the plan starts from.\<close>

definition node_map :: "(bnode \<Rightarrow> bool) \<Rightarrow> bnode list \<Rightarrow> target_map \<Rightarrow> target_map" where
  "node_map P nodes m = foldl (\<lambda>m n. if P n then AList.update (bn_name n) (bn_configured n) m else m) m nodes"

lemma node_map_ok: "gomap_ok m \<Longrightarrow> gomap_ok (node_map P nodes m)"
  unfolding node_map_def by (induction nodes arbitrary: m) auto

lemma node_map_other: "\<forall>n\<in>set nodes. P n \<longrightarrow> bn_name n \<noteq> x \<Longrightarrow> map_of (node_map P nodes m) x = map_of m x"
  unfolding node_map_def by (induction nodes arbitrary: m) auto

lemma node_map_at:
  "distinct (map bn_name nodes) \<Longrightarrow> n \<in> set nodes \<Longrightarrow> P n \<Longrightarrow> map_of (node_map P nodes m) (bn_name n) = Some (bn_configured n)"
proof (induction nodes arbitrary: m)
  case (Cons k nodes)
  show ?case
  proof (cases "n = k")
    case True
    with Cons.prems(1) have "\<forall>k\<in>set nodes. P k \<longrightarrow> bn_name k \<noteq> bn_name n"
      by (simp add: image_iff) metis
    from node_map_other [OF this] True Cons.prems(3) show ?thesis by (simp add: node_map_def)
  next
    case False
    with Cons show ?thesis by (simp add: node_map_def)
  qed
qed simp

lemma node_map_dom:
  assumes "distinct (map bn_name nodes)"
  shows "dom (map_of (node_map P nodes [])) = bn_name ` {n \<in> set nodes. P n}"
proof (rule set_eqI)
  fix x
  show "x \<in> dom (map_of (node_map P nodes [])) \<longleftrightarrow> x \<in> bn_name ` {n \<in> set nodes. P n}"
    using node_map_other [of nodes P x "[]"] node_map_at [OF assms, of _ P]
    by (cases "\<exists>n\<in>set nodes. P n \<and> bn_name n = x") (auto simp: domIff)
qed

lemma plan_targets_maps:
  "plan_targets nodes deficit fl = (if deficit \<le> 0 then Some (node_map (\<lambda>_. True) nodes [])
     else plan_loop fl (node_map (\<lambda>_. True) nodes []) (node_map (\<lambda>n. fl < bn_configured n) nodes []) deficit)"
  by (simp add: plan_targets_def node_map_def)

lemma plan_pass_ok:
  "gomap_ok (fst st) \<Longrightarrow> gomap_ok (fst (foldl (plan_step fl r w) st ns))"
  by (induction ns arbitrary: st) (auto simp: plan_step_def Let_def split: prod.splits)

lemma plan_loop_ok: "gomap_ok t \<Longrightarrow> plan_loop fl t a r = Some t' \<Longrightarrow> gomap_ok t'"
proof (induction fl t a r rule: plan_loop.induct)
  case (1 fl t a r)
  obtain t1 a1 d c where p: "foldl (plan_step fl r (total_weight a)) (t, a, 0, False) (sort (keys a)) = (t1, a1, d, c)"
    by (metis prod_cases4)
  have "gomap_ok t1" using plan_pass_ok [of "(t, a, 0, False)" fl r "total_weight a" "sort (keys a)"] 1(2) by (simp add: p)
  with 1 p show ?case by (auto simp: plan_loop.simps [of fl t a r] Let_def split: if_splits)
qed

lemma plan_targets_ok: "plan_targets nodes deficit fl = Some t \<Longrightarrow> gomap_ok t"
  using plan_loop_ok [OF node_map_ok [OF gomap_ok_Nil]]
  by (auto simp: plan_targets_maps intro: node_map_ok split: if_splits)

lemma plan_start:
  assumes "distinct (map bn_name nodes)" "0 \<le> fl" "deficit \<le> 2 ^ 31" "\<forall>n\<in>set nodes. 0 \<le> bn_configured n"
    and "sum_list (map bn_configured nodes) \<le> 2 ^ 31"
  shows "plan_inv fl (node_map (\<lambda>_. True) nodes []) (node_map (\<lambda>n. fl < bn_configured n) nodes []) deficit"
proof -
  let ?t = "node_map (\<lambda>_. True) nodes []" and ?a = "node_map (\<lambda>n. fl < bn_configured n) nodes []"
  let ?N = "{n \<in> set nodes. fl < bn_configured n}"
  have t: "at_key ?t (bn_name n) = bn_configured n" if "n \<in> set nodes" for n
    using node_map_at [OF assms(1) that] by (simp add: at_key_def)
  have a: "at_key ?a (bn_name n) = bn_configured n" if "n \<in> ?N" for n
    using node_map_at [OF assms(1), of n "\<lambda>n. fl < bn_configured n"] that by (simp add: at_key_def)
  have inj: "inj_on bn_name ?N" using assms(1) by (auto simp: distinct_map intro: inj_on_subset)
  have dom: "dom (map_of ?a) = bn_name ` ?N" by (rule node_map_dom [OF assms(1)])
  have "(\<Sum>x\<in>dom (map_of ?a). at_key ?a x) = (\<Sum>n\<in>?N. bn_configured n)"
    unfolding dom sum.reindex [OF inj] using a by (intro sum.cong) auto
  also have "\<dots> \<le> (\<Sum>n\<in>set nodes. bn_configured n)" using assms(4) by (intro sum_mono2) auto
  also have "\<dots> = sum_list (map bn_configured nodes)"
    using assms(1) by (intro sum_list_distinct_conv_sum_set [symmetric]) (simp add: distinct_map)
  finally show ?thesis
    using assms(2,3,5) t a unfolding plan_inv_def dom by (auto simp: node_map_ok)
qed

lemma plan_targets_result:
  assumes "distinct (map bn_name nodes)" "0 \<le> fl" "deficit \<le> 2 ^ 31" "\<forall>n\<in>set nodes. 0 \<le> bn_configured n"
    and "sum_list (map bn_configured nodes) \<le> 2 ^ 31"
  obtains t where "plan_targets nodes deficit fl = Some t"
    "plan_result fl (node_map (\<lambda>_. True) nodes []) (bn_name ` {n \<in> set nodes. fl < bn_configured n}) deficit t"
proof (cases "deficit \<le> 0")
  case True
  let ?t = "node_map (\<lambda>_. True) nodes []"
  have "at_key ?t (bn_name n) = bn_configured n \<and> bn_name n \<in> dom (map_of ?t)" if "n \<in> set nodes" for n
    using node_map_at [OF assms(1) that, of "\<lambda>_. True"] by (auto simp: at_key_def)
  then have "plan_result fl ?t (bn_name ` {n \<in> set nodes. fl < bn_configured n}) deficit ?t"
    using True by (auto simp: plan_result_def taken_def)
  with True that show ?thesis by (simp add: plan_targets_maps)
next
  case False
  with plan_loop_correct [OF plan_start [OF assms]] that show ?thesis
    by (auto simp: plan_targets_maps node_map_dom [OF assms(1)])
qed

lemma reclaimed_sum:
  assumes "distinct (map bn_name nodes)" "\<forall>x. x \<notin> D \<longrightarrow> map_of t x = map_of (node_map (\<lambda>_. True) nodes []) x"
    and "D \<subseteq> bn_name ` set nodes"
  shows "(\<Sum>n\<leftarrow>nodes. bn_configured n - at_key t (bn_name n)) = taken (node_map (\<lambda>_. True) nodes []) t D"
proof -
  let ?m = "node_map (\<lambda>_. True) nodes []"
  have m: "at_key ?m (bn_name n) = bn_configured n" if "n \<in> set nodes" for n
    using node_map_at [OF assms(1) that, of "\<lambda>_. True"] by (simp add: at_key_def)
  have "(\<Sum>n\<leftarrow>nodes. bn_configured n - at_key t (bn_name n)) = (\<Sum>x\<leftarrow>map bn_name nodes. at_key ?m x - at_key t x)"
    using m by (simp add: comp_def cong: map_cong)
  also have "\<dots> = (\<Sum>x\<in>bn_name ` set nodes. at_key ?m x - at_key t x)"
    using sum_list_distinct_conv_sum_set [OF assms(1), of "\<lambda>x. at_key ?m x - at_key t x"] by simp
  also have "\<dots> = taken ?m t D"
    unfolding taken_def using assms(2,3) by (intro sum.mono_neutral_right) (auto simp: at_key_def)
  finally show ?thesis .
qed

lemma plan_result_target:
  assumes d: "distinct (map bn_name nodes)" and n: "n \<in> set nodes"
    and R: "plan_result fl (node_map (\<lambda>_. True) nodes []) (bn_name ` {n \<in> set nodes. fl < bn_configured n}) deficit t"
  shows "bn_name n \<in> dom (map_of t)"
    and "if fl < bn_configured n then fl \<le> at_key t (bn_name n) \<and> at_key t (bn_name n) \<le> bn_configured n
      else at_key t (bn_name n) = bn_configured n"
proof -
  let ?m = "node_map (\<lambda>_. True) nodes []" and ?D = "bn_name ` {n \<in> set nodes. fl < bn_configured n}"
  have m: "map_of ?m (bn_name n) = Some (bn_configured n)"
    using node_map_at [OF d n, of "\<lambda>_. True"] by simp
  have "bn_name n \<in> dom (map_of t) \<and> (if fl < bn_configured n
      then fl \<le> at_key t (bn_name n) \<and> at_key t (bn_name n) \<le> bn_configured n
      else at_key t (bn_name n) = bn_configured n)"
  proof (cases "fl < bn_configured n")
    case True
    then have "bn_name n \<in> ?D" using n by blast
    with R have "bn_name n \<in> dom (map_of t) \<and> fl \<le> at_key t (bn_name n) \<and> at_key t (bn_name n) \<le> at_key ?m (bn_name n)"
      unfolding plan_result_def by blast
    with True m show ?thesis by (simp add: at_key_def)
  next
    case False
    then have "bn_name n \<notin> ?D" using n d by (auto simp: distinct_map inj_on_def)
    with R have "map_of t (bn_name n) = map_of ?m (bn_name n)" unfolding plan_result_def by blast
    with False m show ?thesis by (simp add: at_key_def domIff)
  qed
  then show "bn_name n \<in> dom (map_of t)" and "if fl < bn_configured n
      then fl \<le> at_key t (bn_name n) \<and> at_key t (bn_name n) \<le> bn_configured n
      else at_key t (bn_name n) = bn_configured n" by blast+
qed

lemma plan_result_keys:
  assumes d: "distinct (map bn_name nodes)"
    and R: "plan_result fl (node_map (\<lambda>_. True) nodes []) (bn_name ` {n \<in> set nodes. fl < bn_configured n}) deficit t"
  shows "set (keys t) = bn_name ` set nodes"
proof -
  have "x \<in> bn_name ` set nodes" if x: "x \<in> dom (map_of t)" for x
  proof (rule ccontr)
    assume no: "x \<notin> bn_name ` set nodes"
    then have "x \<notin> bn_name ` {n \<in> set nodes. fl < bn_configured n}" by blast
    with R have "map_of t x = map_of (node_map (\<lambda>_. True) nodes []) x" unfolding plan_result_def by blast
    moreover have "map_of (node_map (\<lambda>_. True) nodes []) x = map_of [] x" using no by (intro node_map_other) auto
    ultimately show False using x by (simp add: domIff)
  qed
  then show ?thesis using plan_result_target(1) [OF d _ R] by (auto simp: set_keys)
qed

lemma plan_targets_correct:
  assumes "distinct (map bn_name nodes)" "0 \<le> fl" "deficit \<le> 2 ^ 31" "\<forall>n\<in>set nodes. 0 \<le> bn_configured n"
    and "sum_list (map bn_configured nodes) \<le> 2 ^ 31"
  shows "\<exists>t. plan_targets nodes deficit fl = Some t \<and> set (keys t) = bn_name ` set nodes
    \<and> (\<forall>n\<in>set nodes. min fl (bn_configured n) \<le> at_key t (bn_name n) \<and> at_key t (bn_name n) \<le> bn_configured n)
    \<and> (\<Sum>n\<leftarrow>nodes. bn_configured n - at_key t (bn_name n)) \<le> max 0 deficit
    \<and> ((\<forall>n\<in>set nodes. at_key t (bn_name n) \<le> fl)
       \<or> deficit - (\<Sum>n\<leftarrow>nodes. bn_configured n - at_key t (bn_name n)) < max 1 (int (length nodes)))"
proof -
  let ?D = "bn_name ` {n \<in> set nodes. fl < bn_configured n}"
  from plan_targets_result [OF assms] obtain t where t: "plan_targets nodes deficit fl = Some t"
    and R: "plan_result fl (node_map (\<lambda>_. True) nodes []) ?D deficit t" .
  have at: "min fl (bn_configured n) \<le> at_key t (bn_name n) \<and> at_key t (bn_name n) \<le> bn_configured n"
    if "n \<in> set nodes" for n
    using plan_result_target(2) [OF assms(1) that R] by (auto split: if_splits)
  have sum: "(\<Sum>n\<leftarrow>nodes. bn_configured n - at_key t (bn_name n)) = taken (node_map (\<lambda>_. True) nodes []) t ?D"
    using R unfolding plan_result_def by (intro reclaimed_sum [OF assms(1)]) auto
  have "card ?D \<le> length nodes"
    using card_image_le [of "{n \<in> set nodes. fl < bn_configured n}" bn_name]
      card_mono [of "set nodes" "{n \<in> set nodes. fl < bn_configured n}"] card_length [of nodes] by simp
  moreover have "\<forall>n\<in>set nodes. at_key t (bn_name n) \<le> fl" if "\<forall>x\<in>?D. at_key t x = fl"
  proof
    fix n assume n: "n \<in> set nodes"
    show "at_key t (bn_name n) \<le> fl"
      using plan_result_target(2) [OF assms(1) n R] that n by (cases "fl < bn_configured n") auto
  qed
  ultimately have "(\<forall>n\<in>set nodes. at_key t (bn_name n) \<le> fl)
      \<or> deficit - (\<Sum>n\<leftarrow>nodes. bn_configured n - at_key t (bn_name n)) < max 1 (int (length nodes))"
    using R unfolding sum plan_result_def by linarith
  moreover have "(\<Sum>n\<leftarrow>nodes. bn_configured n - at_key t (bn_name n)) \<le> max 0 deficit"
    using R unfolding sum plan_result_def by blast
  ultimately show ?thesis using t at plan_result_keys [OF assms(1) R] by (intro exI [of _ t]) blast
qed

text \<open>C2: A balloon plan always exists, has one target per node, and keeps every node between its
  floor and its configured size. It reclaims at most the deficit, and short of it by less than one
  MiB per node unless every node already is at the floor. (For distinct names and sizes within two
  pebibytes, where no product overflows.)\<close>

theorem balloon_plan_correct:
  assumes "distinct (map bn_name nodes)" "0 \<le> fl" "deficit \<le> 2 ^ 31" "\<forall>n\<in>set nodes. 0 \<le> bn_configured n"
    and "sum_list (map bn_configured nodes) \<le> 2 ^ 31"
  shows "\<exists>t. plan_targets nodes deficit fl = Some t \<and> set (keys t) = bn_name ` set nodes
    \<and> (\<forall>n\<in>set nodes. min fl (bn_configured n) \<le> at_key t (bn_name n) \<and> at_key t (bn_name n) \<le> bn_configured n)
    \<and> (\<Sum>n\<leftarrow>nodes. bn_configured n - at_key t (bn_name n)) \<le> max 0 deficit
    \<and> ((\<forall>n\<in>set nodes. at_key t (bn_name n) \<le> fl)
       \<or> deficit - (\<Sum>n\<leftarrow>nodes. bn_configured n - at_key t (bn_name n)) < max 1 (int (length nodes)))"
  using plan_targets_correct [OF assms] .

theorem balloon_plan_correct_witness:
  "\<exists>t. plan_targets [\<lparr>bn_name = ''a'', bn_configured = 2048\<rparr>, \<lparr>bn_name = ''b'', bn_configured = 6144\<rparr>] 4096 1024 = Some t
     \<and> at_key t ''a'' = 1024 \<and> at_key t ''b'' = 3072"
proof -
  let ?nodes = "[\<lparr>bn_name = ''a'', bn_configured = 2048\<rparr>, \<lparr>bn_name = ''b'', bn_configured = 6144\<rparr>]"
  have "\<exists>t. plan_targets ?nodes 4096 1024 = Some t" using balloon_plan_correct [of ?nodes 1024 4096] by auto
  moreover have "case_option False (\<lambda>t. at_key t ''a'' = 1024 \<and> at_key t ''b'' = 3072) (plan_targets ?nodes 4096 1024)"
    by code_simp
  ultimately show ?thesis by auto
qed

subsection \<open>The loop ends\<close>

text \<open>C13: The loop of PlanTargets ends for every input, even where its 64-bit arithmetic wraps around: the loop
  as written stops, after at most one pass per active node, and what it leaves is the result of
  \<open>plan_loop\<close>.\<close>

theorem plan_loop_terminates:
  "\<exists>s k. while_option plan_going (plan_body fl) (t, a, r, Running) = Some s \<and> k \<le> length a \<and>
     s = (plan_body fl ^^ k) (t, a, r, Running) \<and> plan_left s = plan_loop fl t a r"
proof (induction fl t a r rule: plan_loop.induct)
  case (1 fl t a r)
  let ?s = "(t, a, r, Running)"
  consider (stop) "\<not> plan_going ?s" | (last) "plan_going ?s" "\<not> plan_going (plan_body fl ?s)"
    "plan_left (plan_body fl ?s) = plan_loop fl t a r"
    | (more) t' a' d where "plan_going ?s" "total_weight a \<noteq> 0"
      "(t', a', d, True) = foldl (plan_step fl r (total_weight a)) (t, a, 0, False) (sort (keys a))"
  proof -
    obtain t' a' d c where f: "foldl (plan_step fl r (total_weight a)) (t, a, 0, False) (sort (keys a)) = (t', a', d, c)"
      by (metis prod_cases4)
    show thesis
      by (cases "plan_going ?s"; cases "total_weight a = 0"; cases c; insert f stop last more)
         (auto simp: plan_going_def plan_body_def plan_left_def plan_loop.simps [of fl t a r])
  qed
  then show ?case
  proof cases
    case stop
    then have "while_option plan_going (plan_body fl) ?s = Some ?s" "plan_left ?s = plan_loop fl t a r"
      by (simp add: while_option_unfold [of plan_going _ ?s])
         (use stop in \<open>simp add: plan_left_def plan_going_def plan_loop.simps\<close>)
    then show ?thesis by (intro exI [of _ ?s] exI [of _ 0]) simp
  next
    case last
    then have "while_option plan_going (plan_body fl) ?s = Some (plan_body fl ?s)" "1 \<le> length a"
      by (simp_all add: while_option_unfold [of plan_going _ ?s] while_option_unfold [of plan_going _ "plan_body fl ?s"])
         (simp add: plan_going_def Suc_leI)
    with last(3) show ?thesis by (intro exI [of _ "plan_body fl ?s"] exI [of _ 1]) simp
  next
    case more
    have b: "plan_body fl ?s = (t', a', i64 (r - d), Running)"
      using more(2,3) by (simp add: plan_body_def more(3) [symmetric])
    have "\<not> \<not> (r > 0 \<and> length a > 0)" "\<not> \<not> True" using more(1) by (simp_all add: plan_going_def)
    from "1.IH" [OF this(1) refl more(2,3) refl refl this(2)] obtain s k where
      s: "while_option plan_going (plan_body fl) (t', a', i64 (r - d), Running) = Some s" "k \<le> length a'"
        "s = (plan_body fl ^^ k) (t', a', i64 (r - d), Running)" "plan_left s = plan_loop fl t' a' (i64 (r - d))"
      by blast
    have "plan_loop fl t a r = plan_loop fl t' a' (i64 (r - d))"
      using more by (subst plan_loop.simps) (simp add: plan_going_def more(3) [symmetric])
    moreover have "while_option plan_going (plan_body fl) ?s = Some s"
      using more(1) s(1) by (simp add: while_option_unfold [of plan_going _ ?s] b)
    moreover have "Suc k \<le> length a" using s(2) plan_pass_shrinks [OF more(3)] by simp
    moreover have "s = (plan_body fl ^^ Suc k) ?s" using s(3) by (simp add: funpow_swap1 b)
    ultimately show ?thesis using s(4) by metis
  qed
qed

end
