(* ===== verification/Go_Time.thy ===== *)
theory Go_Time
  imports Go_Strings
begin

text \<open>
  What the daemon uses of Go's \<^verbatim>\<open>time\<close> package. An instant is its number of nanoseconds since the
  Unix epoch; the zero time, where the code tests for it, is an absent instant. A duration is a
  64-bit number of nanoseconds.
\<close>

definition Second :: int where "Second = 1000000000"
definition Minute :: int where "Minute = 60 * Second"

lemmas duration_consts = Minute_def Second_def

text \<open>The difference of two times saturates.\<close>

definition time_sub :: "int \<Rightarrow> int \<Rightarrow> int" where
  "time_sub a b = max (- (2 ^ 63)) (min (2 ^ 63 - 1) (a - b))"

lemma time_sub_less: "- (2 ^ 63) < c \<Longrightarrow> c \<le> 2 ^ 63 - 1 \<Longrightarrow> time_sub a b < c \<longleftrightarrow> a - b < c"
  by (auto simp: time_sub_def)

lemma time_sub_greater: "- (2 ^ 63) \<le> c \<Longrightarrow> c < 2 ^ 63 - 1 \<Longrightarrow> c < time_sub a b \<longleftrightarrow> c < a - b"
  by (auto simp: time_sub_def)

text \<open>\<^verbatim>\<open>Duration.Round\<close> rounds half away from zero and saturates.\<close>

definition duration_round :: "int \<Rightarrow> int \<Rightarrow> int" where
  "duration_round d m =
     (if m \<le> 0 then d
      else if d < 0 then
        (let r = - (d smod m); d1 = d - m + r
         in if r + r < m then d + r else if - (2 ^ 63) \<le> d1 then d1 else - (2 ^ 63))
      else
        (let r = d smod m; d1 = d + m - r
         in if r + r < m then d - r else if d1 < 2 ^ 63 then d1 else 2 ^ 63 - 1))"

lemma duration_round_near:
  assumes "0 < m" "0 \<le> d" "d + m < 2 ^ 63"
  shows "\<bar>2 * (duration_round d m - d)\<bar> \<le> m" "m dvd duration_round d m"
proof -
  have r: "d smod m = d mod m"
    using assms by (cases "d = 0") (simp_all add: signed_modulo_int_def)
  have bounds: "0 \<le> d mod m" "d mod m < m" using assms by simp_all
  have up: "d + m - d mod m < 2 ^ 63" using assms bounds by linarith
  have dvds: "m dvd d - d mod m" by (rule dvd_minus_mod)
  have "d + m - d mod m = (d - d mod m) + m" by simp
  then have "m dvd d + m - d mod m" using dvds by (metis dvd_add_triv_right_iff)
  note dvds = this dvds
  have eq: "duration_round d m = (if 2 * (d mod m) < m then d - d mod m else d + m - d mod m)"
    using assms up by (simp add: duration_round_def Let_def r)
  show "\<bar>2 * (duration_round d m - d)\<bar> \<le> m" using bounds by (simp add: eq)
  show "m dvd duration_round d m" unfolding eq using dvds by (simp only: if_split_eq1 simp_thms split: if_split)
qed

text \<open>\<^verbatim>\<open>Duration.String\<close>. A fraction loses its trailing zeros, and its point when nothing is left.\<close>

definition fmt_frac :: "nat \<Rightarrow> nat \<Rightarrow> string \<times> nat" where
  "fmt_frac v prec =
     (let ds = rev (dropWhile (\<lambda>c. c = CHR ''0'') (rev (pad_zero prec (format_nat 10 (v mod 10 ^ prec)))))
      in (if ds = [] then [] else CHR ''.'' # ds, v div 10 ^ prec))"

definition duration_string :: "int \<Rightarrow> string" where
  "duration_string d =
     (let u = nat \<bar>d\<bar>;
          body =
            (if u = 0 then ''0s''
             else if u < 1000 then format_nat 10 u @ ''ns''
             else if u < 1000000 then
               (case fmt_frac u 3 of (f, v) \<Rightarrow> format_nat 10 v @ f @ [CHR 0xC2, CHR 0xB5] @ ''s'')
             else if u < 1000000000 then
               (case fmt_frac u 6 of (f, v) \<Rightarrow> format_nat 10 v @ f @ ''ms'')
             else (case fmt_frac u 9 of (f, v) \<Rightarrow>
               (if v div 60 = 0 then []
                else (if v div 3600 = 0 then [] else format_nat 10 (v div 3600) @ ''h'')
                     @ format_nat 10 (v div 60 mod 60) @ ''m'')
               @ format_nat 10 (v mod 60) @ f @ ''s''))
      in if d < 0 then CHR ''-'' # body else body)"

text \<open>\<^verbatim>\<open>Format(time.RFC3339)\<close> of an instant in UTC: the civil date of its day, then its time of day.\<close>

definition civil_date :: "int \<Rightarrow> int \<times> int \<times> int" where
  "civil_date days =
     (let z = days + 719468; era = z div 146097; doe = z mod 146097;
          yoe = (doe - doe div 1460 + doe div 36524 - doe div 146096) div 365;
          doy = doe - (365 * yoe + yoe div 4 - yoe div 100);
          mp = (5 * doy + 2) div 153;
          d = doy - (153 * mp + 2) div 5 + 1;
          m = (if mp < 10 then mp + 3 else mp - 9);
          y = yoe + era * 400 + (if m \<le> 2 then 1 else 0)
      in (y, m, d))"

definition two :: "int \<Rightarrow> string" where "two n = pad_zero 2 (itoa n)"

definition rfc3339_utc :: "int \<Rightarrow> string" where
  "rfc3339_utc t =
     (let s = t div Second; (y, m, d) = civil_date (s div 86400); r = s mod 86400
      in pad_zero 4 (itoa y) @ ''-'' @ two m @ ''-'' @ two d @ ''T'' @ two (r div 3600) @ '':''
         @ two (r div 60 mod 60) @ '':'' @ two (r mod 60) @ ''Z'')"

end
