(* ===== verification/Balloon_Manager.thy ===== *)
theory Balloon_Manager
  imports Balloon_Plan Go_Time
begin

text \<open>
  The balloon manager, \<^verbatim>\<open>src/internal/balloon/manager.go\<close>: one reconcile per poll over the guests that
  run, with a latch that forbids handing memory back while the host is under pressure, a retry
  window per guest, and guests whose balloon device does not answer yet. Guests are an interface of
  the code: reading and setting a target acts on a world the manager does not see, of any type.
  Times and durations are in nanoseconds.
\<close>

subsection \<open>Samples, guests and the manager's ledger\<close>

datatype pressure = PressureUnknown | PressureNormal | PressureWarning | PressureCritical

record snapshot =
  TotalMiB :: int
  AvailableMiB :: int
  CompressorMiB :: int
  SwapTotalBytes :: "64 word"
  SwapAvailableBytes :: "64 word"
  Pressure :: pressure

datatype set_error = ErrQuiesced | ErrTargetPending | OtherSetError

text \<open>The guests of one poll. A guest that does not report its current target reads \<^const>\<open>None\<close>.\<close>

record 'w guests =
  g_names :: "string list"
  g_configured :: "string \<Rightarrow> int"
  g_current :: "'w \<Rightarrow> string \<Rightarrow> int option"
  g_set :: "'w \<Rightarrow> string \<Rightarrow> int \<Rightarrow> 'w \<times> set_error option"

datatype log_line =
    LogSetError string set_error
  | LogRestoring string int int
  | LogTarget string int int int int int int int bool
  | LogAdjusted string int int int int int
  | LogDeviceActive string int
  | LogInactive
  | LogStarted int int int
  | LogReadError

record manager =
  m_log :: "log_line list"
  m_last :: "(string, int) gomap"
  m_last_applied_deficit :: int
  m_last_applied_known :: bool
  m_last_applied_hold :: bool
  m_last_retarget :: "(string, int) gomap"
  m_retry_pending :: "(string, bool) gomap"
  m_pending_logged :: "(string, bool) gomap"
  m_device_pending :: "(string, bool) gomap"
  m_pressure_latched :: bool
  m_deadband :: int
  m_min_retarget_interval :: int

definition flag :: "(string, bool) gomap \<Rightarrow> string \<Rightarrow> bool" where
  "flag m k \<longleftrightarrow> map_of m k = Some True"

definition defaultDeadbandMiB :: int where "defaultDeadbandMiB = 256"
definition defaultMinRetargetInterval :: int where "defaultMinRetargetInterval = 60000000000"
definition pressureArmSwapPercent :: int where "pressureArmSwapPercent = 80"
definition pressureClearSwapPercent :: int where "pressureClearSwapPercent = 70"
definition pressureArmCompressorPct :: int where "pressureArmCompressorPct = 20"
definition pressureClearCompressorPct :: int where "pressureClearCompressorPct = 15"
definition pressureArmCompressorMiB :: int where "pressureArmCompressorMiB = 4 * 1024"
definition pressureClearCompressorMiB :: int where "pressureClearCompressorMiB = 3 * 1024"

definition new_manager :: manager where
  "new_manager = \<lparr>m_log = [], m_last = [], m_last_applied_deficit = 0, m_last_applied_known = False,
     m_last_applied_hold = False, m_last_retarget = [], m_retry_pending = [], m_pending_logged = [],
     m_device_pending = [], m_pressure_latched = False, m_deadband = defaultDeadbandMiB,
     m_min_retarget_interval = defaultMinRetargetInterval\<rparr>"

definition add_log :: "log_line list \<Rightarrow> manager \<Rightarrow> manager" where
  "add_log ls m = m\<lparr>m_log := m_log m @ ls\<rparr>"

definition in_retry_window :: "manager \<Rightarrow> string \<Rightarrow> int \<Rightarrow> bool" where
  "in_retry_window m name now = (case map_of (m_last_retarget m) name of
      Some at \<Rightarrow> time_sub now at < m_min_retarget_interval m | None \<Rightarrow> False)"

subsection \<open>The pressure latch\<close>

definition snapshot_swap_percent :: "snapshot \<Rightarrow> int" where
  "snapshot_swap_percent sample =
     (if SwapTotalBytes sample = 0 \<or> SwapAvailableBytes sample \<ge> SwapTotalBytes sample then 0
      else sint ((SwapTotalBytes sample - SwapAvailableBytes sample) * 100 div SwapTotalBytes sample))"

definition latch_armed :: "snapshot \<Rightarrow> bool" where
  "latch_armed sample \<longleftrightarrow> snapshot_swap_percent sample \<ge> pressureArmSwapPercent
     \<or> (if TotalMiB sample > 0 then i64 (CompressorMiB sample * 100) \<ge> i64 (TotalMiB sample * pressureArmCompressorPct)
        else CompressorMiB sample \<ge> pressureArmCompressorMiB)
     \<or> Pressure sample = PressureWarning \<or> Pressure sample = PressureCritical"

definition latch_clear :: "snapshot \<Rightarrow> bool" where
  "latch_clear sample \<longleftrightarrow> snapshot_swap_percent sample < pressureClearSwapPercent
     \<and> (if TotalMiB sample > 0 then i64 (CompressorMiB sample * 100) < i64 (TotalMiB sample * pressureClearCompressorPct)
        else CompressorMiB sample < pressureClearCompressorMiB)
     \<and> Pressure sample \<noteq> PressureWarning \<and> Pressure sample \<noteq> PressureCritical"

definition update_pressure_latch :: "snapshot \<Rightarrow> manager \<Rightarrow> manager" where
  "update_pressure_latch sample m =
     (if latch_armed sample then m\<lparr>m_pressure_latched := True\<rparr>
      else if latch_clear sample then m\<lparr>m_pressure_latched := False\<rparr> else m)"

subsection \<open>One guest\<close>

definition externally_moved_target :: "'w guests \<Rightarrow> 'w \<Rightarrow> string \<Rightarrow> int \<Rightarrow> bool \<Rightarrow> int \<times> bool" where
  "externally_moved_target g w name previous known =
     (if \<not> known then (0, False)
      else case g_current g w name of None \<Rightarrow> (0, False) | Some target \<Rightarrow> (target, target \<noteq> previous))"

definition current_mib :: "'w guests \<Rightarrow> manager \<Rightarrow> 'w \<Rightarrow> string \<Rightarrow> int" where
  "current_mib g m w name =
     (let recorded = (case map_of (m_last m) name of Some previous \<Rightarrow> previous | None \<Rightarrow> g_configured g name)
      in case g_current g w name of Some target \<Rightarrow> (if target > 0 then target else recorded) | None \<Rightarrow> recorded)"

datatype apply_outcome = Skipped | Applied | Pending | Failed

text \<open>The readings a telemetry line quotes.\<close>

record tick_info =
  ti_sample :: snapshot
  ti_reserve :: int
  ti_deficit :: int
  ti_hold :: bool
  ti_now :: int

definition apply_target ::
    "'w guests \<Rightarrow> tick_info \<Rightarrow> string \<Rightarrow> int \<Rightarrow> manager \<times> 'w \<Rightarrow> manager \<times> 'w \<times> apply_outcome"
where
  "apply_target g ti name target mw = (case mw of (m, w) \<Rightarrow>
     let previous = at_key (m_last m) name;
         known = has_key (m_last m) name;
         (externalTarget, externallyMoved) = externally_moved_target g w name previous known
     in
     if known \<and> \<not> externallyMoved \<and> previous = target then (m, w, Skipped)
     else if \<not> ti_hold ti \<and> (\<not> externallyMoved \<or> flag (m_retry_pending m) name) \<and> in_retry_window m name (ti_now ti)
     then (m\<lparr>m_retry_pending := AList.update name True (m_retry_pending m)\<rparr>, w, Skipped)
     else (case g_set g w name target of
         (w', Some ErrQuiesced) \<Rightarrow> (m, w', Skipped)
       | (w', Some ErrTargetPending) \<Rightarrow>
           (let m = (if flag (m_pending_logged m) name then m
                     else (add_log [LogSetError name ErrTargetPending] m)
                            \<lparr>m_pending_logged := AList.update name True (m_pending_logged m)\<rparr>)
            in (m\<lparr>m_device_pending := AList.update name True (m_device_pending m),
                  m_retry_pending := AList.update name True (m_retry_pending m),
                  m_last_retarget := AList.update name (ti_now ti) (m_last_retarget m)\<rparr>, w', Pending))
       | (w', Some OtherSetError) \<Rightarrow>
           ((add_log [LogSetError name OtherSetError] m)
              \<lparr>m_retry_pending := AList.update name True (m_retry_pending m)\<rparr>, w', Failed)
       | (w', None) \<Rightarrow>
           (let m = m\<lparr>m_last := AList.update name target (m_last m),
                      m_last_retarget := AList.update name (ti_now ti) (m_last_retarget m),
                      m_retry_pending := AList.delete name (m_retry_pending m),
                      m_pending_logged := AList.delete name (m_pending_logged m)\<rparr>
            in (if externallyMoved then add_log [LogRestoring name target externalTarget] m
                else add_log [LogTarget name target (g_configured g name) (AvailableMiB (ti_sample ti)) (ti_reserve ti) (ti_deficit ti)
                              (CompressorMiB (ti_sample ti)) (snapshot_swap_percent (ti_sample ti)) (m_pressure_latched m)] m,
                w', Applied))))"

subsection \<open>Planning\<close>

definition clamp_target :: "'w guests \<Rightarrow> manager \<Rightarrow> 'w \<Rightarrow> string \<times> int \<Rightarrow> string \<times> int" where
  "clamp_target g m w e = (case e of (name, target) \<Rightarrow>
     (name, case map_of (m_last m) name of
         None \<Rightarrow> target
       | Some previous \<Rightarrow>
           (let ceiling = (case g_current g w name of
                None \<Rightarrow> previous
              | Some currentTarget \<Rightarrow> if currentTarget > 0 \<and> currentTarget < previous then currentTarget else previous)
            in if target > ceiling then ceiling else target)))"

definition plan_active :: "'w guests \<Rightarrow> manager \<Rightarrow> 'w \<Rightarrow> int \<Rightarrow> int \<Rightarrow> target_map option" where
  "plan_active g m w deficit floor =
     (let nodes = map (\<lambda>name. \<lparr>bn_name = name, bn_configured = g_configured g name\<rparr>)
                    (filter (\<lambda>name. \<not> flag (m_device_pending m) name) (g_names g))
      in map_option (\<lambda>targets. if m_pressure_latched m then map (clamp_target g m w) targets else targets)
           (plan_targets nodes deficit floor))"

definition classify_step ::
    "'w guests \<Rightarrow> 'w \<Rightarrow> manager \<times> bool \<times> bool \<Rightarrow> string \<times> int \<Rightarrow> manager \<times> bool \<times> bool"
where
  "classify_step g w st e = (case st of (m, changed, hasUnapplied) \<Rightarrow> case e of (name, target) \<Rightarrow>
     let previous = at_key (m_last m) name;
         known = (has_key (m_last m) name \<and> \<not> snd (externally_moved_target g w name previous (has_key (m_last m) name)))
     in if \<not> known \<or> previous \<noteq> target
        then (m, True, hasUnapplied \<or> \<not> known \<or> flag (m_retry_pending m) name)
        else (m\<lparr>m_retry_pending := AList.delete name (m_retry_pending m)\<rparr>, changed, hasUnapplied))"

definition classify :: "'w guests \<Rightarrow> 'w \<Rightarrow> target_map \<Rightarrow> manager \<Rightarrow> manager \<times> bool \<times> bool" where
  "classify g w targets m = foldl (classify_step g w) (m, False, False) targets"

definition probe_device :: "'w guests \<Rightarrow> int \<Rightarrow> manager \<times> 'w \<Rightarrow> string \<Rightarrow> manager \<times> 'w" where
  "probe_device g now mw name = (case mw of (m, w) \<Rightarrow>
     if name \<notin> set (g_names g) then (m, w)
     else if in_retry_window m name now then (m, w)
     else (case g_set g w name (g_configured g name) of
         (w', Some ErrQuiesced) \<Rightarrow> (m, w')
       | (w', Some e) \<Rightarrow>
           (let m = (if e = ErrTargetPending then m else add_log [LogSetError name e] m)
            in (m\<lparr>m_last_retarget := AList.update name now (m_last_retarget m)\<rparr>, w'))
       | (w', None) \<Rightarrow>
           (add_log [LogDeviceActive name (g_configured g name)]
              (m\<lparr>m_device_pending := AList.delete name (m_device_pending m),
                 m_retry_pending := AList.delete name (m_retry_pending m),
                 m_pending_logged := AList.delete name (m_pending_logged m),
                 m_last := AList.update name (g_configured g name) (m_last m)\<rparr>), w')))"

definition probe_pending_devices :: "'w guests \<Rightarrow> int \<Rightarrow> manager \<times> 'w \<Rightarrow> manager \<times> 'w" where
  "probe_pending_devices g now mw = foldl (probe_device g now) mw (keys (m_device_pending (fst mw)))"

definition keep_names :: "string list \<Rightarrow> (string, 'v) gomap \<Rightarrow> (string, 'v) gomap" where
  "keep_names names m = filter (\<lambda>e. fst e \<in> set names) m"

text \<open>A guest that departs loses its record and its retry time in the first loop; the second loop
  drops retry times without a record, and the retry mark with them; the rest is per map.\<close>

definition drop_departed :: "string list \<Rightarrow> manager \<Rightarrow> manager" where
  "drop_departed names m =
     (let m = m\<lparr>m_last_retarget := filter (\<lambda>e. \<not> (has_key (m_last m) (fst e) \<and> fst e \<notin> set names)) (m_last_retarget m),
                m_last := keep_names names (m_last m)\<rparr>;
          m = m\<lparr>m_retry_pending := filter (\<lambda>e. \<not> (has_key (m_last_retarget m) (fst e) \<and> fst e \<notin> set names)) (m_retry_pending m),
                m_last_retarget := keep_names names (m_last_retarget m)\<rparr>;
          m = m\<lparr>m_retry_pending := keep_names names (m_retry_pending m),
                m_pending_logged := keep_names names (m_pending_logged m),
                m_device_pending := keep_names names (m_device_pending m)\<rparr>
      in if m_last m = [] then m\<lparr>m_last_applied_deficit := 0, m_last_applied_known := False, m_last_applied_hold := False\<rparr>
         else m)"

subsection \<open>One poll\<close>

type_synonym 'w tick_state = "manager \<times> 'w \<times> target_map \<times> bool \<times> bool"

text \<open>The state of a poll: ledger, world, the targets applied in it, whether any was, and whether a
  device turned out to be inactive in the present round.\<close>

definition offer :: "'w guests \<Rightarrow> tick_info \<Rightarrow> target_map \<Rightarrow> bool \<Rightarrow> 'w tick_state \<Rightarrow> string \<Rightarrow> 'w tick_state" where
  "offer g ti targets reductions st name = (case st of (m, w, applied, anySucceeded, newlyPending) \<Rightarrow>
     let target = at_key targets name in
     if (target < current_mib g m w name) \<noteq> reductions then st
     else if (case map_of applied name of Some prior \<Rightarrow> target \<ge> prior | None \<Rightarrow> False) then st
     else (case apply_target g ti name target (m, w) of (m', w', outcome) \<Rightarrow>
       (m', w', if outcome = Applied then AList.update name target applied else applied,
        anySucceeded \<or> outcome = Applied, newlyPending \<or> outcome = Pending)))"

definition offer_all :: "'w guests \<Rightarrow> tick_info \<Rightarrow> target_map \<Rightarrow> 'w tick_state \<Rightarrow> 'w tick_state" where
  "offer_all g ti targets st =
     (let names = sort (keys targets);
          st' = foldl (offer g ti targets True) st names
      in case st' of (m, w, applied, anySucceeded, newlyPending) \<Rightarrow>
           if newlyPending then st' else foldl (offer g ti targets False) st' names)"

definition abs_int :: "int \<Rightarrow> int" where
  "abs_int v = (if v < 0 then i64 (- v) else v)"

fun plan_rounds :: "'w guests \<Rightarrow> tick_info \<Rightarrow> int \<Rightarrow> nat \<Rightarrow> bool \<Rightarrow> 'w tick_state \<Rightarrow> 'w tick_state option" where
  "plan_rounds g ti floor 0 first st = Some st"
| "plan_rounds g ti floor (Suc k) first (m, w, applied, anySucceeded, newlyPending) =
     (case plan_active g m w (ti_deficit ti) floor of
        None \<Rightarrow> None
      | Some targets \<Rightarrow>
          (case classify g w targets m of (m, changed, hasUnapplied) \<Rightarrow>
            if \<not> changed then Some (m, w, applied, anySucceeded, newlyPending)
            else if first \<and> \<not> ti_hold ti \<and> \<not> m_last_applied_hold m \<and> m_last_applied_known m
                \<and> abs_int (i64 (ti_deficit ti - m_last_applied_deficit m)) < m_deadband m \<and> \<not> hasUnapplied
            then Some (m, w, applied, anySucceeded, newlyPending)
            else (case offer_all g ti targets (m, w, applied, anySucceeded, False) of
                (m, w, applied, anySucceeded, newlyPending) \<Rightarrow>
                  if \<not> newlyPending then Some (m, w, applied, anySucceeded, newlyPending)
                  else plan_rounds g ti floor k False (m, w, applied, anySucceeded, newlyPending))))"

definition natural_deficit :: "manager \<Rightarrow> snapshot \<Rightarrow> int \<Rightarrow> int" where
  "natural_deficit m sample reserve =
     (let d = i64 (reserve - AvailableMiB sample); d = (if d < 0 then 0 else d)
      in if d > 0 \<and> d < m_deadband m then 0 else d)"

definition reconcile_snapshot ::
    "'w guests \<Rightarrow> snapshot \<Rightarrow> int \<Rightarrow> int \<Rightarrow> int \<Rightarrow> int \<Rightarrow> manager \<times> 'w \<Rightarrow> (manager \<times> 'w) option"
where
  "reconcile_snapshot g sample reserve floor hold now mw = (case mw of (m, w) \<Rightarrow>
     let m = update_pressure_latch sample m;
         natural = natural_deficit m sample reserve;
         deficit = (if hold > natural then hold else natural);
         holdSetsDeficit = (hold > 0 \<and> hold \<ge> natural);
         ti = \<lparr>ti_sample = sample, ti_reserve = reserve, ti_deficit = deficit, ti_hold = holdSetsDeficit, ti_now = now\<rparr>;
         (m, w) = probe_pending_devices g now (m, w)
     in map_option (\<lambda>(m, w, applied, anySucceeded, newlyPending).
           (drop_departed (g_names g)
              (if anySucceeded then m\<lparr>m_last_applied_deficit := deficit, m_last_applied_known := True,
                                      m_last_applied_hold := holdSetsDeficit\<rparr> else m), w))
         (plan_rounds g ti floor (length (g_names g) + 1) True (m, w, [], False, False)))"

text \<open>The stateless entry point.\<close>

definition reconcile_one ::
    "'w guests \<Rightarrow> int \<Rightarrow> int \<Rightarrow> int \<Rightarrow> target_map \<Rightarrow> manager \<times> 'w \<Rightarrow> string \<Rightarrow> manager \<times> 'w"
where
  "reconcile_one g host_free reserve deficit targets mw name = (case mw of (m, w) \<Rightarrow>
     let target = at_key targets name in
     (case g_set g w name target of
        (w', Some e) \<Rightarrow> ((add_log [LogSetError name e] m)\<lparr>m_last := AList.delete name (m_last m)\<rparr>, w')
      | (w', None) \<Rightarrow>
          (let m = (if map_of (m_last m) name = Some target then m
                    else add_log [LogAdjusted name target (g_configured g name) host_free reserve deficit] m)
           in (m\<lparr>m_last := AList.update name target (m_last m)\<rparr>, w'))))"

definition reconcile ::
    "'w guests \<Rightarrow> int \<Rightarrow> int \<Rightarrow> int \<Rightarrow> manager \<times> 'w \<Rightarrow> (manager \<times> 'w) option"
where
  "reconcile g host_free reserve floor mw =
     (let nodes = map (\<lambda>name. \<lparr>bn_name = name, bn_configured = g_configured g name\<rparr>) (g_names g);
          deficit = i64 (reserve - host_free); deficit = (if deficit < 0 then 0 else deficit)
      in map_option (\<lambda>targets.
           (case foldl (reconcile_one g host_free reserve deficit targets) mw (sort (g_names g)) of
              (m, w) \<Rightarrow> (m\<lparr>m_last := keep_names (g_names g) (m_last m)\<rparr>, w)))
         (plan_targets nodes deficit floor))"

subsection \<open>Settings and the poll loop\<close>

record balloon_config =
  bc_reserve :: int
  bc_floor :: int
  bc_poll_interval :: int
  bc_deadband :: int
  bc_min_retarget_interval :: int

definition disable_setting :: "(string \<Rightarrow> string) \<Rightarrow> string \<Rightarrow> bool \<times> string" where
  "disable_setting U raw = (to_lower U (trim_space raw) \<in> {''1'', ''true'', ''yes''}, raw)"

definition disabled :: "(string \<Rightarrow> string) \<Rightarrow> string \<Rightarrow> bool" where
  "disabled U raw = fst (disable_setting U raw)"

definition recognized_off :: "(string \<Rightarrow> string) \<Rightarrow> string \<Rightarrow> bool" where
  "recognized_off U raw \<longleftrightarrow> to_lower U (trim_space raw) \<in> {''0'', ''false'', ''no''}"

definition default_config :: "string \<Rightarrow> balloon_config" where
  "default_config v =
     \<lparr>bc_reserve = (case atoi v of Some n \<Rightarrow> (if n > 0 then n else 6144) | None \<Rightarrow> 6144), bc_floor = 1024,
      bc_poll_interval = 5000000000, bc_deadband = defaultDeadbandMiB,
      bc_min_retarget_interval = defaultMinRetargetInterval\<rparr>"

text \<open>What the loop sees at a tick: whether the daemon is tearing guests down, the memory probe, the
  hold, the guests and the time. A hold of a configuration without one is 0.\<close>

datatype 'w tick = Stop | Tick (tick_paused: bool) (tick_probe: "snapshot option") (tick_hold: int)
    (tick_guests: "'w guests") (tick_now: int)

fun run_ticks :: "balloon_config \<Rightarrow> manager \<times> 'w \<Rightarrow> 'w tick list \<Rightarrow> (manager \<times> 'w) option" where
  "run_ticks cfg mw [] = Some mw"
| "run_ticks cfg mw (Stop # ts) = Some mw"
| "run_ticks cfg mw (Tick paused probe hold g now # ts) =
     (if paused then run_ticks cfg mw ts
      else case probe of
          None \<Rightarrow> run_ticks cfg (add_log [LogReadError] (fst mw), snd mw) ts
        | Some sample \<Rightarrow>
            (case reconcile_snapshot g sample (bc_reserve cfg) (bc_floor cfg) hold now mw of
               None \<Rightarrow> None | Some mw' \<Rightarrow> run_ticks cfg mw' ts))"

definition configured_manager :: "balloon_config \<Rightarrow> manager" where
  "configured_manager cfg =
     (let m = new_manager;
          m = (if bc_deadband cfg > 0 then m\<lparr>m_deadband := bc_deadband cfg\<rparr> else m)
      in if bc_min_retarget_interval cfg > 0 then m\<lparr>m_min_retarget_interval := bc_min_retarget_interval cfg\<rparr> else m)"

definition run_with_logger :: "balloon_config \<Rightarrow> bool \<Rightarrow> 'w \<Rightarrow> 'w tick list \<Rightarrow> (manager \<times> 'w) option" where
  "run_with_logger cfg unsupported w ticks =
     (let m = configured_manager cfg in
      if unsupported then Some (add_log [LogInactive] m, w)
      else run_ticks cfg (add_log [LogStarted (bc_reserve cfg) (bc_floor cfg) (bc_poll_interval cfg)] m, w) ticks)"

subsection \<open>What one poll may write\<close>

text \<open>The parts of the ledger that the operations on guests leave alone.\<close>

definition same_policy :: "manager \<Rightarrow> manager \<Rightarrow> bool" where
  "same_policy m m' \<longleftrightarrow> m_pressure_latched m' = m_pressure_latched m \<and> m_deadband m' = m_deadband m
     \<and> m_min_retarget_interval m' = m_min_retarget_interval m"

lemma same_policy_refl [simp]: "same_policy m m"
  by (simp add: same_policy_def)

lemma same_policy_trans: "same_policy a b \<Longrightarrow> same_policy b c \<Longrightarrow> same_policy a c"
  by (simp add: same_policy_def)

lemma apply_target_last:
  assumes "apply_target g ti x target (m, w) = (m', w', out)"
  shows "m_last m' = (if out = Applied then AList.update x target (m_last m) else m_last m)" "same_policy m m'"
  using assms
  by (auto simp: apply_target_def same_policy_def add_log_def Let_def
      split: prod.splits option.splits set_error.splits if_splits)

text \<open>A value of the record is an old one or one of the values the round proposes.\<close>

definition last_from :: "manager \<Rightarrow> (string \<Rightarrow> int option) \<Rightarrow> manager \<Rightarrow> bool" where
  "last_from m T m' \<longleftrightarrow> same_policy m m' \<and>
     (\<forall>x. map_of (m_last m') x = map_of (m_last m) x \<or> (T x \<noteq> None \<and> map_of (m_last m') x = T x))"

lemma last_from_refl [simp]: "last_from m T m"
  by (simp add: last_from_def)

lemma last_from_step:
  "last_from m T m' \<Longrightarrow> same_policy m' m'' \<Longrightarrow>
   \<forall>x. map_of (m_last m'') x = map_of (m_last m') x \<or> (T x \<noteq> None \<and> map_of (m_last m'') x = T x) \<Longrightarrow> last_from m T m''"
  unfolding last_from_def by (metis same_policy_trans)

lemma map_of_at_key: "x \<in> set (keys t) \<Longrightarrow> map_of t x = Some (at_key t x)"
  by (auto simp: set_keys at_key_def)

lemma offer_last:
  assumes "last_from m0 (map_of targets) m" "name \<in> set (keys targets)"
    and "offer g ti targets red (m, w, a, s, p) name = (m', w', a', s', p')"
  shows "last_from m0 (map_of targets) m'"
proof -
  obtain n v out where A: "apply_target g ti name (at_key targets name) (m, w) = (n, v, out)"
    by (metis prod_cases3)
  from assms(3) have "m' = m \<or> m' = n" by (auto simp: offer_def Let_def A split: if_splits option.splits)
  then show ?thesis
  proof
    assume "m' = n"
    with apply_target_last [OF A] map_of_at_key [OF assms(2)] show ?thesis
      by (intro last_from_step [OF assms(1)]) auto
  qed (use assms(1) in simp)
qed

lemma offers_last:
  assumes "set names \<subseteq> set (keys targets)" "last_from m0 (map_of targets) (fst st)"
  shows "last_from m0 (map_of targets) (fst (foldl (offer g ti targets red) st names))"
  using assms
proof (induction names arbitrary: st)
  case (Cons n names)
  obtain m w a s p where st: "st = (m, w, a, s, p)" by (metis prod_cases5)
  have "last_from m0 (map_of targets) (fst (offer g ti targets red st n))"
    using offer_last [of m0 targets m n g ti red w a s p] Cons.prems
    by (cases "offer g ti targets red st n") (auto simp: st)
  with Cons show ?case by simp
qed simp

lemma offer_all_last:
  "last_from m (map_of targets) (fst (offer_all g ti targets (m, w, a, s, p)))"
proof -
  let ?one = "foldl (offer g ti targets True) (m, w, a, s, p) (sort (keys targets))"
  have one: "last_from m (map_of targets) (fst ?one)" by (rule offers_last) simp_all
  then have "last_from m (map_of targets) (fst (foldl (offer g ti targets False) ?one (sort (keys targets))))"
    by (intro offers_last) simp_all
  with one show ?thesis by (auto simp: offer_all_def Let_def split: prod.splits)
qed

lemma classify_last: "m_last (fst (classify g w targets m)) = m_last m \<and> same_policy m (fst (classify g w targets m))"
proof -
  have "m_last (fst (foldl (classify_step g w) st targets)) = m_last (fst st)
      \<and> same_policy (fst st) (fst (foldl (classify_step g w) st targets))" for st
  proof (induction targets arbitrary: st)
    case (Cons e targets)
    have "m_last (fst (classify_step g w st e)) = m_last (fst st)" "same_policy (fst st) (fst (classify_step g w st e))"
      by (auto simp: classify_step_def same_policy_def Let_def split: prod.splits)
    with Cons.IH [of "classify_step g w st e"] show ?case by (auto intro: same_policy_trans)
  qed simp
  from this [of "(m, False, False)"] show ?thesis by (simp add: classify_def)
qed

lemma probe_last:
  assumes "probe_device g now (m, w) x = (m', w')"
  shows "same_policy m m'" "\<And>y. map_of (m_last m') y = map_of (m_last m) y \<or> (y = x \<and> map_of (m_last m') y = Some (g_configured g y))"
  using assms
  by (auto simp: probe_device_def same_policy_def add_log_def Let_def
      split: if_splits prod.splits option.splits set_error.splits)

lemma probes_last:
  "same_policy (fst mw) (fst (foldl (probe_device g now) mw xs)) \<and>
   (\<forall>y. map_of (m_last (fst (foldl (probe_device g now) mw xs))) y = map_of (m_last (fst mw)) y
      \<or> (y \<in> set xs \<and> map_of (m_last (fst (foldl (probe_device g now) mw xs))) y = Some (g_configured g y)))"
proof (induction xs arbitrary: mw)
  case (Cons x xs)
  obtain m w m' w' where P: "mw = (m, w)" "probe_device g now (m, w) x = (m', w')" by (metis prod.exhaust)
  let ?M = "fst (foldl (probe_device g now) (m', w') xs)"
  have step: "foldl (probe_device g now) mw (x # xs) = foldl (probe_device g now) (m', w') xs" by (simp add: P)
  have IH: "same_policy m' ?M" "\<And>y. map_of (m_last ?M) y = map_of (m_last m') y
      \<or> (y \<in> set xs \<and> map_of (m_last ?M) y = Some (g_configured g y))"
    using Cons.IH [of "(m', w')"] by auto
  show ?case unfolding step
  proof (intro conjI allI)
    show "same_policy (fst mw) ?M" using same_policy_trans [OF probe_last(1) [OF P(2)] IH(1)] by (simp add: P)
    fix y
    show "map_of (m_last ?M) y = map_of (m_last (fst mw)) y
        \<or> (y \<in> set (x # xs) \<and> map_of (m_last ?M) y = Some (g_configured g y))"
      using IH(2) [of y] probe_last(2) [OF P(2), of y] by (auto simp: P)
  qed
qed simp

subsection \<open>Every target is admissible\<close>

definition sizes_ok :: "'w guests \<Rightarrow> bool" where
  "sizes_ok g \<longleftrightarrow> distinct (g_names g) \<and> (\<forall>x\<in>set (g_names g). 0 \<le> g_configured g x)
     \<and> sum_list (map (g_configured g) (g_names g)) \<le> 2 ^ 31"

text \<open>The bounds on a target: the configured size from above; under the latch also what the guest was
  last set to, and otherwise the floor from below.\<close>

definition admissible :: "'w guests \<Rightarrow> int \<Rightarrow> manager \<Rightarrow> string \<Rightarrow> int \<Rightarrow> bool" where
  "admissible g fl m x v \<longleftrightarrow> x \<in> set (g_names g) \<and> v \<le> g_configured g x
     \<and> (if m_pressure_latched m then \<forall>p. map_of (m_last m) x = Some p \<longrightarrow> v \<le> p else min fl (g_configured g x) \<le> v)"

lemma map_of_clamp:
  "map_of (map (clamp_target g m w) t) x = map_option (\<lambda>v. snd (clamp_target g m w (x, v))) (map_of t x)"
proof (induction t)
  case (Cons e t)
  have "fst (clamp_target g m w e) = fst e" "clamp_target g m w e = clamp_target g m w (fst e, snd e)"
    by (simp_all add: clamp_target_def split: prod.split)
  with Cons show ?case by (cases e; cases "clamp_target g m w e") auto
qed simp

lemma clamp_le:
  "snd (clamp_target g m w (x, v)) \<le> v" "map_of (m_last m) x = Some p \<Longrightarrow> snd (clamp_target g m w (x, v)) \<le> p"
  by (auto simp: clamp_target_def Let_def split: option.splits)

lemma plan_nodes_ok:
  fixes P :: "string \<Rightarrow> bool"
  assumes "sizes_ok g"
  defines "ns \<equiv> map (\<lambda>name. \<lparr>bn_name = name, bn_configured = g_configured g name\<rparr>) (filter P (g_names g))"
  shows "distinct (map bn_name ns)" "\<forall>n\<in>set ns. 0 \<le> bn_configured n" "sum_list (map bn_configured ns) \<le> 2 ^ 31"
proof -
  have "(\<Sum>x\<leftarrow>filter P xs. g_configured g x) \<le> sum_list (map (g_configured g) xs)"
    if "\<forall>x\<in>set xs. 0 \<le> g_configured g x" for xs
    using that by (induction xs) auto
  from this [of "g_names g"] show "sum_list (map bn_configured ns) \<le> 2 ^ 31"
    using assms(1) by (simp add: ns_def sizes_ok_def comp_def)
  show "distinct (map bn_name ns)" "\<forall>n\<in>set ns. 0 \<le> bn_configured n"
    using assms(1) by (auto simp: ns_def sizes_ok_def comp_def)
qed

lemma plan_active_admissible:
  assumes "sizes_ok g" "0 \<le> fl" "deficit \<le> 2 ^ 31"
  shows "\<exists>t. plan_active g m w deficit fl = Some t
    \<and> (\<forall>x. has_key t x \<longleftrightarrow> x \<in> set (g_names g) \<and> \<not> flag (m_device_pending m) x)
    \<and> (\<forall>x v. map_of t x = Some v \<longrightarrow> admissible g fl m x v)"
proof -
  let ?N = "filter (\<lambda>name. \<not> flag (m_device_pending m) name) (g_names g)"
  let ?ns = "map (\<lambda>name. \<lparr>bn_name = name, bn_configured = g_configured g name\<rparr>) ?N"
  obtain t where t: "plan_targets ?ns deficit fl = Some t" "set (keys t) = bn_name ` set ?ns"
    and b: "\<forall>n\<in>set ?ns. min fl (bn_configured n) \<le> at_key t (bn_name n) \<and> at_key t (bn_name n) \<le> bn_configured n"
    using plan_targets_correct [OF plan_nodes_ok(1) [OF assms(1)] assms(2,3) plan_nodes_ok(2,3) [OF assms(1)]] by blast
  have "bn_name ` set ?ns = set ?N" by (simp add: image_image)
  with t(2) have dom: "has_key t x \<longleftrightarrow> x \<in> set ?N" for x unfolding has_key_keys by (simp only:)
  have val: "x \<in> set (g_names g) \<and> min fl (g_configured g x) \<le> v \<and> v \<le> g_configured g x" if "map_of t x = Some v" for x v
  proof -
    from that dom [of x] have x: "x \<in> set ?N" by simp
    with b that show ?thesis by (auto simp: at_key_def)
  qed
  let ?t = "if m_pressure_latched m then map (clamp_target g m w) t else t"
  have "plan_active g m w deficit fl = Some ?t" by (simp add: plan_active_def t(1))
  moreover have "has_key ?t x \<longleftrightarrow> x \<in> set (g_names g) \<and> \<not> flag (m_device_pending m) x" for x
    using dom [of x] by (simp add: map_of_clamp)
  moreover have "admissible g fl m x v" if "map_of ?t x = Some v" for x v
  proof (cases "m_pressure_latched m")
    case True
    with that obtain u where "map_of t x = Some u" "v = snd (clamp_target g m w (x, u))" by (auto simp: map_of_clamp)
    with val [of x u] True clamp_le(1) [of g m w x u] clamp_le(2) [of m x _ g w u] show ?thesis
      by (auto simp: admissible_def)
  next
    case False
    with that val show ?thesis by (auto simp: admissible_def)
  qed
  ultimately show ?thesis by blast
qed

text \<open>How the record may have moved from one moment of a poll to a later one.\<close>

definition moved :: "'w guests \<Rightarrow> int \<Rightarrow> manager \<Rightarrow> manager \<Rightarrow> bool" where
  "moved g fl m m' \<longleftrightarrow> same_policy m m' \<and>
     (\<forall>x. map_of (m_last m') x = map_of (m_last m) x \<or> (\<exists>v. map_of (m_last m') x = Some v \<and> admissible g fl m x v))"

lemma moved_refl [simp]: "moved g fl m m"
  by (simp add: moved_def)

lemma moved_trans:
  assumes "moved g fl a b" "moved g fl b c"
  shows "moved g fl a c"
  unfolding moved_def
proof (intro conjI allI)
  show "same_policy a c" using assms by (auto simp: moved_def intro: same_policy_trans)
  fix x
  have latch: "m_pressure_latched b = m_pressure_latched a" using assms(1) by (simp add: moved_def same_policy_def)
  have ab: "map_of (m_last b) x = map_of (m_last a) x \<or> (\<exists>v. map_of (m_last b) x = Some v \<and> admissible g fl a x v)"
    using assms(1) by (simp add: moved_def)
  have bc: "map_of (m_last c) x = map_of (m_last b) x \<or> (\<exists>v. map_of (m_last c) x = Some v \<and> admissible g fl b x v)"
    using assms(2) by (simp add: moved_def)
  have "admissible g fl a x v" if "admissible g fl b x v" for v
    using ab that latch by (force simp: admissible_def)
  with ab bc show "map_of (m_last c) x = map_of (m_last a) x \<or> (\<exists>v. map_of (m_last c) x = Some v \<and> admissible g fl a x v)"
    by metis
qed

lemma moved_round:
  assumes "last_from n (map_of t) m'" "m_last n = m_last m" "same_policy m n" "\<forall>x v. map_of t x = Some v \<longrightarrow> admissible g fl m x v"
  shows "moved g fl m m'"
  unfolding moved_def
proof (intro conjI allI)
  show "same_policy m m'" using assms by (auto simp: last_from_def intro: same_policy_trans)
  fix x
  show "map_of (m_last m') x = map_of (m_last m) x \<or> (\<exists>v. map_of (m_last m') x = Some v \<and> admissible g fl m x v)"
    using assms(1,2,4) by (cases "map_of t x") (auto simp: last_from_def)
qed

lemma plan_rounds_moved:
  assumes g: "sizes_ok g" "0 \<le> fl" "ti_deficit ti \<le> 2 ^ 31"
  shows "\<exists>st. plan_rounds g ti fl k first (m, w, a, s, p) = Some st \<and> moved g fl m (fst st)"
proof (induction k arbitrary: m w a s p first)
  case (Suc k)
  obtain t where t: "plan_active g m w (ti_deficit ti) fl = Some t" "\<forall>x v. map_of t x = Some v \<longrightarrow> admissible g fl m x v"
    using plan_active_admissible [OF g] by blast
  obtain n ch un where c: "classify g w t m = (n, ch, un)" by (metis prod_cases3)
  have n: "m_last n = m_last m" "same_policy m n" using classify_last [of g w t m] by (simp_all add: c)
  then have mn: "moved g fl m n" by (simp add: moved_def)
  obtain m' w' a' s' p' where o: "offer_all g ti t (n, w, a, s, False) = (m', w', a', s', p')" by (metis prod_cases5)
  have "last_from n (map_of t) m'" using offer_all_last [of n t g ti w a s False] by (simp add: o)
  then have mm: "moved g fl m m'" by (rule moved_round [OF _ n t(2)])
  from Suc.IH [of False m' w' a' s' p'] obtain st where
    "plan_rounds g ti fl k False (m', w', a', s', p') = Some st" "moved g fl m (fst st)"
    using moved_trans [OF mm] by blast
  with mn mm show ?case by (cases st) (auto simp: t c o)
qed simp

declare plan_rounds.simps(2) [simp del]

lemma keep_names_map [simp]: "map_of (keep_names names m) x = (if x \<in> set names then map_of m x else None)"
  by (induction m) (auto simp: keep_names_def)

lemma drop_departed_last:
  "map_of (m_last (drop_departed names m)) x = (if x \<in> set names then map_of (m_last m) x else None)"
  "same_policy m (drop_departed names m)"
  using keep_names_map [of names "m_last m" x]
  by (auto simp: drop_departed_def same_policy_def Let_def simp del: keep_names_map)

lemma latch_update:
  "m_last (update_pressure_latch s m) = m_last m" "m_device_pending (update_pressure_latch s m) = m_device_pending m"
  "m_pressure_latched (update_pressure_latch s m) \<longleftrightarrow> latch_armed s \<or> (m_pressure_latched m \<and> \<not> latch_clear s)"
  by (auto simp: update_pressure_latch_def)

lemma natural_deficit_le: "i64 (reserve - AvailableMiB s) \<le> 2 ^ 31 \<Longrightarrow> natural_deficit m s reserve \<le> 2 ^ 31"
  by (simp add: natural_deficit_def Let_def)

lemma reconcile_snapshot_moved:
  assumes g: "sizes_ok g" "0 \<le> fl" and d: "hold \<le> 2 ^ 31" "i64 (reserve - AvailableMiB sample) \<le> 2 ^ 31"
  obtains m1 m2 w' where "reconcile_snapshot g sample reserve fl hold now (m, w) = Some (drop_departed (g_names g) m2, w')"
    "same_policy (update_pressure_latch sample m) m1"
    "\<forall>y. map_of (m_last m1) y = map_of (m_last m) y
        \<or> (y \<in> set (keys (m_device_pending m)) \<and> map_of (m_last m1) y = Some (g_configured g y))"
    "moved g fl m1 m2"
proof -
  let ?m = "update_pressure_latch sample m"
  define natural where "natural = natural_deficit ?m sample reserve"
  define ti where "ti = \<lparr>ti_sample = sample, ti_reserve = reserve, ti_deficit = (if hold > natural then hold else natural),
    ti_hold = (hold > 0 \<and> hold \<ge> natural), ti_now = now\<rparr>"
  have ti: "ti_deficit ti \<le> 2 ^ 31" using d natural_deficit_le [OF d(2)] by (simp add: ti_def natural_def)
  obtain m1 w1 where p: "probe_pending_devices g now (?m, w) = (m1, w1)" by (metis prod.exhaust)
  obtain m2 w2 a s q where r: "plan_rounds g ti fl (length (g_names g) + 1) True (m1, w1, [], False, False) = Some (m2, w2, a, s, q)"
    and mv: "moved g fl m1 m2"
    using plan_rounds_moved [OF g ti] by (metis fst_conv prod_cases5)
  let ?m3 = "if s then m2\<lparr>m_last_applied_deficit := ti_deficit ti, m_last_applied_known := True, m_last_applied_hold := ti_hold ti\<rparr> else m2"
  have "moved g fl m1 ?m3" using mv by (simp add: moved_def same_policy_def)
  moreover have "reconcile_snapshot g sample reserve fl hold now (m, w) = Some (drop_departed (g_names g) ?m3, w2)"
    using r unfolding ti_def natural_def by (simp add: reconcile_snapshot_def Let_def p)
  moreover have "same_policy ?m m1" "\<forall>y. map_of (m_last m1) y = map_of (m_last m) y
        \<or> (y \<in> set (keys (m_device_pending m)) \<and> map_of (m_last m1) y = Some (g_configured g y))"
    using probes_last [of "(?m, w)" g now "keys (m_device_pending m)"] p
    by (auto simp: probe_pending_devices_def latch_update)
  ultimately show ?thesis using that by blast
qed


definition sample_guests :: "(string \<times> int) list guests" where
  "sample_guests = \<lparr>g_names = [''a'', ''b''], g_configured = (\<lambda>n. if n = ''a'' then 2048 else 6144),
     g_current = map_of, g_set = (\<lambda>w n t. (AList.update n t w, None))\<rparr>"

definition sample_snapshot :: snapshot where
  "sample_snapshot = \<lparr>TotalMiB = 16384, AvailableMiB = 2048, CompressorMiB = 0, SwapTotalBytes = 0,
     SwapAvailableBytes = 0, Pressure = PressureWarning\<rparr>"


subsection \<open>Guests that obey\<close>

text \<open>What the devices promise when they work: a set succeeds, and it leaves the other guests alone.\<close>

definition obedient :: "'w guests \<Rightarrow> bool" where
  "obedient g \<longleftrightarrow> (\<forall>w n t. snd (g_set g w n t) = None
     \<and> (\<forall>k. k \<noteq> n \<longrightarrow> g_current g (fst (g_set g w n t)) k = g_current g w k))"

definition settled :: "manager \<times> 'w \<Rightarrow> string \<Rightarrow> int \<Rightarrow> bool" where
  "settled mw x v \<longleftrightarrow> map_of (m_last (fst mw)) x = Some v"

definition same_guest :: "'w guests \<Rightarrow> string \<Rightarrow> manager \<times> 'w \<Rightarrow> manager \<times> 'w \<Rightarrow> bool" where
  "same_guest g x mw mw' \<longleftrightarrow> map_of (m_last (fst mw')) x = map_of (m_last (fst mw)) x
     \<and> g_current g (snd mw') x = g_current g (snd mw) x"

lemma same_guest_refl [simp]: "same_guest g x mw mw"
  by (simp add: same_guest_def)



lemma apply_obedient:
  assumes g: "obedient g" and h: "ti_hold ti" and a: "apply_target g ti x v (m, w) = (m', w', out)"
  shows "settled (m', w') x v" "out \<noteq> Pending" "y \<noteq> x \<Longrightarrow> same_guest g y (m, w) (m', w')"
proof -
  obtain w1 where s: "g_set g w x v = (w1, None)" using g by (metis obedient_def prod.collapse)
  have cur: "y \<noteq> x \<Longrightarrow> g_current g w1 y = g_current g w y" for y
    using g s unfolding obedient_def by (metis fst_conv)
  have "(m', w', out) = (m, w, Skipped) \<and> settled (m, w) x v
      \<or> (w' = w1 \<and> out = Applied \<and> m_last m' = AList.update x v (m_last m))"
    using a h
    by (auto simp: apply_target_def externally_moved_target_def s Let_def add_log_def settled_def at_key_def
        split: option.splits if_splits)
  then show "settled (m', w') x v" "out \<noteq> Pending" "y \<noteq> x \<Longrightarrow> same_guest g y (m, w) (m', w')"
    using cur [of y] by (auto simp: settled_def same_guest_def)
qed

lemma same_guest_trans: "same_guest g x a b \<Longrightarrow> same_guest g x b c \<Longrightarrow> same_guest g x a c"
  by (simp add: same_guest_def)

lemma same_guest_settled: "same_guest g x a b \<Longrightarrow> settled b x v \<longleftrightarrow> settled a x v"
  by (simp add: same_guest_def settled_def)

lemma same_guest_current: "same_guest g x (m, w) (m', w') \<Longrightarrow> current_mib g m' w' x = current_mib g m w x"
  by (simp add: same_guest_def current_mib_def)

text \<open>The state of ledger and world in a poll, and what the targets applied in it mean.\<close>

definition ledger :: "'w tick_state \<Rightarrow> manager \<times> 'w" where
  "ledger st = (case st of (m, w, r) \<Rightarrow> (m, w))"

definition applied_settled :: "target_map \<Rightarrow> 'w tick_state \<Rightarrow> bool" where
  "applied_settled T st = (case st of (m, w, a, r) \<Rightarrow>
     \<forall>x t. map_of a x = Some t \<longrightarrow> t = at_key T x \<and> settled (m, w) x t)"

definition newly_pending :: "'w tick_state \<Rightarrow> bool" where
  "newly_pending st = (case st of (m, w, a, s, p) \<Rightarrow> p)"

definition offered :: "'w guests \<Rightarrow> target_map \<Rightarrow> bool \<Rightarrow> 'w tick_state \<Rightarrow> 'w tick_state \<Rightarrow> string \<Rightarrow> bool" where
  "offered g T red st st' x \<longleftrightarrow> settled (ledger st') x (at_key T x)
     \<or> (same_guest g x (ledger st) (ledger st')
        \<and> (at_key T x < current_mib g (fst (ledger st)) (snd (ledger st)) x) \<noteq> red)"

lemma offer_obedient:
  assumes g: "obedient g" "ti_hold ti" and good: "applied_settled T st"
  shows "applied_settled T (offer g ti T red st x)" "newly_pending (offer g ti T red st x) = newly_pending st"
    "y \<noteq> x \<Longrightarrow> same_guest g y (ledger st) (ledger (offer g ti T red st x))" "offered g T red st (offer g ti T red st x) x"
proof -
  obtain m w a s p where st: "st = (m, w, a, s, p)" by (metis prod_cases5)
  let ?t = "at_key T x"
  obtain m' w' out where A: "apply_target g ti x ?t (m, w) = (m', w', out)" by (metis prod_cases3)
  note A' = apply_obedient [OF g A]
  have moved: "settled (m', w') y v" if "settled (m, w) y v" "y \<noteq> x" for y v
    using that A'(3) same_guest_settled by blast
  have "(?t < current_mib g m w x) \<noteq> red \<and> offer g ti T red st x = st
      \<or> map_of a x \<noteq> None \<and> offer g ti T red st x = st
      \<or> offer g ti T red st x = (m', w', if out = Applied then AList.update x ?t a else a, s \<or> out = Applied, p)"
    using A'(2) by (cases "map_of a x") (simp_all add: offer_def st A Let_def)
  then consider "(?t < current_mib g m w x) \<noteq> red" "offer g ti T red st x = st"
    | t where "map_of a x = Some t" "offer g ti T red st x = st"
    | "offer g ti T red st x = (m', w', if out = Applied then AList.update x ?t a else a, s \<or> out = Applied, p)"
    by blast
  then have "applied_settled T (offer g ti T red st x) \<and> newly_pending (offer g ti T red st x) = newly_pending st
    \<and> (\<forall>y. y \<noteq> x \<longrightarrow> same_guest g y (ledger st) (ledger (offer g ti T red st x))) \<and> offered g T red st (offer g ti T red st x) x"
  proof cases
    case 1
    then show ?thesis using good by (simp add: offered_def ledger_def st)
  next
    case 2
    then show ?thesis using good by (auto simp: offered_def ledger_def applied_settled_def st)
  next
    case 3
    have "applied_settled T (offer g ti T red st x)"
      unfolding applied_settled_def 3 using good A'(1) moved by (auto simp: applied_settled_def st split: if_splits)
    then show ?thesis using A' unfolding 3 by (auto simp: offered_def ledger_def newly_pending_def st)
  qed
  then show "applied_settled T (offer g ti T red st x)" "newly_pending (offer g ti T red st x) = newly_pending st"
    "y \<noteq> x \<Longrightarrow> same_guest g y (ledger st) (ledger (offer g ti T red st x))" "offered g T red st (offer g ti T red st x) x"
    by blast+
qed

lemma offers_obedient:
  assumes g: "obedient g" "ti_hold ti"
  shows "distinct names \<Longrightarrow> applied_settled T st \<Longrightarrow>
    applied_settled T (foldl (offer g ti T red) st names)
    \<and> newly_pending (foldl (offer g ti T red) st names) = newly_pending st
    \<and> (\<forall>y. y \<notin> set names \<longrightarrow> same_guest g y (ledger st) (ledger (foldl (offer g ti T red) st names)))
    \<and> (\<forall>x\<in>set names. offered g T red st (foldl (offer g ti T red) st names) x)"
proof (induction names arbitrary: st)
  case (Cons n names)
  let ?s1 = "offer g ti T red st n" and ?s2 = "foldl (offer g ti T red) (offer g ti T red st n) names"
  note h = offer_obedient [OF g Cons.prems(2), where red = red and x = n]
  have IH: "applied_settled T ?s2" "newly_pending ?s2 = newly_pending ?s1"
    "\<And>y. y \<notin> set names \<Longrightarrow> same_guest g y (ledger ?s1) (ledger ?s2)" "\<And>x. x \<in> set names \<Longrightarrow> offered g T red ?s1 ?s2 x"
    using Cons.IH [of ?s1] Cons.prems h(1) by auto
  have sg: "same_guest g n (ledger ?s1) (ledger ?s2)" using IH(3) Cons.prems(1) by simp
  have "offered g T red st ?s2 n"
    using h(4) same_guest_settled [OF sg] same_guest_trans [OF _ sg] unfolding offered_def by blast
  moreover have "offered g T red st ?s2 x" if "x \<in> set names" for x
  proof -
    from that Cons.prems(1) have "same_guest g x (ledger st) (ledger ?s1)" by (intro h(3)) auto
    with IH(4) [OF that] show ?thesis
      using same_guest_current [of g x "fst (ledger st)" "snd (ledger st)" "fst (ledger ?s1)" "snd (ledger ?s1)"]
      unfolding offered_def by (auto intro: same_guest_trans)
  qed
  moreover have "same_guest g y (ledger st) (ledger ?s2)" if "y \<notin> set (n # names)" for y
    using that h(3) [of y] IH(3) [of y] by (auto intro: same_guest_trans)
  ultimately show ?case using IH(1,2) h(2) by auto
qed simp

lemma offer_all_obedient:
  assumes g: "obedient g" "ti_hold ti" and T: "distinct (keys T)" and st: "applied_settled T st" "\<not> newly_pending st"
  shows "\<not> newly_pending (offer_all g ti T st)" "x \<in> set (keys T) \<Longrightarrow> settled (ledger (offer_all g ti T st)) x (at_key T x)"
proof -
  let ?ns = "sort (keys T)"
  let ?s1 = "foldl (offer g ti T True) st ?ns"
  let ?s2 = "foldl (offer g ti T False) ?s1 ?ns"
  have d: "distinct ?ns" using T by simp
  note one = offers_obedient [OF g d st(1), where red = True]
  note two = offers_obedient [OF g d conjunct1 [OF one], where red = False]
  have all: "offer_all g ti T st = ?s2"
    using one st(2) by (auto simp: offer_all_def newly_pending_def Let_def split: prod.splits)
  show "\<not> newly_pending (offer_all g ti T st)" using one two st(2) unfolding all by blast
  assume "x \<in> set (keys T)"
  then have "offered g T True st ?s1 x" "offered g T False ?s1 ?s2 x" using one two by auto
  moreover have "current_mib g (fst (ledger ?s1)) (snd (ledger ?s1)) x = current_mib g (fst (ledger st)) (snd (ledger st)) x"
    if "same_guest g x (ledger st) (ledger ?s1)"
    using that by (intro same_guest_current) simp
  ultimately show "settled (ledger (offer_all g ti T st)) x (at_key T x)"
    unfolding all offered_def using same_guest_settled [of g x "ledger ?s1" "ledger ?s2" "at_key T x"]
    by (metis (full_types))
qed

lemma classify_unchanged:
  assumes "\<not> fst (snd (foldl (classify_step g w) st T))"
  shows "\<not> fst (snd st) \<and> (\<forall>e\<in>set T. settled (fst st, w) (fst e) (snd e))"
  using assms
proof (induction T arbitrary: st)
  case (Cons e T)
  let ?s1 = "classify_step g w st e"
  have IH: "\<not> fst (snd ?s1)" "\<forall>e\<in>set T. settled (fst ?s1, w) (fst e) (snd e)" using Cons.IH [of ?s1] Cons.prems by auto
  have "m_last (fst ?s1) = m_last (fst st)" by (auto simp: classify_step_def Let_def split: prod.splits)
  moreover have "\<not> fst (snd st) \<and> settled (fst st, w) (fst e) (snd e)"
    using IH(1) by (auto simp: classify_step_def externally_moved_target_def settled_def at_key_def Let_def
        split: prod.splits if_splits option.splits)
  ultimately show ?case using IH(2) by (auto simp: settled_def)
qed simp

lemma round_obedient:
  assumes g: "obedient g" "ti_hold ti" and T: "plan_active g m w (ti_deficit ti) fl = Some T" "distinct (keys T)"
  shows "\<exists>st. plan_rounds g ti fl (Suc k) first (m, w, [], s, False) = Some st
     \<and> (\<forall>x\<in>set (keys T). settled (ledger st) x (at_key T x))"
proof -
  obtain n ch un where c: "classify g w T m = (n, ch, un)" by (metis prod_cases3)
  let ?o = "offer_all g ti T (n, w, [], s, False)"
  have start: "applied_settled T (n, w, [], s, False)" "\<not> newly_pending (n, w, [], s, False)"
    by (simp_all add: applied_settled_def newly_pending_def)
  note o = offer_all_obedient [OF g T(2) start]
  have "settled (n, w) x (at_key T x)" if "\<not> ch" "x \<in> set (keys T)" for x
  proof -
    from that(2) have "(x, at_key T x) \<in> set T" using map_of_at_key map_of_SomeD by fastforce
    moreover have "m_last n = m_last m" using classify_last [of g w T m] c by simp
    ultimately show ?thesis
      using classify_unchanged [of g w "(m, False, False)" T] that(1) c by (auto simp: classify_def settled_def)
  qed
  then show ?thesis
    using o g(2) by (cases ch) (auto simp: plan_rounds.simps(2) T(1) c newly_pending_def ledger_def split: prod.splits)
qed

lemma drop_departed_settled:
  "x \<in> set names \<Longrightarrow> settled (drop_departed names m, w) x v = settled (m, w) x v"
  by (simp add: settled_def drop_departed_last)

text \<open>What the guests of a poll have given up, by the manager's record.\<close>

definition reclaimed :: "'w guests \<Rightarrow> manager \<Rightarrow> int" where
  "reclaimed g m = (\<Sum>x\<leftarrow>g_names g. g_configured g x - at_key (m_last m) x)"

lemma plan_active_free:
  assumes "sizes_ok g" "0 \<le> fl" "deficit \<le> 2 ^ 31" "m_device_pending m = []" "\<not> m_pressure_latched m"
  obtains T where "plan_active g m w deficit fl = Some T" "distinct (keys T)" "set (keys T) = set (g_names g)"
    "\<forall>x\<in>set (g_names g). min fl (g_configured g x) \<le> at_key T x \<and> at_key T x \<le> g_configured g x"
    "(\<Sum>x\<leftarrow>g_names g. g_configured g x - at_key T x) \<le> max 0 deficit"
    "(\<forall>x\<in>set (g_names g). at_key T x \<le> fl)
      \<or> deficit - (\<Sum>x\<leftarrow>g_names g. g_configured g x - at_key T x) < max 1 (int (length (g_names g)))"
proof -
  let ?ns = "map (\<lambda>name. \<lparr>bn_name = name, bn_configured = g_configured g name\<rparr>) (filter (\<lambda>_. True) (g_names g))"
  from plan_targets_correct [OF plan_nodes_ok(1) [OF assms(1)] assms(2,3) plan_nodes_ok(2,3) [OF assms(1)], of "\<lambda>_. True"]
  obtain T where T: "plan_targets ?ns deficit fl = Some T" "set (keys T) = bn_name ` set ?ns"
    "\<forall>n\<in>set ?ns. min fl (bn_configured n) \<le> at_key T (bn_name n) \<and> at_key T (bn_name n) \<le> bn_configured n"
    "(\<Sum>n\<leftarrow>?ns. bn_configured n - at_key T (bn_name n)) \<le> max 0 deficit"
    "(\<forall>n\<in>set ?ns. at_key T (bn_name n) \<le> fl)
       \<or> deficit - (\<Sum>n\<leftarrow>?ns. bn_configured n - at_key T (bn_name n)) < max 1 (int (length ?ns))"
    by blast
  have "plan_active g m w deficit fl = Some T" using T(1) assms(4,5) by (simp add: plan_active_def flag_def)
  moreover have "distinct (keys T)" using plan_targets_ok [OF T(1)] by (simp add: gomap_ok_def)
  moreover have "(\<Sum>n\<leftarrow>?ns. bn_configured n - at_key T (bn_name n)) = (\<Sum>x\<leftarrow>g_names g. g_configured g x - at_key T x)"
    by (simp add: comp_def)
  ultimately show ?thesis using that T(2-5) by (simp add: image_image)
qed



end
