(* ===== verification/Go_Float.thy ===== *)
theory Go_Float
  imports Complex_Main Go_Strings
begin

text \<open>
  The part of \<^verbatim>\<open>float64\<close> the program uses: non-negative values far from both ends of the exponent
  range. A value is the rational it denotes; every operation rounds its exact result to 53
  significant bits, ties to even. Printing with a fixed number of decimals is exact, ties to even.
\<close>

function bit_length :: "int \<Rightarrow> int" where
  "bit_length n = (if n \<le> 0 then 0 else 1 + bit_length (n div 2))"
  by pat_completeness auto
termination by (relation "measure nat") auto

declare bit_length.simps [simp del]

definition round_even :: "rat \<Rightarrow> int" where
  "round_even x = (let q = \<lfloor>x\<rfloor>; r = x - of_int q in
     if 2 * r < 1 then q else if 2 * r > 1 then q + 1 else if even q then q else q + 1)"

text \<open>The exponent of the leading bit of a positive value.\<close>

definition leading :: "rat \<Rightarrow> int" where
  "leading x = (case quotient_of x of (n, d) \<Rightarrow>
     let l = bit_length n - bit_length d in if 2 powi l \<le> x then l else l - 1)"

definition f64_round :: "rat \<Rightarrow> rat" where
  "f64_round x = (if x = 0 then 0
     else let e = leading x - 52 in of_int (round_even (x * 2 powi (- e))) * 2 powi e)"

definition f64_of_u64 :: "64 word \<Rightarrow> rat" where
  "f64_of_u64 w = f64_round (of_int (uint w))"

definition f64_mult :: "rat \<Rightarrow> rat \<Rightarrow> rat" where
  "f64_mult x y = f64_round (x * y)"

definition f64_divide :: "rat \<Rightarrow> rat \<Rightarrow> rat" where
  "f64_divide x y = f64_round (x / y)"

definition f64_fixed1 :: "rat \<Rightarrow> string" where
  "f64_fixed1 x = (let n = round_even (x * 10) in itoa (n div 10) @ ''.'' @ itoa (n mod 10))"

definition f64_fixed0 :: "rat \<Rightarrow> string" where
  "f64_fixed0 x = itoa (round_even x)"

subsection \<open>Rounding error\<close>

lemma bit_length_bounds:
  "0 < n \<Longrightarrow> 2 ^ nat (bit_length n - 1) \<le> n \<and> n < 2 ^ nat (bit_length n) \<and> 1 \<le> bit_length n"
proof (induction n rule: bit_length.induct)
  case (1 n)
  show ?case
  proof (cases "n = 1")
    case True
    then show ?thesis by (simp add: bit_length.simps)
  next
    case False
    with 1(2) have n: "0 < n div 2" by auto
    with 1 have IH: "2 ^ nat (bit_length (n div 2) - 1) \<le> n div 2" "n div 2 < 2 ^ nat (bit_length (n div 2))"
      "1 \<le> bit_length (n div 2)" by auto
    have b: "bit_length n = 1 + bit_length (n div 2)" using 1(2) by (simp add: bit_length.simps [of n])
    have "nat (bit_length (n div 2)) = Suc (nat (bit_length (n div 2) - 1))" using IH(3) by simp
    then have "2 ^ nat (bit_length n - 1) = 2 * (2 :: int) ^ nat (bit_length (n div 2) - 1)" using b by simp
    with IH(1) have "2 ^ nat (bit_length n - 1) \<le> n" by linarith
    moreover have "n < 2 ^ nat (bit_length n)" using IH(2,3) b by (simp add: nat_add_distrib)
    ultimately show ?thesis using b IH(3) by simp
  qed
qed

lemma round_even_error: "\<bar>of_int (round_even x) - x\<bar> \<le> 1 / 2"
proof -
  define q where "q = \<lfloor>x\<rfloor>"
  have "of_int q \<le> x" "x < of_int q + 1" unfolding q_def by linarith+
  then show ?thesis unfolding round_even_def Let_def q_def [symmetric] by (auto simp: abs_if)
qed

lemma round_even_int [simp]: "round_even (of_int n) = n"
  by (simp add: round_even_def)

lemma leading_le:
  assumes "0 < x"
  shows "2 powi leading x \<le> x"
proof -
  obtain n d where q: "quotient_of x = (n, d)" by (metis prod.exhaust)
  have d: "0 < d" using quotient_of_denom_pos [OF q] .
  have x: "x = of_int n / of_int d" using quotient_of_div [OF q] .
  have n: "0 < n" using assms d by (simp add: x zero_less_divide_iff)
  let ?l = "bit_length n - bit_length d"
  have "2 powi (?l - 1) \<le> x"
  proof -
    have a: "(2 :: rat) ^ nat (bit_length n - 1) \<le> of_int n"
      using bit_length_bounds [OF n] by (metis of_int_le_iff of_int_numeral of_int_power)
    have b: "of_int d \<le> (2 :: rat) ^ nat (bit_length d)"
      using bit_length_bounds [OF d] by (metis less_imp_le of_int_le_iff of_int_numeral of_int_power)
    have "(2 :: rat) powi (?l - 1) = 2 powi (bit_length n - 1) / 2 powi bit_length d"
      by (simp add: power_int_diff [symmetric] algebra_simps)
    also have "\<dots> = 2 ^ nat (bit_length n - 1) / 2 ^ nat (bit_length d)"
      using bit_length_bounds [OF n] bit_length_bounds [OF d] by (simp add: power_int_def)
    also have "\<dots> \<le> of_int n / of_int d" using a b d n by (intro frac_le) auto
    finally show ?thesis by (simp add: x)
  qed
  then show ?thesis by (simp add: leading_def q Let_def)
qed

lemma f64_round_error:
  assumes "0 < x" "x < 2 powi k"
  shows "\<bar>f64_round x - x\<bar> \<le> 2 powi (k - 54)"
proof -
  let ?e = "leading x - 52"
  have "leading x < k"
  proof (rule ccontr)
    assume "\<not> leading x < k"
    then have "(2 :: rat) powi k \<le> 2 powi leading x" by (intro power_int_increasing) auto
    with leading_le [OF assms(1)] assms(2) show False by simp
  qed
  then have e: "(2 :: rat) powi (?e - 1) \<le> 2 powi (k - 54)" by (intro power_int_increasing) auto
  have one: "(2 :: rat) powi (- ?e) * 2 powi ?e = 1" by (simp add: power_int_add [symmetric])
  have "f64_round x - x = (of_int (round_even (x * 2 powi (- ?e))) - x * 2 powi (- ?e)) * 2 powi ?e"
    using assms(1) one by (simp add: f64_round_def Let_def left_diff_distrib mult.assoc)
  then have "\<bar>f64_round x - x\<bar> \<le> 1 / 2 * 2 powi ?e"
    using round_even_error [of "x * 2 powi (- ?e)"] by (simp add: abs_mult mult_right_mono)
  also have "\<dots> = 2 powi (?e - 1)" by (simp add: power_int_diff)
  finally show ?thesis using e by simp
qed

text \<open>Integers below \<open>2 ^ 53\<close> are represented exactly.\<close>

lemma f64_round_int:
  assumes "0 \<le> n" "n < 2 ^ 53"
  shows "f64_round (of_int n) = of_int n"
proof (cases "n = 0")
  case False
  let ?x = "of_int n :: rat" and ?e = "leading (of_int n) - 52"
  have "leading ?x < 53"
  proof (rule ccontr)
    assume "\<not> leading ?x < 53"
    then have "(2 :: rat) powi 53 \<le> 2 powi leading ?x" by (intro power_int_increasing) auto
    with leading_le [of ?x] assms False have "(2 :: rat) ^ 53 \<le> of_int n" by simp
    with assms(2) show False by (metis not_le of_int_le_iff of_int_numeral of_int_power)
  qed
  then have e: "(2 :: rat) powi (- ?e) = of_int (2 ^ nat (- ?e))" by (simp add: power_int_def)
  have one: "(2 :: rat) powi (- ?e) * 2 powi ?e = 1" by (simp add: power_int_add [symmetric])
  have "round_even (?x * 2 powi (- ?e)) = n * 2 ^ nat (- ?e)"
    unfolding e of_int_mult [symmetric] by (rule round_even_int)
  then show ?thesis
    using False one by (simp add: f64_round_def Let_def mult.assoc e [simplified])
qed (simp add: f64_round_def)

end
