(* ===== verification/Host_Pressure.thy ===== *)
theory Host_Pressure
  imports Go_Float Tbx_Prelude
begin

text \<open>
  The host-pressure gate, \<^verbatim>\<open>src/internal/hostpressure/pressure.go\<close> and
  \<^verbatim>\<open>src/internal/hostpressure/provision.go\<close>: classification of a reading of swap, storage and free memory,
  and the admission of new guests beside running ones. The messages are built as the code builds
  them; sizes in bytes are unsigned 64-bit words and percentages go through floating point.
\<close>

subsection \<open>Readings\<close>

definition extremeSwapUsedPercent :: int where "extremeSwapUsedPercent = 90"
definition steadySwapUsedPercent :: int where "steadySwapUsedPercent = 80"
definition extremeDataVolumeUsedPercent :: int where "extremeDataVolumeUsedPercent = 95"
definition bytesPerGiB :: "64 word" where "bytesPerGiB = 1073741824"
definition lowFreeSwapBytes :: "64 word" where "lowFreeSwapBytes = 3 * bytesPerGiB div 2"
definition substantialSwapUsedPercent :: int where "substantialSwapUsedPercent = 75"
definition provisionStartSwapUsedPercent :: int where "provisionStartSwapUsedPercent = 80"
definition provisionStartSwapUsedBytes :: "64 word" where "provisionStartSwapUsedBytes = 4294967296"

record usage =
  us_total :: "64 word"
  us_available :: "64 word"

datatype memory_pressure =
  MemoryPressureUnknown | MemoryPressureNormal | MemoryPressureWarning | MemoryPressureCritical

fun pressure_string :: "memory_pressure \<Rightarrow> string" where
  "pressure_string MemoryPressureNormal = ''normal''"
| "pressure_string MemoryPressureWarning = ''warning''"
| "pressure_string MemoryPressureCritical = ''critical''"
| "pressure_string MemoryPressureUnknown = ''unknown''"

record reading =
  rd_swap :: usage
  rd_data_volume :: usage
  rd_pressure :: memory_pressure
  rd_free :: int
  rd_total :: int
  rd_compressor :: int

definition used_bytes :: "usage \<Rightarrow> 64 word" where
  "used_bytes u = (if us_available u \<ge> us_total u then 0 else us_total u - us_available u)"

definition percent_used :: "usage \<Rightarrow> int" where
  "percent_used u = (if us_total u = 0 then 0
     else \<lfloor>f64_divide (f64_mult (f64_of_u64 (used_bytes u)) 100) (f64_of_u64 (us_total u))\<rfloor>)"

definition gib :: "64 word \<Rightarrow> rat" where
  "gib bytes = f64_divide (f64_of_u64 bytes) 1073741824"

definition gib1 :: "64 word \<Rightarrow> string" where
  "gib1 bytes = f64_fixed1 (gib bytes)"

subsection \<open>Findings\<close>

datatype severity = SeverityWarn | SeverityBlock

record finding =
  fd_severity :: severity
  fd_detail :: string
  fd_remedy :: string

definition memoryConsequence :: string where
  "memoryConsequence = ''guest VMs may reset and corrupt Talos EPHEMERAL data''"

definition memoryRemedy :: string where
  "memoryRemedy = ''free host memory: run `tbx down` to stop running clusters, or quit memory-heavy apps, then retry''"

definition storageRemedy :: string where
  "storageRemedy = ''free host storage: run `tbx cache prune --all`, or destroy unused clusters, then retry''"

definition finding_string :: "finding \<Rightarrow> string" where
  "finding_string f = fd_detail f @ ''; '' @ fd_remedy f"

definition doctor_detail :: "finding \<Rightarrow> string" where
  "doctor_detail f = (if fd_severity f \<noteq> SeverityBlock then finding_string f
     else finding_string f @ ''; --force overrides this gate and risks guest-disk corruption'')"

definition guest_headroom_mib :: "int \<Rightarrow> int \<Rightarrow> int" where
  "guest_headroom_mib free reserve = (let room = i64 (free - reserve) in if room > 0 then room else 0)"

definition headroom_clause :: "reading \<Rightarrow> int \<Rightarrow> string" where
  "headroom_clause s reserve =
     (if rd_free s \<le> 0 \<or> reserve \<le> 0
      then ''starting guests beside running ones must leave the '' @ itoa reserve @ '' MiB''
        @ '' balloon reserve free, which needs a free-memory reading this host did not give''
      else ''starting guests beside running ones must leave the '' @ itoa reserve
        @ '' MiB balloon reserve free, so there is room for '' @ itoa (guest_headroom_mib (rd_free s) reserve)
        @ '' MiB of new guests right now,''
        @ '' plus whatever the balloon controller can take back from the guests already running'')"

definition summary :: "reading \<Rightarrow> int \<Rightarrow> string" where
  "summary s reserve =
     (let parts = [if rd_free s > 0 then itoa (rd_free s) @ '' MiB free memory'' else ''free memory unmeasured''];
          parts = (if rd_total s > 0
             then parts @ [itoa (rd_compressor s) @ '' MiB in compressor of '' @ itoa (rd_total s) @ '' MiB physical memory'']
             else if rd_compressor s > 0 then parts @ [itoa (rd_compressor s) @ '' MiB in compressor''] else parts);
          parts = (if us_total (rd_swap s) = 0 then parts @ [''swap disabled or unmeasurable'']
             else parts @ [gib1 (used_bytes (rd_swap s)) @ '' GiB of '' @ gib1 (us_total (rd_swap s))
               @ '' GiB swap in use ('' @ itoa (percent_used (rd_swap s)) @ ''%)'']);
          parts = (if us_total (rd_data_volume s) = 0 then parts @ [''~/.talosbox volume unmeasurable'']
             else parts @ [gib1 (us_available (rd_data_volume s)) @ '' GiB free on the ~/.talosbox volume''])
      in join '', '' parts @ ''; '' @ headroom_clause s reserve)"

definition swap_usage_text :: "usage \<Rightarrow> string" where
  "swap_usage_text u = ''host swap is '' @ itoa (percent_used u) @ ''% used ('' @ gib1 (used_bytes u) @ '' GiB of ''
     @ gib1 (us_total u) @ '' GiB, '' @ gib1 (us_available u) @ '' GiB free)''"

definition steady_swap_finding :: "reading \<Rightarrow> finding option" where
  "steady_swap_finding s =
     (if percent_used (rd_swap s) < steadySwapUsedPercent then None
      else Some \<lparr>fd_severity = SeverityWarn, fd_detail = swap_usage_text (rd_swap s), fd_remedy = memoryRemedy\<rparr>)"

definition memory_detail :: "reading \<Rightarrow> int \<Rightarrow> bool \<Rightarrow> string" where
  "memory_detail s required includeHeadroom =
     (let pressureClause = (if rd_pressure s \<noteq> MemoryPressureUnknown
            then ''memory pressure is '' @ pressure_string (rd_pressure s) else ''memory pressure could not be measured'')
      in if us_total (rd_swap s) = 0 then ''host '' @ pressureClause @ ''; '' @ memoryConsequence
      else
        let u = swap_usage_text (rd_swap s);
            u = (if rd_total s > 0
               then u @ '' with '' @ itoa (rd_compressor s) @ '' MiB in compressor of '' @ itoa (rd_total s) @ '' MiB physical memory''
               else if rd_compressor s > 0 then u @ '' with '' @ itoa (rd_compressor s) @ '' MiB in compressor'' else u);
            u = (if includeHeadroom
               then (if rd_free s > 0
                     then u @ '' with '' @ itoa (rd_free s) @ '' MiB free memory against '' @ itoa required @ '' MiB required''
                     else u @ '' with free memory unmeasured against '' @ itoa required @ '' MiB required'')
               else u)
        in case rd_pressure s of
             MemoryPressureNormal \<Rightarrow> u @ '' while memory pressure is normal; macOS keeps swap allocated after pressure clears,''
               @ '' but starting more guests from here can push the host back into swapping, where '' @ memoryConsequence
           | MemoryPressureUnknown \<Rightarrow> u @ '' and '' @ pressureClause @ ''; '' @ memoryConsequence
           | _ \<Rightarrow> u @ '' while '' @ pressureClause @ ''; '' @ memoryConsequence)"

definition swap_exhausted :: "reading \<Rightarrow> bool" where
  "swap_exhausted s \<longleftrightarrow> us_total (rd_swap s) > 0 \<and> percent_used (rd_swap s) \<ge> extremeSwapUsedPercent"

definition swap_nearly_full :: "reading \<Rightarrow> bool" where
  "swap_nearly_full s \<longleftrightarrow> us_total (rd_swap s) > 0 \<and> us_available (rd_swap s) < lowFreeSwapBytes
     \<and> percent_used (rd_swap s) \<ge> substantialSwapUsedPercent"

definition has_required_free :: "reading \<Rightarrow> int \<Rightarrow> bool" where
  "has_required_free s required \<longleftrightarrow> rd_free s > 0 \<and> rd_free s \<ge> required"

definition memory_severity :: "reading \<Rightarrow> int \<Rightarrow> severity option" where
  "memory_severity s required =
     (case rd_pressure s of
        MemoryPressureCritical \<Rightarrow> Some SeverityBlock
      | MemoryPressureWarning \<Rightarrow>
          Some (if (swap_exhausted s \<or> swap_nearly_full s) \<and> \<not> has_required_free s required then SeverityBlock else SeverityWarn)
      | MemoryPressureNormal \<Rightarrow> (if steady_swap_finding s \<noteq> None then Some SeverityWarn else None)
      | MemoryPressureUnknown \<Rightarrow>
          if swap_exhausted s then Some (if \<not> has_required_free s required then SeverityBlock else SeverityWarn)
          else if steady_swap_finding s \<noteq> None then Some SeverityWarn else None)"

definition memory_finding :: "reading \<Rightarrow> int \<Rightarrow> finding option" where
  "memory_finding s required =
     (case memory_severity s required of
        None \<Rightarrow> None
      | Some sev \<Rightarrow>
          let headroomDecides = (rd_pressure s = MemoryPressureWarning \<and> (swap_exhausted s \<or> swap_nearly_full s))
                \<or> (rd_pressure s = MemoryPressureUnknown \<and> swap_exhausted s)
          in Some \<lparr>fd_severity = sev, fd_detail = memory_detail s required headroomDecides, fd_remedy = memoryRemedy\<rparr>)"

definition assess :: "reading \<Rightarrow> int \<Rightarrow> finding list" where
  "assess s required =
     (case memory_finding s required of Some f \<Rightarrow> [f] | None \<Rightarrow> [])
     @ (if percent_used (rd_data_volume s) \<ge> extremeDataVolumeUsedPercent
        then [\<lparr>fd_severity = SeverityBlock,
               fd_detail = ''talosbox data volume is '' @ itoa (percent_used (rd_data_volume s)) @ ''% used (''
                 @ gib1 (us_available (rd_data_volume s))
                 @ '' GiB free); low host storage can corrupt guest writes after a reset'',
               fd_remedy = storageRemedy\<rparr>]
        else [])"

subsection \<open>Admission of new guests\<close>

record provision_start =
  ps_running :: int
  ps_new :: int
  ps_host_free :: int
  ps_host_total :: int
  ps_reserve :: int
  ps_reclaimable :: int
  ps_pressure :: memory_pressure
  ps_swap :: usage

record provision_start_plan =
  pp_findings :: "finding list"
  pp_reclaim :: int

definition provision_start_shortfall :: "provision_start \<Rightarrow> int" where
  "provision_start_shortfall p =
     (if ps_running p \<le> 0 \<or> ps_new p \<le> 0 \<or> ps_host_free p \<le> 0 then 0
      else i64 (ps_reserve p - i64 (ps_host_free p - ps_new p)))"

definition reclaim_shortfall_clause :: "provision_start \<Rightarrow> string" where
  "reclaim_shortfall_clause p = (if ps_reclaimable p \<le> 0 then ''''
     else '' even after pre-ballooning the '' @ itoa (ps_reclaimable p) @ '' MiB the running guests can give back'')"

definition memory_is_scarce :: "provision_start \<Rightarrow> bool" where
  "memory_is_scarce p \<longleftrightarrow> ps_host_free p \<le> 0 \<or> ps_host_total p \<le> 0 \<or> i64 (ps_host_free p * 2) < ps_host_total p"

definition swap_blocks_provision_start :: "provision_start \<Rightarrow> bool" where
  "swap_blocks_provision_start p =
     (if us_total (ps_swap p) = 0 \<or> percent_used (ps_swap p) < provisionStartSwapUsedPercent then False
      else if ps_pressure p = MemoryPressureCritical then True
      else if ps_host_free p > 0 \<and> ps_host_free p \<ge> i64 (ps_reserve p + ps_new p) then False
      else if ps_pressure p \<noteq> MemoryPressureNormal then True
      else used_bytes (ps_swap p) \<ge> provisionStartSwapUsedBytes \<and> memory_is_scarce p)"

definition swap_armed_by :: "provision_start \<Rightarrow> string" where
  "swap_armed_by p = (if ps_pressure p \<noteq> MemoryPressureNormal then ''pressure is off normal, so''
     else ''a swapped-out footprint at or past '' @ f64_fixed0 (gib provisionStartSwapUsedBytes)
       @ '' GiB with host memory this scarce only happens after sustained real pressure even when the kernel has since returned to normal, so'')"

definition pressure_label :: "memory_pressure \<Rightarrow> string" where
  "pressure_label q = (if q = MemoryPressureUnknown then ''unmeasurable'' else pressure_string q)"

definition headroom_finding :: "provision_start \<Rightarrow> finding" where
  "headroom_finding p = \<lparr>fd_severity = SeverityBlock,
     fd_detail = ''starting '' @ itoa (ps_new p) @ '' MiB of guests while '' @ itoa (ps_running p)
       @ '' MiB of guests are already running leaves '' @ itoa (i64 (ps_host_free p - ps_new p)) @ '' MiB free of the ''
       @ itoa (ps_host_free p) @ '' MiB measured now, below the '' @ itoa (ps_reserve p) @ '' MiB balloon reserve''
       @ reclaim_shortfall_clause p
       @ ''; a booting guest claims its full allocation before virtio_balloon can reclaim anything, so the host swaps and ''
       @ memoryConsequence,
     fd_remedy = memoryRemedy\<rparr>"

definition swap_finding :: "provision_start \<Rightarrow> finding" where
  "swap_finding p = \<lparr>fd_severity = SeverityBlock,
     fd_detail = ''host swap is '' @ itoa (percent_used (ps_swap p)) @ ''% used ('' @ gib1 (used_bytes (ps_swap p)) @ '' GiB of ''
       @ gib1 (us_total (ps_swap p)) @ '' GiB, at or past the '' @ itoa provisionStartSwapUsedPercent
       @ ''% ceiling) with memory pressure '' @ pressure_label (ps_pressure p) @ '' and '' @ itoa (ps_running p)
       @ '' MiB of guests already running; '' @ swap_armed_by p @ '' the '' @ itoa (ps_new p)
       @ '' MiB about to boot has nowhere to go, and '' @ memoryConsequence,
     fd_remedy = memoryRemedy\<rparr>"

definition assess_provision_start :: "provision_start \<Rightarrow> provision_start_plan" where
  "assess_provision_start p =
     (if ps_running p \<le> 0 \<or> ps_new p \<le> 0 then \<lparr>pp_findings = [], pp_reclaim = 0\<rparr>
      else
        let shortfall = provision_start_shortfall p;
            (headroom, reclaim) =
              (if ps_host_free p > 0
               then (if shortfall \<le> 0 then ([], 0)
                     else if shortfall \<le> ps_reclaimable p then ([], shortfall)
                     else ([headroom_finding p], 0))
               else ([], 0))
        in \<lparr>pp_findings = headroom @ (if swap_blocks_provision_start p then [swap_finding p] else []), pp_reclaim = reclaim\<rparr>)"

subsection \<open>Percentages are exact\<close>

text \<open>A quotient of two integers that is rounded with an error below half the reciprocal of the
  denominator keeps its integer part.\<close>

lemma floor_rounded_quotient:
  fixes a b :: int and r :: rat
  assumes b: "0 < b" and err: "\<bar>r - of_int a / of_int b\<bar> < 1 / (2 * of_int b)"
    and exact: "a mod b = 0 \<Longrightarrow> r = of_int (a div b)"
  shows "\<lfloor>r\<rfloor> = a div b"
proof (cases "a mod b = 0")
  case False
  let ?k = "of_int (a div b) :: rat" and ?m = "of_int (a mod b) :: rat" and ?b = "of_int b :: rat"
  have B: "0 < ?b" using b by simp
  have "of_int a = ?b * ?k + ?m" by (metis mult_div_mod_eq of_int_add of_int_mult)
  then have x: "of_int a / ?b = ?k + ?m / ?b" using B by (simp add: add_divide_distrib)
  have m: "1 \<le> a mod b" "a mod b + 1 \<le> b"
    using False pos_mod_bound [OF b, of a] pos_mod_sign [OF b, of a] by linarith+
  have "1 \<le> ?m" using m(1) by simp
  then have lo: "1 / ?b \<le> ?m / ?b" using B by (intro divide_right_mono) auto
  have "?m + 1 \<le> ?b" using m(2) by (metis of_int_1 of_int_add of_int_le_iff)
  then have "(?m + 1) / ?b \<le> ?b / ?b" using B by (intro divide_right_mono) auto
  then have hi: "?m / ?b + 1 / ?b \<le> 1" using B by (simp add: add_divide_distrib)
  have half: "1 / (2 * ?b) < 1 / ?b" using B by (simp add: divide_strict_left_mono)
  have "r - (?k + ?m / ?b) < 1 / (2 * ?b)" "- (1 / (2 * ?b)) < r - (?k + ?m / ?b)"
    using err unfolding x by linarith+
  then have "?k < r" "r < ?k + 1" using lo hi half by linarith+
  then show ?thesis by (intro floor_unique) auto
qed (use exact in simp)

lemma f64_quotient_exact:
  fixes a b :: int
  assumes b: "0 < b" "b < 2 ^ 46" and a: "0 \<le> a" "a \<le> 100 * b"
  shows "\<lfloor>f64_round (of_int a / of_int b)\<rfloor> = a div b"
proof (cases "a = 0")
  case True
  then show ?thesis by (simp add: f64_round_def)
next
  case False
  let ?x = "of_int a / of_int b :: rat"
  have "of_int a \<le> (100 :: rat) * of_int b" using a(2) by (metis of_int_le_iff of_int_mult of_int_numeral)
  then have x: "0 < ?x" "?x \<le> 100" using a b False by (simp_all add: divide_le_eq)
  have "\<bar>f64_round ?x - ?x\<bar> \<le> 2 powi (7 - 54)" using x by (intro f64_round_error) auto
  also have "2 powi (7 - 54) < (1 :: rat) / (2 * of_int b)"
  proof -
    have "(of_int b :: rat) < 2 ^ 46" using b(2) by (metis of_int_less_iff of_int_numeral of_int_power)
    then have "1 / (2 * (2 :: rat) ^ 46) < 1 / (2 * of_int b)" using b(1) by (intro divide_strict_left_mono) auto
    then show ?thesis by (simp add: power_int_def field_simps)
  qed
  finally have err: "\<bar>f64_round ?x - ?x\<bar> < 1 / (2 * of_int b)" .
  show ?thesis
  proof (rule floor_rounded_quotient [OF b(1) err])
    assume "a mod b = 0"
    then obtain k where k: "a = b * k" by (auto simp: mod_eq_0_iff_dvd elim: dvdE)
    then have "0 \<le> k" "k \<le> 100" using a b by (auto simp: zero_le_mult_iff mult.commute)
    then show "f64_round ?x = of_int (a div b)" using b f64_round_int [of k] by (simp add: k)
  qed
qed

lemma used_bytes_le: "uint (used_bytes u) \<le> uint (us_total u)"
proof (cases "us_available u \<ge> us_total u")
  case False
  then have "uint (us_total u - us_available u) = uint (us_total u) - uint (us_available u)"
    by (simp add: uint_minus_simple_alt [THEN iffD1])
  then show ?thesis using False by (simp add: used_bytes_def)
qed (simp add: used_bytes_def)

text \<open>C32: The percentage in use, computed in floating point, is the exact integer part for every
  resource below 64 TiB; so a threshold is met exactly when the bytes say so.\<close>

theorem percent_used_exact:
  assumes "uint (us_total u) < 2 ^ 46"
  shows "percent_used u = uint (used_bytes u) * 100 div uint (us_total u)"
proof (cases "us_total u = 0")
  case False
  define n where "n = uint (used_bytes u)"
  define t where "t = uint (us_total u)"
  have t: "0 < t" "t < 2 ^ 46" and n: "0 \<le> n" "n \<le> t"
    using False assms used_bytes_le [of u] unfolding t_def n_def
    by (auto simp: order_less_le unsigned_eq_0_iff)
  have exact: "f64_round (of_int n) = of_int n" "f64_round (of_int t) = of_int t"
    "f64_round (of_int n * 100) = of_int n * 100"
    using n t f64_round_int [of n] f64_round_int [of t] f64_round_int [of "n * 100"] by auto
  have "percent_used u = \<lfloor>f64_round (of_int n * 100 / of_int t)\<rfloor>"
    unfolding percent_used_def f64_divide_def f64_mult_def f64_of_u64_def n_def [symmetric] t_def [symmetric]
    using False exact by (simp only: if_False)
  also have "\<dots> = n * 100 div t" using f64_quotient_exact [OF t, of "n * 100"] n by simp
  finally show ?thesis by (simp add: n_def t_def)
qed (simp add: percent_used_def)

theorem percent_used_exact_witness:
  "percent_used \<lparr>us_total = 8589934592, us_available = 858993460\<rparr> = 89"
  using percent_used_exact [of "\<lparr>us_total = 8589934592, us_available = 858993460\<rparr>"]
  by (simp add: used_bytes_def)

end
