(* ===== verification/Node_Status.thy ===== *)
theory Node_Status
  imports Cluster_Model Go_Time
begin

text \<open>
  What the daemon reports of nodes and clusters: the phases of \<^verbatim>\<open>src/internal/daemon/phase.go\<close> and
  how a probe of a node's machine API decides one, the classification of Talos services, and the
  \<^verbatim>\<open>NodeStatus\<close> and \<^verbatim>\<open>ClusterStatus\<close> records of \<^verbatim>\<open>operations.go\<close> with their methods. An optional
  field is an absent pointer.
\<close>

subsection \<open>Phases\<close>

datatype phase =
    PhaseStopped | PhaseUnreachable | PhaseMaintenance | PhaseConfigured | PhaseRebooted
  | PhaseSuspended

fun phase_name :: "phase \<Rightarrow> string" where
  "phase_name PhaseStopped = ''stopped''"
| "phase_name PhaseUnreachable = ''unreachable''"
| "phase_name PhaseMaintenance = ''maintenance''"
| "phase_name PhaseConfigured = ''configured''"
| "phase_name PhaseRebooted = ''rebooted''"
| "phase_name PhaseSuspended = ''suspended''"

definition phase_stopped :: "phase \<Rightarrow> bool" where
  "phase_stopped p \<longleftrightarrow> p = PhaseStopped \<or> p = PhaseSuspended"

definition phase_configured :: "phase \<Rightarrow> bool" where
  "phase_configured p \<longleftrightarrow> p = PhaseConfigured \<or> p = PhaseRebooted"

record probe_result =
  pr_dialed :: bool
  pr_tls :: bool
  pr_maintenance :: bool

definition no_probe :: probe_result where
  "no_probe = \<lparr>pr_dialed = False, pr_tls = False, pr_maintenance = False\<rparr>"

definition classify_phase :: "bool \<Rightarrow> probe_result \<Rightarrow> phase" where
  "classify_phase vmRunning p =
     (if \<not> vmRunning then PhaseStopped
      else if \<not> pr_dialed p \<or> \<not> pr_tls p then PhaseUnreachable
      else if pr_maintenance p then PhaseMaintenance else PhaseConfigured)"

definition maintenanceCN :: string where "maintenanceCN = ''maintenance-service.talos.dev''"

text \<open>The two dials of a probe: whether the first connected, and what the second shook hands
  with - nothing, a connection whose state cannot be read, or a peer with these common names.\<close>

datatype tls_outcome = TlsFailed | TlsOpaque | TlsPeer "string list"

definition probe_host_port :: "bool \<Rightarrow> tls_outcome \<Rightarrow> probe_result" where
  "probe_host_port connected handshake =
     (if \<not> connected then no_probe
      else (case handshake of
          TlsFailed \<Rightarrow> \<lparr>pr_dialed = True, pr_tls = False, pr_maintenance = False\<rparr>
        | TlsOpaque \<Rightarrow> \<lparr>pr_dialed = True, pr_tls = True, pr_maintenance = False\<rparr>
        | TlsPeer certs \<Rightarrow> \<lparr>pr_dialed = True, pr_tls = True,
            pr_maintenance = (certs \<noteq> [] \<and> hd certs = maintenanceCN)\<rparr>))"

subsection \<open>Services\<close>

datatype service_health =
    ServiceHealthUnknown | ServiceHealthStarting | ServiceHealthHealthy | ServiceHealthUnhealthy
  | ServiceHealthCrashLooping

record node_service =
  sv_name :: string
  sv_state :: string
  sv_health :: service_health
  sv_message :: string
  sv_restarts :: int
  sv_since :: "int option"

definition crash_looping :: "node_service \<Rightarrow> bool" where
  "crash_looping s \<longleftrightarrow> sv_health s = ServiceHealthCrashLooping"

definition degraded :: "node_service \<Rightarrow> bool" where
  "degraded s \<longleftrightarrow> sv_health s = ServiceHealthCrashLooping \<or> sv_health s = ServiceHealthUnhealthy"

record service_observation =
  so_state :: string
  so_healthy :: bool
  so_health_unknown :: bool
  so_message :: string
  so_failures :: int
  so_since :: "int option"

definition no_observation :: service_observation where
  "no_observation = \<lparr>so_state = [], so_healthy = False, so_health_unknown = False, so_message = [],
     so_failures = 0, so_since = None\<rparr>"

text \<open>\<^verbatim>\<open>strings.EqualFold\<close>; outside ASCII it consults the Unicode tables, which are an argument.\<close>

definition equal_fold :: "(string \<Rightarrow> string \<Rightarrow> bool) \<Rightarrow> string \<Rightarrow> string \<Rightarrow> bool" where
  "equal_fold U s t =
     (if list_all is_ascii s \<and> list_all is_ascii t then map ascii_lower s = map ascii_lower t
      else U s t)"

text \<open>The machine API's report of a service. An event's time is absent when the report has none
  or one that is no valid timestamp.\<close>

record service_event =
  ev_state :: string
  ev_msg :: string
  ev_ts :: "int option"

record health_report =
  hr_healthy :: bool
  hr_unknown :: bool
  hr_message :: string

record service_info =
  si_id :: string
  si_state :: string
  si_health :: "health_report option"
  si_events :: "service_event list"

definition serviceStateRunning :: string where "serviceStateRunning = ''Running''"
definition serviceStateFailed :: string where "serviceStateFailed = ''Failed''"
definition crashLoopFailures :: int where "crashLoopFailures = 2"
definition serviceMessageMaxLen :: nat where "serviceMessageMaxLen = 160"
definition kubeletService :: string where "kubeletService = ''kubelet''"

text \<open>One event: the newest past transition into the current state, the number of failures and
  the message of the last one.\<close>

definition observe_event ::
    "(string \<Rightarrow> string \<Rightarrow> bool) \<Rightarrow> string \<Rightarrow> int \<Rightarrow> service_event
     \<Rightarrow> int option \<times> int \<times> string \<Rightarrow> int option \<times> int \<times> string" where
  "observe_event U state now ev = (\<lambda>(since, failures, msg).
     let since' = (if equal_fold U (ev_state ev) state then
                     (case ev_ts ev of
                        None \<Rightarrow> since
                      | Some value \<Rightarrow>
                          if value \<le> now \<and> (case since of None \<Rightarrow> True | Some s \<Rightarrow> s < value)
                          then Some value else since)
                   else since)
     in if equal_fold U (ev_state ev) serviceStateFailed then (since', failures + 1, ev_msg ev)
        else (since', failures, msg))"

definition observe_service_at ::
    "(string \<Rightarrow> string \<Rightarrow> bool) \<Rightarrow> service_info option \<Rightarrow> int \<Rightarrow> service_observation" where
  "observe_service_at U info now =
     (case info of
        None \<Rightarrow> no_observation
      | Some i \<Rightarrow>
          (let obs = (case si_health i of
                 None \<Rightarrow> no_observation\<lparr>so_state := si_state i, so_health_unknown := True\<rparr>
               | Some h \<Rightarrow> no_observation\<lparr>so_state := si_state i, so_healthy := hr_healthy h,
                   so_health_unknown := hr_unknown h, so_message := hr_message h\<rparr>);
               (since, failures, msg) = fold (observe_event U (si_state i) now) (si_events i) (None, 0, []);
               obs = obs\<lparr>so_since := since, so_failures := failures\<rparr>
           in if msg \<noteq> [] then obs\<lparr>so_message := msg\<rparr> else obs))"

definition ellipsis :: string where "ellipsis = [CHR 0xE2, CHR 0x80, CHR 0xA6]"

definition truncate_service_message :: "string \<Rightarrow> string" where
  "truncate_service_message message =
     (if length message \<le> serviceMessageMaxLen then message
      else take serviceMessageMaxLen message @ ellipsis)"

definition classify_service ::
    "(string \<Rightarrow> string \<Rightarrow> bool) \<Rightarrow> string \<Rightarrow> service_observation \<Rightarrow> node_service" where
  "classify_service U name obs =
     (let running = equal_fold U (so_state obs) serviceStateRunning;
          health =
            (if so_state obs = [] then ServiceHealthUnknown
             else if running \<and> \<not> so_health_unknown obs \<and> so_healthy obs then ServiceHealthHealthy
             else if equal_fold U (so_state obs) serviceStateFailed \<or> so_failures obs \<ge> crashLoopFailures
               then ServiceHealthCrashLooping
             else if \<not> running then ServiceHealthStarting
             else if so_health_unknown obs then ServiceHealthUnknown
             else ServiceHealthUnhealthy)
      in \<lparr>sv_name = name, sv_state = so_state obs, sv_health = health,
          sv_message = truncate_service_message (trim_space (so_message obs)),
          sv_restarts = so_failures obs, sv_since = so_since obs\<rparr>)"

record stalled_service =
  ss_service :: string
  ss_state :: string
  ss_since :: int

datatype probe_status = ServiceProbeSucceeded | ServiceProbeMissingCredentials | ServiceProbeFailed

record service_probe =
  sp_status :: probe_status
  sp_source :: string
  sp_error :: string

subsection \<open>Nodes and clusters\<close>

record node_status =
  n_name :: string
  n_role :: string
  n_mac :: string
  n_ip :: string
  n_apid_reachable :: bool
  n_phase :: phase
  n_suspended :: bool
  n_kubelet :: "node_service option"
  n_services :: "node_service list"
  n_stalled_services :: "stalled_service list"
  n_service_probe :: "service_probe option"
  n_started_at :: "int option"
  n_unreachable_since :: "int option"
  n_rebooted_at :: "int option"

definition unreachable_for :: "node_status \<Rightarrow> int \<Rightarrow> int" where
  "unreachable_for n now =
     (case n_unreachable_since n of
        Some t \<Rightarrow> time_sub now t
      | None \<Rightarrow> (case n_started_at n of Some t \<Rightarrow> time_sub now t | None \<Rightarrow> 0))"

definition suspended_phase :: "node_status \<Rightarrow> node_status" where
  "suspended_phase n = (if n_suspended n \<and> n_phase n = PhaseStopped then n\<lparr>n_phase := PhaseSuspended\<rparr> else n)"

definition answered_since_start :: "node_status \<Rightarrow> bool" where
  "answered_since_start n \<longleftrightarrow> n_unreachable_since n \<noteq> None"

definition node_status_with ::
    "node \<Rightarrow> int \<Rightarrow> bool \<Rightarrow> (string \<Rightarrow> int \<Rightarrow> string) \<Rightarrow> (string \<Rightarrow> probe_result) \<Rightarrow> node_status" where
  "node_status_with node subnet_index vmRunning lookup_ip probe =
     (let ip = lookup_ip (node_mac node) subnet_index;
          p = (if vmRunning \<and> ip \<noteq> [] then probe ip else no_probe)
      in \<lparr>n_name = node_name node, n_role = node_role node, n_mac = node_mac node, n_ip = ip,
          n_apid_reachable = pr_dialed p, n_phase = classify_phase vmRunning p, n_suspended = False,
          n_kubelet = None, n_services = [], n_stalled_services = [], n_service_probe = None,
          n_started_at = None, n_unreachable_since = None, n_rebooted_at = None\<rparr>)"

text \<open>The machines of each cluster, with whether they are active.\<close>

type_synonym inventory = "(string, (string, bool) gomap) gomap"

definition node_running :: "inventory \<Rightarrow> string \<Rightarrow> string \<Rightarrow> bool" where
  "node_running vms c n = (case map_of vms c of Some nodes \<Rightarrow> map_of nodes n = Some True | None \<Rightarrow> False)"

definition cluster_running :: "inventory \<Rightarrow> string \<Rightarrow> bool" where
  "cluster_running vms c = (case map_of vms c of Some nodes \<Rightarrow> \<exists>e\<in>set nodes. snd e | None \<Rightarrow> False)"

datatype storage_phase = StoragePhaseUnset | StoragePhaseProvisioning | StoragePhaseLive | StoragePhaseFailed

record capability_status =
  cap_name :: string
  cap_supported :: bool
  cap_reason :: string

record cluster_status =
  c_name :: string
  c_subnet :: string
  c_hypervisor :: string
  c_domain :: string
  c_allow_unsafe_domain :: bool
  c_talos_version :: string
  c_schematic :: string
  c_base_schematic :: string
  c_talos_extensions :: "string list"
  c_intent :: provisioning_intent
  c_bgp :: bool
  c_running :: bool
  c_suspended :: bool
  c_saved_state_stale :: bool
  c_kubernetes_ready :: bool
  c_not_ready_since :: "int option"
  c_storage_phase :: storage_phase
  c_storage_error :: string
  c_storage_pending :: string
  c_storage_gate :: string
  c_vip :: string
  c_vip_live :: bool
  c_nodes :: "node_status list"
  c_capabilities :: "capability_status list"
  c_config_origin :: string
  c_subnet_index :: int

definition unreadyEscalationWindow :: int where "unreadyEscalationWindow = 2 * Minute"

definition kubernetes_unready_for :: "cluster_status \<Rightarrow> int \<Rightarrow> int" where
  "kubernetes_unready_for c now = (case c_not_ready_since c of None \<Rightarrow> 0 | Some t \<Rightarrow> time_sub now t)"

definition kubernetes_unready_briefly :: "cluster_status \<Rightarrow> int \<Rightarrow> bool" where
  "kubernetes_unready_briefly c now \<longleftrightarrow>
     c_not_ready_since c \<noteq> None \<and> kubernetes_unready_for c now < unreadyEscalationWindow"

definition control_plane_or :: "cluster_status \<Rightarrow> node_status \<Rightarrow> node_status" where
  "control_plane_or c fallback =
     (case find (\<lambda>n. n_role n = RoleControlPlane) (c_nodes c) of Some n \<Rightarrow> n | None \<Rightarrow> fallback)"

subsection \<open>The clock of a service\<close>

definition event_times :: "(string \<Rightarrow> string \<Rightarrow> bool) \<Rightarrow> string \<Rightarrow> int \<Rightarrow> service_event list \<Rightarrow> int list" where
  "event_times U state now evs =
     [t. ev \<leftarrow> evs, equal_fold U (ev_state ev) state, t \<leftarrow> (case ev_ts ev of None \<Rightarrow> [] | Some t \<Rightarrow> [t]), t \<le> now]"

definition newest :: "int list \<Rightarrow> int option" where
  "newest ts = (if ts = [] then None else Some (Max (set ts)))"

lemma newest_snoc: "newest (ts @ [t]) = (case newest ts of None \<Rightarrow> Some t | Some s \<Rightarrow> Some (max s t))"
  by (simp add: newest_def max.commute)

lemma observe_event_newest:
  "fst (observe_event U state now ev (newest ts, f, m)) = newest (ts @ event_times U state now [ev])"
  by (auto simp: observe_event_def event_times_def newest_snoc Let_def max_def split: option.split)

lemma observe_events_newest:
  "fst (fold (observe_event U state now) evs (newest ts, f, m)) = newest (ts @ event_times U state now evs)"
proof (induction evs arbitrary: ts f m)
  case (Cons ev evs)
  obtain s f' m' where e: "observe_event U state now ev (newest ts, f, m) = (s, f', m')"
    by (cases "observe_event U state now ev (newest ts, f, m)") auto
  have "s = newest (ts @ event_times U state now [ev])"
    using observe_event_newest [of U state now ev ts f m] e by simp
  moreover have "event_times U state now (ev # evs) = event_times U state now [ev] @ event_times U state now evs"
    by (simp add: event_times_def)
  ultimately show ?case using Cons.IH [of "ts @ event_times U state now [ev]" f' m'] e by simp
qed (simp add: event_times_def)

text \<open>The age of a service's state starts at the newest past event that entered that state, and
  is unknown when there is none: a transition reported for the future never hides one.\<close>

lemma service_since_newest:
  "so_since (observe_service_at U (Some i) now) = newest (event_times U (si_state i) now (si_events i))"
proof -
  obtain since f m
    where e: "fold (observe_event U (si_state i) now) (si_events i) (None, 0, []) = (since, f, m)"
    by (cases "fold (observe_event U (si_state i) now) (si_events i) (None, 0, [])") auto
  have "since = newest (event_times U (si_state i) now (si_events i))"
    using observe_events_newest [of U "si_state i" now "si_events i" "[]" 0 "[]"] e
    by (simp add: newest_def)
  then show ?thesis by (simp add: observe_service_at_def Let_def e)
qed

text \<open>A service is healthy only when it runs and says so, and one that has failed at most once
  and is not in the failed state is never reported as crash looping.\<close>

lemma classify_service_healthy:
  "sv_health (classify_service U name obs) = ServiceHealthHealthy \<longleftrightarrow>
   so_state obs \<noteq> [] \<and> equal_fold U (so_state obs) serviceStateRunning \<and>
   \<not> so_health_unknown obs \<and> so_healthy obs"
  by (auto simp: classify_service_def Let_def)

lemma classify_service_crash_looping:
  "crash_looping (classify_service U name obs) \<longleftrightarrow>
   so_state obs \<noteq> [] \<and> sv_health (classify_service U name obs) \<noteq> ServiceHealthHealthy \<and>
   (equal_fold U (so_state obs) serviceStateFailed \<or> 2 \<le> so_failures obs)"
  by (auto simp: classify_service_def crash_looping_def crashLoopFailures_def Let_def)

lemma truncate_service_message_bound: "length (truncate_service_message m) \<le> 163"
  by (simp add: truncate_service_message_def serviceMessageMaxLen_def ellipsis_def)

end
