(* ===== verification/Balloon_Gate.thy ===== *)
theory Balloon_Gate
  imports Balloon_Manager Host_Pressure Node_Status
begin

text \<open>
  The daemon's side of ballooning, \<^verbatim>\<open>src/internal/daemon/balloon.go\<close>: which guests the manager may
  touch, the ledger of accepted targets, the memory gates of operations that start guests, and the
  holds that keep a pre-balloon in place while those guests boot. The state is the part of
  \<^verbatim>\<open>Server\<close> these operations use. Locks only serialise them; each operation is one step. What the
  hypervisor answers, the host readings, the clusters on disk and the clock are arguments.
\<close>

subsection \<open>State\<close>

record balloon_hold =
  bh_reclaim :: int
  bh_until :: int

record balloon_server =
  bs_holds :: "balloon_hold list"
  bs_targets :: "(string, int) gomap"
  bs_teardowns :: int
  bs_shutdown :: bool
  bs_disabled :: bool

text \<open>Five minutes.\<close>

definition balloonReclaimHoldTTL :: int where
  "balloonReclaimHoldTTL = 300000000000"

definition record_balloon_target :: "string \<Rightarrow> int \<Rightarrow> balloon_server \<Rightarrow> balloon_server" where
  "record_balloon_target key target s = s\<lparr>bs_targets := AList.update key target (bs_targets s)\<rparr>"

definition balloon_target_mib :: "balloon_server \<Rightarrow> string \<Rightarrow> int" where
  "balloon_target_mib s key = at_key (bs_targets s) key"

definition prune_balloon_targets :: "string list \<Rightarrow> balloon_server \<Rightarrow> balloon_server" where
  "prune_balloon_targets live s = s\<lparr>bs_targets := keep_names live (bs_targets s)\<rparr>"

definition balloon_quiesced :: "balloon_server \<Rightarrow> bool" where
  "balloon_quiesced s \<longleftrightarrow> bs_disabled s \<or> bs_shutdown s \<or> bs_teardowns s > 0"

definition balloon_paused :: "balloon_server \<Rightarrow> bool" where
  "balloon_paused s = balloon_quiesced s"

definition quiesce_balloon :: "balloon_server \<Rightarrow> balloon_server" where
  "quiesce_balloon s = s\<lparr>bs_teardowns := bs_teardowns s + 1\<rparr>"

text \<open>The release function works once; the flag is what it remembers.\<close>

definition release_quiesce :: "bool \<Rightarrow> balloon_server \<Rightarrow> bool \<times> balloon_server" where
  "release_quiesce done s = (True, if done then s else s\<lparr>bs_teardowns := bs_teardowns s - 1\<rparr>)"

subsection \<open>The guests the manager may touch\<close>

record balloon_candidate =
  bc_configured :: int
  bc_current :: int
  bc_ip :: string
  bc_readback :: bool

definition candidate_key :: "string \<Rightarrow> string \<Rightarrow> string" where
  "candidate_key c n = c @ ''/'' @ n"

definition cluster_candidates ::
    "(string \<Rightarrow> int \<Rightarrow> string) \<Rightarrow> balloon_server \<Rightarrow> bool \<Rightarrow> cluster \<Rightarrow> string \<Rightarrow> (string, bool) gomap
      \<Rightarrow> (string, balloon_candidate) gomap \<Rightarrow> (string, balloon_candidate) gomap"
where
  "cluster_candidates lookup_ip s readback item cname nodes cs =
     foldl (\<lambda>cs (nname, active).
       case find (\<lambda>n. node_name n = nname) (rev (cl_nodes item)) of
         Some node \<Rightarrow> if \<not> active then cs
           else AList.update (candidate_key cname nname)
             \<lparr>bc_configured = memory_mib (defaults_for item (node_role node)),
              bc_current = balloon_target_mib s (candidate_key cname nname),
              bc_ip = lookup_ip (node_mac node) (cl_subnet_index item), bc_readback = readback\<rparr> cs
       | None \<Rightarrow> cs) cs nodes"

definition balloon_candidates ::
    "(string \<Rightarrow> cluster option) \<Rightarrow> (cluster \<Rightarrow> bool option) \<Rightarrow> (string \<Rightarrow> int \<Rightarrow> string) \<Rightarrow> inventory
      \<Rightarrow> balloon_server \<Rightarrow> balloon_server \<times> (string, balloon_candidate) gomap"
where
  "balloon_candidates load_cluster backend_readback lookup_ip vms s =
     (let cs = foldl (\<lambda>cs (cname, nodes).
          case load_cluster cname of
            None \<Rightarrow> cs
          | Some item \<Rightarrow> (case backend_readback item of
              None \<Rightarrow> cs
            | Some readback \<Rightarrow> cluster_candidates lookup_ip s readback item cname nodes cs)) [] vms
      in (prune_balloon_targets (keys cs) s, cs))"

datatype machine_error = ErrDeviceNotActive | OtherMachineError

text \<open>One guest as the manager sees it: setting a target goes to the machine and, once accepted, to
  the ledger. The reading is the target at the time of the snapshot.\<close>

definition machine_set_target ::
    "('x \<Rightarrow> string \<Rightarrow> int \<Rightarrow> 'x \<times> machine_error option) \<Rightarrow> bool \<Rightarrow> balloon_server \<times> 'x \<Rightarrow> string \<Rightarrow> int
      \<Rightarrow> (balloon_server \<times> 'x) \<times> set_error option"
where
  "machine_set_target machine tolerate w key target = (case w of (s, x) \<Rightarrow>
     if balloon_quiesced s then (w, Some ErrQuiesced)
     else (case machine x key target of
        (x', Some e) \<Rightarrow> ((s, x'), Some (if tolerate \<and> e = ErrDeviceNotActive then ErrTargetPending else OtherSetError))
      | (x', None) \<Rightarrow> ((record_balloon_target key target s, x'), None)))"

definition eligible :: "(string \<Rightarrow> probe_result) \<Rightarrow> balloon_candidate \<Rightarrow> bool" where
  "eligible apid c \<longleftrightarrow> bc_readback c \<or> (bc_ip c \<noteq> [] \<and> classify_phase True (apid (bc_ip c)) = PhaseConfigured)"

definition no_candidate :: balloon_candidate where
  "no_candidate = \<lparr>bc_configured = 0, bc_current = 0, bc_ip = [], bc_readback = False\<rparr>"

definition candidate_at :: "(string, balloon_candidate) gomap \<Rightarrow> string \<Rightarrow> balloon_candidate" where
  "candidate_at cs key = (case map_of cs key of Some c \<Rightarrow> c | None \<Rightarrow> no_candidate)"

definition balloonables_from ::
    "('x \<Rightarrow> string \<Rightarrow> int \<Rightarrow> 'x \<times> machine_error option) \<Rightarrow> (string \<Rightarrow> probe_result)
      \<Rightarrow> (string, balloon_candidate) gomap \<Rightarrow> (balloon_server \<times> 'x) guests"
where
  "balloonables_from machine apid cs =
     \<lparr>g_names = map fst (filter (\<lambda>e. eligible apid (snd e)) cs),
      g_configured = (\<lambda>key. bc_configured (candidate_at cs key)),
      g_current = (\<lambda>w key. Some (let c = candidate_at cs key in
                     if bc_current c > 0 then bc_current c else bc_configured c)),
      g_set = (\<lambda>w key. machine_set_target machine (bc_readback (candidate_at cs key)) w key)\<rparr>"

definition no_guests :: "'w guests" where
  "no_guests = \<lparr>g_names = [], g_configured = (\<lambda>_. 0), g_current = (\<lambda>_ _. None), g_set = (\<lambda>w _ _. (w, None))\<rparr>"

text \<open>The list the manager polls.\<close>

definition balloonables where
  "balloonables load_cluster backend_readback lookup_ip machine apid vms s =
     (if bs_disabled s then (s, no_guests)
      else case balloon_candidates load_cluster backend_readback lookup_ip vms s of
        (s', cs) \<Rightarrow> (s', balloonables_from machine apid cs))"

definition current_target_mib :: "'w guests \<Rightarrow> 'w \<Rightarrow> string \<Rightarrow> int" where
  "current_target_mib g w x = (case g_current g w x of
      Some target \<Rightarrow> if target > 0 then target else g_configured g x | None \<Rightarrow> g_configured g x)"

subsection \<open>Memory of clusters\<close>

definition sum_i64 :: "('a \<Rightarrow> int) \<Rightarrow> 'a list \<Rightarrow> int" where
  "sum_i64 f xs = foldl (\<lambda>t x. i64 (t + f x)) 0 xs"

definition cluster_memory_mib :: "cluster \<Rightarrow> int" where
  "cluster_memory_mib item = sum_i64 (\<lambda>n. memory_mib (defaults_for item (node_role n))) (cl_nodes item)"

definition stopped_node_memory_mib :: "inventory \<Rightarrow> cluster \<Rightarrow> int" where
  "stopped_node_memory_mib vms item =
     sum_i64 (\<lambda>n. memory_mib (defaults_for item (node_role n)))
       (filter (\<lambda>n. \<not> node_running vms (cl_name item) (node_name n)) (cl_nodes item))"

text \<open>The running nodes of all clusters, in the order of the two loops, with their configured memory.\<close>

definition running_nodes :: "inventory \<Rightarrow> cluster list \<Rightarrow> int list" where
  "running_nodes vms clusters = concat (map (\<lambda>item.
     map (\<lambda>n. memory_mib (defaults_for item (node_role n)))
       (filter (\<lambda>n. node_running vms (cl_name item) (node_name n)) (cl_nodes item))) clusters)"

definition running_vm_memory_mib :: "inventory \<Rightarrow> cluster list option \<Rightarrow> int" where
  "running_vm_memory_mib vms listed = (case listed of None \<Rightarrow> 0 | Some clusters \<Rightarrow> sum_i64 id (running_nodes vms clusters))"

definition reclaim_ceiling_mib :: "inventory \<Rightarrow> cluster list option \<Rightarrow> int \<Rightarrow> int" where
  "reclaim_ceiling_mib vms listed fl = (case listed of None \<Rightarrow> 0
     | Some clusters \<Rightarrow> sum_i64 id (filter (\<lambda>above. above > 0) (map (\<lambda>m. i64 (m - fl)) (running_nodes vms clusters))))"

subsection \<open>Taking memory back before a start\<close>

record 'w balloon_reclaim =
  br_vms :: "'w guests"
  br_available :: int
  br_floor :: int

definition available_mib :: "'w guests \<Rightarrow> 'w \<Rightarrow> int \<Rightarrow> int" where
  "available_mib g w fl = foldl (\<lambda>t x. let above = i64 (current_target_mib g w x - fl) in if above > 0 then i64 (t + above) else t) 0 (g_names g)"

definition measure_reclaim ::
    "bool \<Rightarrow> inventory \<Rightarrow> cluster list option \<Rightarrow> int \<Rightarrow> 'w guests \<Rightarrow> 'w \<Rightarrow> 'w balloon_reclaim"
where
  "measure_reclaim off vms listed fl g w =
     (if off \<or> reclaim_ceiling_mib vms listed fl \<le> 0 then \<lparr>br_vms = no_guests, br_available = 0, br_floor = fl\<rparr>
      else \<lparr>br_vms = g, br_available = available_mib g w fl, br_floor = fl\<rparr>)"

datatype apply_error = BalloonDownFailed string int | ReclaimPending "string list" int

text \<open>The state of the loop: world, memory held, share of the guests that are not up, their names.\<close>

type_synonym 'w apply_state = "'w \<times> int \<times> int \<times> string list"

definition apply_one ::
    "'w guests \<Rightarrow> ('w \<Rightarrow> string \<Rightarrow> int) \<Rightarrow> target_map \<Rightarrow> 'w apply_state \<Rightarrow> string
      \<Rightarrow> ('w \<times> int \<times> apply_error) + 'w apply_state"
where
  "apply_one g cur targets st name = (case st of (w, held, pendingMiB, pending) \<Rightarrow>
     (case g_set g w name (at_key targets name) of
        (w', None) \<Rightarrow>
          (let out = i64 (g_configured g name - at_key targets name)
           in Inr (w', if out > 0 then i64 (held + out) else held, pendingMiB, pending))
      | (w', Some OtherSetError) \<Rightarrow> Inl (w', held, BalloonDownFailed name (at_key targets name))
      | (w', Some e) \<Rightarrow> Inr (w', held, i64 (pendingMiB + i64 (cur w' name - at_key targets name)), pending @ [name])))"

definition reclaim_apply ::
    "'w balloon_reclaim \<Rightarrow> int \<Rightarrow> 'w \<Rightarrow> ('w \<times> int \<times> apply_error option) option"
where
  "reclaim_apply r deficit w =
     (let g = br_vms r;
          nodes = map (\<lambda>name. \<lparr>bn_name = name, bn_configured = current_target_mib g w name\<rparr>) (g_names g)
      in map_option (\<lambda>targets.
           case fold_try (apply_one g (current_target_mib g) targets) (w, 0, 0, []) (sort (g_names g)) of
             Inl (w', held, e) \<Rightarrow> (w', held, Some e)
           | Inr (w', held, pendingMiB, pending) \<Rightarrow>
               (w', held, if pending \<noteq> [] then Some (ReclaimPending pending pendingMiB) else None))
         (plan_targets nodes (i64 (deficit + int (length nodes))) (br_floor r)))"

subsection \<open>Holds\<close>

definition drop_expired_holds :: "int \<Rightarrow> balloon_server \<Rightarrow> balloon_server" where
  "drop_expired_holds now s = s\<lparr>bs_holds := filter (\<lambda>h. now < bh_until h) (bs_holds s)\<rparr>"

definition hold_balloon_reclaim :: "int \<Rightarrow> int \<Rightarrow> balloon_server \<Rightarrow> balloon_server" where
  "hold_balloon_reclaim now mib s =
     (if mib \<le> 0 then s
      else let s = drop_expired_holds now s
        in s\<lparr>bs_holds := bs_holds s @ [\<lparr>bh_reclaim = mib, bh_until = now + balloonReclaimHoldTTL\<rparr>]\<rparr>)"

text \<open>The index of the newest entry of a size.\<close>

definition newest_hold :: "int \<Rightarrow> balloon_hold list \<Rightarrow> nat option" where
  "newest_hold mib hs = find (\<lambda>i. bh_reclaim (hs ! i) = mib) (rev [0..<length hs])"

definition rearm_balloon_hold :: "int \<Rightarrow> int \<Rightarrow> balloon_server \<Rightarrow> balloon_server" where
  "rearm_balloon_hold now mib s =
     (if mib \<le> 0 then s
      else let s = drop_expired_holds now s; until = now + balloonReclaimHoldTTL
        in case newest_hold mib (bs_holds s) of
             Some i \<Rightarrow> s\<lparr>bs_holds := (bs_holds s)[i := (bs_holds s ! i)\<lparr>bh_until := until\<rparr>]\<rparr>
           | None \<Rightarrow> s\<lparr>bs_holds := bs_holds s @ [\<lparr>bh_reclaim = mib, bh_until = until\<rparr>]\<rparr>)"

definition release_balloon_hold :: "int \<Rightarrow> int \<Rightarrow> balloon_server \<Rightarrow> balloon_server" where
  "release_balloon_hold now mib s =
     (if mib \<le> 0 then s
      else let s = drop_expired_holds now s
        in case newest_hold mib (bs_holds s) of
             Some i \<Rightarrow> s\<lparr>bs_holds := take i (bs_holds s) @ drop (i + 1) (bs_holds s)\<rparr>
           | None \<Rightarrow> s)"

definition balloon_hold_armed :: "int \<Rightarrow> balloon_server \<Rightarrow> bool \<times> balloon_server" where
  "balloon_hold_armed now s = (let s = drop_expired_holds now s in (bs_holds s \<noteq> [], s))"

definition balloon_hold_mib :: "int \<Rightarrow> int \<Rightarrow> int \<Rightarrow> balloon_server \<Rightarrow> int \<times> balloon_server" where
  "balloon_hold_mib now cap later s =
     (case balloon_hold_armed now s of
        (False, s) \<Rightarrow> (0, s)
      | (True, s) \<Rightarrow>
          (let s = drop_expired_holds later s;
               held = foldl (\<lambda>held h. if bh_reclaim h > held then bh_reclaim h else held) 0 (bs_holds s)
           in (if held > cap then cap else held, s)))"

subsection \<open>The gates\<close>

definition apply_pressure_findings :: "finding list \<Rightarrow> bool \<Rightarrow> string + string list" where
  "apply_pressure_findings fs force =
     (let blocking = map finding_string (filter (\<lambda>f. fd_severity f = SeverityBlock) fs);
          advisory = map finding_string (filter (\<lambda>f. fd_severity f \<noteq> SeverityBlock) fs)
      in if blocking = [] then Inr advisory
         else if \<not> force then Inl (join ''; '' blocking @ '' (use --force to override)'')
         else Inr (map (\<lambda>b. b @ '' (forced)'') blocking @ advisory))"

text \<open>The em dash of the message is three bytes of UTF-8.\<close>

definition forced_suffix :: string where
  "forced_suffix = '' (forced '' @ [char_of (226 :: nat), char_of (128 :: nat), char_of (148 :: nat)]
     @ '' ballooning will reclaim under pressure)''"

definition overcommit_message :: "int \<Rightarrow> int \<Rightarrow> int \<Rightarrow> string" where
  "overcommit_message planned host reserve = ''planned VM memory '' @ itoa planned @ '' MiB exceeds host '' @ itoa host
     @ '' MiB minus '' @ itoa reserve @ '' MiB reserve''"

text \<open>\<^const>\<open>None\<close> for the clusters is the failure of listing them.\<close>

definition check_overcommit ::
    "int option \<Rightarrow> int \<Rightarrow> inventory \<Rightarrow> cluster list option \<Rightarrow> int \<Rightarrow> bool \<Rightarrow> string option + string"
where
  "check_overcommit measured reserve vms listed add force =
     (case measured of None \<Rightarrow> Inr ''''
      | Some host \<Rightarrow> (case listed of None \<Rightarrow> Inl None
          | Some clusters \<Rightarrow>
              let planned = foldl (\<lambda>t item. if cluster_running vms (cl_name item) then i64 (t + cluster_memory_mib item) else t) add clusters
              in if \<not> overcommit planned host reserve then Inr ''''
                 else if \<not> force
                 then Inl (Some (overcommit_message planned host reserve
                        @ '' (use --force to override; ballooning will reclaim under pressure)''))
                 else Inr (overcommit_message planned host reserve @ forced_suffix)))"

datatype pressure_probe = Measured reading | ProbeUnsupported | ProbeFailed string

definition check_host_pressure ::
    "pressure_probe \<Rightarrow> int option \<Rightarrow> int \<Rightarrow> int \<Rightarrow> bool \<Rightarrow> string + string list"
where
  "check_host_pressure p free reserve incoming force =
     (case p of
        ProbeUnsupported \<Rightarrow> Inr []
      | ProbeFailed e \<Rightarrow> Inr [''host-pressure probe failed: '' @ e @ ''; proceeding without host-pressure protection'']
      | Measured s \<Rightarrow>
          (let s = (case free of Some m \<Rightarrow> s\<lparr>rd_free := m\<rparr> | None \<Rightarrow> s)
           in apply_pressure_findings (assess s (i64 (reserve + incoming))) force))"

datatype gate_warning = FindingText string
  | PreBallooned int int int int int
  | PreBalloonFailed int int apply_error

datatype gate_error = Blocked string | PreBalloonRefused int int apply_error

text \<open>The readings of one admission.\<close>

record gate_input =
  gi_free :: "int option"
  gi_total :: "int option"
  gi_reading :: "reading option"
  gi_reserve :: int
  gi_floor :: int
  gi_vms :: inventory
  gi_listed :: "cluster list option"
  gi_now :: int

definition gate_start :: "gate_input \<Rightarrow> int \<Rightarrow> provision_start" where
  "gate_start i add =
     \<lparr>ps_running = running_vm_memory_mib (gi_vms i) (gi_listed i), ps_new = add,
      ps_host_free = case_option 0 id (gi_free i), ps_host_total = case_option 0 id (gi_total i),
      ps_reserve = gi_reserve i, ps_reclaimable = 0,
      ps_pressure = (case gi_reading i of Some r \<Rightarrow> rd_pressure r | None \<Rightarrow> MemoryPressureUnknown),
      ps_swap = (case gi_reading i of Some r \<Rightarrow> rd_swap r | None \<Rightarrow> \<lparr>us_total = 0, us_available = 0\<rparr>)\<rparr>"

text \<open>The guests are listed, and probed, only when the host is short.\<close>

definition gate_reclaim ::
    "gate_input \<Rightarrow> int \<Rightarrow> (balloon_server \<times> 'x) guests \<Rightarrow> balloon_server \<times> 'x \<Rightarrow> (balloon_server \<times> 'x) balloon_reclaim"
where
  "gate_reclaim i add g w =
     (if provision_start_shortfall (gate_start i add) > 0
      then measure_reclaim (bs_disabled (fst w)) (gi_vms i) (gi_listed i) (gi_floor i) g w
      else \<lparr>br_vms = no_guests, br_available = 0, br_floor = 0\<rparr>)"

definition check_provision_start ::
    "gate_input \<Rightarrow> int \<Rightarrow> bool \<Rightarrow> (balloon_server \<times> 'x) guests \<Rightarrow> balloon_server \<times> 'x
      \<Rightarrow> ((balloon_server \<times> 'x) \<times> (gate_error + gate_warning list \<times> int)) option"
where
  "check_provision_start i add force g w =
     (let p = gate_start i add;
          reclaim = gate_reclaim i add g w;
          p = p\<lparr>ps_reclaimable := br_available reclaim\<rparr>;
          plan = assess_provision_start p
      in case apply_pressure_findings (pp_findings plan) force of
           Inl e \<Rightarrow> Some (w, Inl (Blocked e))
         | Inr texts \<Rightarrow>
             if pp_reclaim plan = 0 then Some (w, Inr (map FindingText texts, 0))
             else (case reclaim_apply reclaim (pp_reclaim plan) w of
                 None \<Rightarrow> None
               | Some ((s, x), held, Some e) \<Rightarrow>
                   Some (if \<not> force then ((s, x), Inl (PreBalloonRefused (pp_reclaim plan) (ps_running p) e))
                     else ((if held > 0 then hold_balloon_reclaim (gi_now i) held s else s, x),
                           Inr (map FindingText texts @ [PreBalloonFailed (pp_reclaim plan) (ps_running p) e], held)))
               | Some ((s, x), held, None) \<Rightarrow>
                   Some ((hold_balloon_reclaim (gi_now i) held s, x),
                     Inr (map FindingText texts
                       @ [PreBallooned (pp_reclaim plan) (ps_running p) add (gi_reserve i) (ps_host_free p)], held))))"

definition check_longhorn_memory_warning :: "int option \<Rightarrow> int \<Rightarrow> cluster \<Rightarrow> string" where
  "check_longhorn_memory_warning free reserve item =
     (if pi_csi (cl_intent item) \<noteq> CSILonghorn then ''''
      else case free of None \<Rightarrow> ''''
        | Some mib \<Rightarrow>
            (let projected = i64 (mib - cluster_memory_mib item)
             in if projected \<ge> reserve then ''''
                else ''Longhorn on a memory-tight host: projected free memory '' @ itoa (if projected < 0 then 0 else projected)
                  @ '' MiB is below the '' @ itoa reserve
                  @ '' MiB balloon reserve; storage replicas may stall under swap pressure, but tbx will continue''))"

subsection \<open>An admitted start leaves the reserve\<close>

lemma apply_findings_unforced:
  "apply_pressure_findings fs False = Inr texts \<Longrightarrow> \<forall>f\<in>set fs. fd_severity f \<noteq> SeverityBlock"
  by (auto simp: apply_pressure_findings_def Let_def filter_empty_conv split: if_splits)

lemma assess_admitted:
  assumes "apply_pressure_findings (pp_findings (assess_provision_start p)) False = Inr texts"
    and "0 < ps_running p" "0 < ps_new p" "0 < ps_host_free p"
  shows "pp_reclaim (assess_provision_start p) = max 0 (provision_start_shortfall p)"
    and "0 < provision_start_shortfall p \<Longrightarrow> provision_start_shortfall p \<le> ps_reclaimable p"
  using apply_findings_unforced [OF assms(1)] assms(2-4)
  by (auto simp: assess_provision_start_def headroom_finding_def Let_def split: if_splits)

text \<open>Setting targets one after the other, as long as the guests accept.\<close>

fun set_all :: "'w guests \<Rightarrow> (string \<times> int) list \<Rightarrow> 'w \<Rightarrow> 'w option" where
  "set_all g [] w = Some w"
| "set_all g ((x, t) # ts) w = (case g_set g w x t of (w', None) \<Rightarrow> set_all g ts w' | _ \<Rightarrow> None)"

lemma apply_all_set:
  assumes "fold_try (apply_one g cur T) (w, h, p, q) names = Inr (w', h', p', [])"
  shows "q = [] \<and> set_all g (map (\<lambda>x. (x, at_key T x)) names) w = Some w'"
  using assms
proof (induction names arbitrary: w h p q)
  case (Cons x names)
  then show ?case
    by (auto simp: apply_one_def Let_def try_simps split: prod.splits option.splits set_error.splits) blast+
qed simp

definition guest_total :: "'w guests \<Rightarrow> 'w \<Rightarrow> int" where
  "guest_total g w = (\<Sum>x\<leftarrow>g_names g. current_target_mib g w x)"

definition targets_ok :: "'w guests \<Rightarrow> 'w \<Rightarrow> bool" where
  "targets_ok g w \<longleftrightarrow> distinct (g_names g) \<and> (\<forall>x\<in>set (g_names g). 0 \<le> current_target_mib g w x)
     \<and> guest_total g w \<le> 2 ^ 30 \<and> int (length (g_names g)) \<le> 2 ^ 30"

lemma available_exact:
  assumes "targets_ok g w" "0 \<le> fl" "fl \<le> 2 ^ 30"
  shows "available_mib g w fl = (\<Sum>x\<leftarrow>g_names g. max 0 (current_target_mib g w x - fl))"
proof -
  let ?c = "current_target_mib g w"
  have "foldl (\<lambda>t x. let above = i64 (?c x - fl) in if above > 0 then i64 (t + above) else t) t xs
      = t + (\<Sum>x\<leftarrow>xs. max 0 (?c x - fl))"
    if "0 \<le> t" "\<forall>x\<in>set xs. 0 \<le> ?c x" "t + sum_list (map ?c xs) \<le> 2 ^ 31" for t xs
    using that
  proof (induction xs arbitrary: t)
    case (Cons x xs)
    have s: "0 \<le> sum_list (map ?c xs)" using Cons.prems by (intro sum_list_nonneg) auto
    have a: "i64 (?c x - fl) = ?c x - fl" using Cons.prems s assms(2,3) by (intro i64_in_range) (auto simp: in_i64_def)
    have b: "i64 (t + (?c x - fl)) = t + (?c x - fl)" if "0 < ?c x - fl"
      using that Cons.prems s assms(2) by (intro i64_small) auto
    show ?case using Cons.IH [of "t + max 0 (?c x - fl)"] Cons.prems s a b assms(2) by (auto simp: Let_def max_def)
  qed simp
  from this [of 0 "g_names g"] assms(1) show ?thesis by (simp add: available_mib_def targets_ok_def guest_total_def)
qed

lemma reclaim_apply_takes:
  assumes ok: "targets_ok g w" and fl: "0 \<le> fl" "fl \<le> 2 ^ 30" and d: "0 < d" "d \<le> available_mib g w fl"
    and r: "reclaim_apply \<lparr>br_vms = g, br_available = a, br_floor = fl\<rparr> d w = Some (w', held, None)"
  shows "\<exists>ts. set_all g ts w = Some w' \<and> distinct (map fst ts)
    \<and> (\<forall>(x, t)\<in>set ts. x \<in> set (g_names g) \<and> min fl (current_target_mib g w x) \<le> t \<and> t \<le> current_target_mib g w x)
    \<and> d \<le> (\<Sum>(x, t)\<leftarrow>ts. current_target_mib g w x - t)"
proof -
  let ?c = "current_target_mib g w" and ?N = "g_names g"
  let ?ns = "map (\<lambda>name. \<lparr>bn_name = name, bn_configured = ?c name\<rparr>) ?N"
  have N: "distinct ?N" "\<forall>x\<in>set ?N. 0 \<le> ?c x" "sum_list (map ?c ?N) \<le> 2 ^ 30" "int (length ?N) \<le> 2 ^ 30"
    using ok by (auto simp: targets_ok_def guest_total_def)
  have av: "available_mib g w fl = (\<Sum>x\<leftarrow>?N. max 0 (?c x - fl))" by (rule available_exact [OF ok fl])
  have "(\<Sum>x\<leftarrow>?N. max 0 (?c x - fl)) \<le> sum_list (map ?c ?N)" using N(2) fl by (intro sum_list_mono) auto
  with d av N(3) have dd: "d \<le> 2 ^ 30" by simp
  then have i: "i64 (d + int (length ?ns)) = d + int (length ?ns)" using d N(4) by (intro i64_small) auto
  have ns: "distinct (map bn_name ?ns)" "\<forall>n\<in>set ?ns. 0 \<le> bn_configured n" "sum_list (map bn_configured ?ns) \<le> 2 ^ 31"
    using N by (auto simp: comp_def)
  have "d + int (length ?ns) \<le> 2 ^ 31" using dd N(4) by simp
  from plan_targets_correct [OF ns(1) fl(1) this ns(2,3)]
  obtain T where T: "plan_targets ?ns (d + int (length ?ns)) fl = Some T"
    and b: "\<forall>x\<in>set ?N. min fl (?c x) \<le> at_key T x \<and> at_key T x \<le> ?c x"
    and got: "(\<forall>x\<in>set ?N. at_key T x \<le> fl) \<or> d + int (length ?N) - (\<Sum>x\<leftarrow>?N. ?c x - at_key T x) < max 1 (int (length ?N))"
    by (auto simp: comp_def)
  let ?ts = "map (\<lambda>x. (x, at_key T x)) (sort ?N)"
  have "set_all g ?ts w = Some w'"
    using r T i apply_all_set [of g "current_target_mib g" T w 0 0 "[]" "sort ?N" w']
    by (auto simp: reclaim_apply_def split: sum.splits if_splits)
  moreover have "d \<le> (\<Sum>x\<leftarrow>?N. ?c x - at_key T x)"
  proof (cases "\<forall>x\<in>set ?N. at_key T x \<le> fl")
    case True
    with b have "(\<Sum>x\<leftarrow>?N. max 0 (?c x - fl)) \<le> (\<Sum>x\<leftarrow>?N. ?c x - at_key T x)" by (intro sum_list_mono) force
    with d av show ?thesis by simp
  next
    case False
    then have "1 \<le> int (length ?N)" by (cases ?N) auto
    with got False show ?thesis by linarith
  qed
  moreover have "(\<Sum>x\<leftarrow>sort ?N. f x) = (\<Sum>x\<leftarrow>?N. f x)" for f :: "string \<Rightarrow> int"
    using N(1) by (simp add: sum_list_distinct_conv_sum_set)
  ultimately show ?thesis using b N(1) by (intro exI [of _ ?ts]) (auto simp: comp_def)
qed

text \<open>C6: A start the gate admits leaves the reserve. With guests running and free memory measured,
  an unforced admission has either found the reserve free beside the new guests, or has taken what
  was missing out of running guests: every one accepted a target between the floor and what it
  held, and measured free memory plus what they gave covers the new guests and the reserve.\<close>

theorem admitted_start_leaves_reserve:
  assumes run: "check_provision_start i add False g w = Some (w', Inr (ws, held))"
    and ok: "targets_ok g w" and fl: "0 \<le> gi_floor i" "gi_floor i \<le> 2 ^ 30"
    and pos: "0 < running_vm_memory_mib (gi_vms i) (gi_listed i)" "0 < add" "gi_free i = Some free" "0 < free"
    and small: "add \<le> 2 ^ 30" "free \<le> 2 ^ 30" "0 \<le> gi_reserve i" "gi_reserve i \<le> 2 ^ 30"
  shows "\<exists>ts v. set_all g ts w = Some v \<and> snd w' = snd v \<and> distinct (map fst ts)
    \<and> (\<forall>(x, t)\<in>set ts. x \<in> set (g_names g) \<and> min (gi_floor i) (current_target_mib g w x) \<le> t \<and> t \<le> current_target_mib g w x)
    \<and> add + gi_reserve i \<le> free + (\<Sum>(x, t)\<leftarrow>ts. current_target_mib g w x - t)"
proof -
  let ?r = "gate_reclaim i add g w"
  let ?p = "(gate_start i add)\<lparr>ps_reclaimable := br_available ?r\<rparr>"
  let ?short = "gi_reserve i - (free - add)"
  have "i64 (free - add) = free - add" "i64 ?short = ?short"
    using pos small by (auto intro!: i64_in_range simp: in_i64_def)
  then have s: "provision_start_shortfall ?p = ?short" "provision_start_shortfall (gate_start i add) = ?short"
    using pos by (simp_all add: provision_start_shortfall_def gate_start_def)
  obtain texts where f: "apply_pressure_findings (pp_findings (assess_provision_start ?p)) False = Inr texts"
    using run by (auto simp: check_provision_start_def Let_def split: sum.splits)
  have p: "0 < ps_running ?p" "0 < ps_new ?p" "0 < ps_host_free ?p" using pos by (simp_all add: gate_start_def)
  note A = assess_admitted [OF f p, unfolded s]
  show ?thesis
  proof (cases "?short \<le> 0")
    case True
    with A(1) run f have "w' = w" by (simp add: check_provision_start_def Let_def)
    with True show ?thesis by (intro exI [of _ "[]"] exI [of _ w]) auto
  next
    case False
    then have le: "?short \<le> br_available ?r" using A(2) by simp
    with False have r: "?r = \<lparr>br_vms = g, br_available = available_mib g w (gi_floor i), br_floor = gi_floor i\<rparr>"
      by (auto simp: gate_reclaim_def s measure_reclaim_def split: if_splits)
    have "\<exists>v h. reclaim_apply ?r ?short w = Some (v, h, None) \<and> snd w' = snd v"
      using run f A(1) False by (auto simp: check_provision_start_def Let_def split: option.splits prod.splits)
    then obtain v h where v: "reclaim_apply ?r ?short w = Some (v, h, None)" "snd w' = snd v" by blast
    have d: "0 < ?short" "?short \<le> available_mib g w (gi_floor i)" using False le by (simp_all add: r)
    from reclaim_apply_takes [OF ok fl d v(1) [unfolded r]] obtain ts where
      ts: "set_all g ts w = Some v" "distinct (map fst ts)" "?short \<le> (\<Sum>(x, t)\<leftarrow>ts. current_target_mib g w x - t)"
      "\<forall>(x, t)\<in>set ts. x \<in> set (g_names g) \<and> min (gi_floor i) (current_target_mib g w x) \<le> t \<and> t \<le> current_target_mib g w x"
      by blast
    from ts(3) have "add + gi_reserve i \<le> free + (\<Sum>(x, t)\<leftarrow>ts. current_target_mib g w x - t)" by linarith
    with ts(1,2,4) v(2) show ?thesis by blast
  qed
qed

definition sample_candidates :: "(string, balloon_candidate) gomap" where
  "sample_candidates = [(''demo/demo-cp-1'', \<lparr>bc_configured = 4096, bc_current = 0, bc_ip = ''172.30.0.2'', bc_readback = True\<rparr>)]"

definition sample_gate :: gate_input where
  "sample_gate = \<lparr>gi_free = Some 7000, gi_total = Some 32768, gi_reading = None, gi_reserve = 6144, gi_floor = 1024,
     gi_vms = [(''demo'', [(''demo-cp-1'', True)])],
     gi_listed = Some [zero_cluster\<lparr>cl_name := ''demo'', cl_node_defaults := zero_defaults\<lparr>memory_mib := 4096\<rparr>,
       cl_nodes := [\<lparr>node_name = ''demo-cp-1'', node_role = RoleControlPlane, node_mac = [], node_ip = []\<rparr>]\<rparr>],
     gi_now = 0\<rparr>"

definition sample_server :: balloon_server where
  "sample_server = \<lparr>bs_holds = [], bs_targets = [], bs_teardowns = 0, bs_shutdown = False, bs_disabled = False\<rparr>"

definition sample_machines :: "(balloon_server \<times> int) guests" where
  "sample_machines = balloonables_from (\<lambda>x key t. (x + 1, None)) (\<lambda>_. \<lparr>pr_dialed = False, pr_tls = False, pr_maintenance = False\<rparr>) sample_candidates"

theorem admitted_start_leaves_reserve_witness:
  "\<exists>w' ws. check_provision_start sample_gate 2048 False sample_machines (sample_server, 0) = Some (w', Inr (ws, 1193)) \<and> snd w' = 1
     \<and> (\<exists>ts v. set_all sample_machines ts (sample_server, 0) = Some v \<and>
          2048 + 6144 \<le> 7000 + (\<Sum>(x, t)\<leftarrow>ts. current_target_mib sample_machines (sample_server, 0) x - t))"
proof -
  have "case check_provision_start sample_gate 2048 False sample_machines (sample_server, 0) of
      Some r \<Rightarrow> snd (fst r) = 1 \<and> (case snd r of Inr s \<Rightarrow> snd s = 1193 | Inl e \<Rightarrow> False) | None \<Rightarrow> False"
    by code_simp
  then obtain w' ws where r: "check_provision_start sample_gate 2048 False sample_machines (sample_server, 0) = Some (w', Inr (ws, 1193))"
      "snd w' = 1"
    by (cases "check_provision_start sample_gate 2048 False sample_machines (sample_server, 0)")
      (auto split: sum.splits simp del: split_paired_All)
  have t: "targets_ok sample_machines (sample_server, 0)" by code_simp
  have v: "0 < running_vm_memory_mib (gi_vms sample_gate) (gi_listed sample_gate)" by code_simp
  show ?thesis
    using admitted_start_leaves_reserve [OF r(1) t _ _ v, of 7000] r by (simp add: sample_gate_def) blast
qed

subsection \<open>The ledger of holds\<close>

lemma newest_hold_last: "newest_hold m (hs @ [\<lparr>bh_reclaim = m, bh_until = t\<rparr>]) = Some (length hs)"
  by (simp add: newest_hold_def nth_append)

lemma largest_hold:
  "foldl (\<lambda>held h. if bh_reclaim h > held then bh_reclaim h else held) m hs = Max (insert m (bh_reclaim ` set hs))"
proof (induction hs arbitrary: m)
  case (Cons h hs)
  have "foldl (\<lambda>held h. if bh_reclaim h > held then bh_reclaim h else held) m (h # hs)
      = Max (insert (max m (bh_reclaim h)) (bh_reclaim ` set hs))"
    by (simp add: Cons.IH max_def)
  also have "\<dots> = max (max m (bh_reclaim h)) (Max (insert (max m (bh_reclaim h)) (bh_reclaim ` set hs)))"
    by (simp add: max_def)
  also have "\<dots> = Max (insert m (bh_reclaim ` set (h # hs)))"
    by (cases "hs = []") (simp_all add: max.assoc max.left_commute)
  finally show ?case .
qed simp

text \<open>A hold belongs to the start that took it. Within its boot window, releasing it leaves the
  ledger as if it had never been taken, apart from entries that have expired, and re-arming it is
  the same as taking it at the later time. What the manager must keep out is the largest live hold,
  never more than the running guests can give.\<close>

lemma holds_are_per_start:
  assumes "0 < mib" "t1 \<le> t2" "t2 < t1 + balloonReclaimHoldTTL"
  shows "release_balloon_hold t2 mib (hold_balloon_reclaim t1 mib s) = drop_expired_holds t2 s
    \<and> rearm_balloon_hold t2 mib (hold_balloon_reclaim t1 mib s) = hold_balloon_reclaim t2 mib s
    \<and> fst (balloon_hold_mib t2 cap t2 s) =
        (if bs_holds (drop_expired_holds t2 s) = [] then 0
         else min cap (Max (insert 0 (bh_reclaim ` set (bs_holds (drop_expired_holds t2 s))))))"
proof -
  let ?live = "filter (\<lambda>h. t2 < bh_until h) (bs_holds s)"
  have f: "filter (\<lambda>h. t2 < bh_until h \<and> t1 < bh_until h) (bs_holds s) = ?live"
    using assms(2) by (intro filter_cong) auto
  have 1: "drop_expired_holds t2 (hold_balloon_reclaim t1 mib s) =
      s\<lparr>bs_holds := ?live @ [\<lparr>bh_reclaim = mib, bh_until = t1 + balloonReclaimHoldTTL\<rparr>]\<rparr>"
    using assms f by (simp add: drop_expired_holds_def hold_balloon_reclaim_def Let_def conj_commute)
  have "release_balloon_hold t2 mib (hold_balloon_reclaim t1 mib s) = drop_expired_holds t2 s"
    using assms(1) by (simp add: release_balloon_hold_def 1 newest_hold_last Let_def) (simp add: drop_expired_holds_def)
  moreover have "rearm_balloon_hold t2 mib (hold_balloon_reclaim t1 mib s) = hold_balloon_reclaim t2 mib s"
    using assms(1) by (simp add: rearm_balloon_hold_def hold_balloon_reclaim_def [of t2] 1 newest_hold_last Let_def)
      (simp add: drop_expired_holds_def)
  moreover have "drop_expired_holds t2 (drop_expired_holds t2 s) = drop_expired_holds t2 s"
    by (simp add: drop_expired_holds_def)
  moreover have "(if cap < m then cap else m) = min cap m" for m :: int by (simp add: min_def)
  ultimately show ?thesis
    by (simp add: balloon_hold_mib_def balloon_hold_armed_def Let_def largest_hold del: Max_insert Max.insert split: bool.split)
qed

end
