(* ===== verification/Frame_Router.thy ===== *)
theory Frame_Router
  imports Go_Binary
begin

text \<open>
  The frame router of the macOS helper, \<^verbatim>\<open>src/internal/helper/router.go\<close> and the port removal of
  \<^verbatim>\<open>src/internal/helper/router_darwin.go\<close>: it learns which port owns which address from ARP and
  DHCP traffic and from the host's BGP routes, and forwards IPv4 frames between cluster subnets.
  Ports are objects with identity: the heap maps the number a port was created with to its
  fields, and the router's map of ports holds the numbers that are attached. Locks only make each
  operation one step. Writing a frame to a port is an argument, the outcome of the send.
\<close>

subsection \<open>State\<close>

record port =
  rp_subnet :: int
  rp_closed :: bool
  rp_mac :: "mac option"
  rp_gateway :: "mac option"
  rp_node_ip :: "ip option"
  rp_ips :: "ip list"

record router =
  fr_next :: int
  fr_heap :: "int \<Rightarrow> port option"
  fr_ports :: "int list"
  fr_owner :: "ip \<Rightarrow> int option"
  fr_routed :: "ip \<Rightarrow> ip option"

definition new_frame_router :: router where
  "new_frame_router = \<lparr>fr_next = 0, fr_heap = (\<lambda>_. None), fr_ports = [], fr_owner = (\<lambda>_. None), fr_routed = (\<lambda>_. None)\<rparr>"

definition add_port :: "int \<Rightarrow> router \<Rightarrow> router \<times> int" where
  "add_port subnet r =
     (let k = fr_next r + 1 in
      (r\<lparr>fr_next := k,
         fr_heap := (fr_heap r)(k \<mapsto> \<lparr>rp_subnet = subnet, rp_closed = False, rp_mac = None, rp_gateway = None,
                                       rp_node_ip = None, rp_ips = []\<rparr>),
         fr_ports := List.insert k (fr_ports r)\<rparr>, k))"

definition port_of :: "router \<Rightarrow> int \<Rightarrow> port" where
  "port_of r k = (case fr_heap r k of Some p \<Rightarrow> p
     | None \<Rightarrow> \<lparr>rp_subnet = 0, rp_closed = True, rp_mac = None, rp_gateway = None, rp_node_ip = None, rp_ips = []\<rparr>)"

definition set_port :: "int \<Rightarrow> port \<Rightarrow> router \<Rightarrow> router" where
  "set_port k p r = r\<lparr>fr_heap := (fr_heap r)(k \<mapsto> p)\<rparr>"

definition remove_port :: "int \<Rightarrow> router \<Rightarrow> router" where
  "remove_port k r =
     (if k \<notin> set (fr_ports r) then r
      else let r = r\<lparr>fr_ports := removeAll k (fr_ports r),
                     fr_owner := (\<lambda>a. if a \<in> set (rp_ips (port_of r k)) \<and> fr_owner r a = Some k then None else fr_owner r a)\<rparr>
        in set_port k ((port_of r k)\<lparr>rp_closed := True\<rparr>) r)"

subsection \<open>Addresses\<close>

definition talosbox_subnet :: "ip \<Rightarrow> int option" where
  "talosbox_subnet a = (let b = to4 a in
     if b = [] \<or> b ! 0 \<noteq> 172 \<or> b ! 1 \<noteq> 30 then None else Some (uint (b ! 2)))"

definition belongs_to_subnet :: "ip \<Rightarrow> int \<Rightarrow> bool" where
  "belongs_to_subnet a subnet = (let b = to4 a in b \<noteq> [] \<and> b ! 0 = 172 \<and> b ! 1 = 30 \<and> uint (b ! 2) = subnet)"

definition is_node_ip :: "ip \<Rightarrow> int \<Rightarrow> bool" where
  "is_node_ip a subnet = (let b = to4 a in belongs_to_subnet b subnet \<and> b ! 3 \<ge> 2 \<and> b ! 3 \<le> 179)"

definition is_vip :: "ip \<Rightarrow> int \<Rightarrow> bool" where
  "is_vip a subnet = (let b = to4 a in belongs_to_subnet b subnet \<and> b ! 3 \<ge> 200 \<and> b ! 3 \<le> 239)"

definition is_owned_talosbox_ip :: "ip \<Rightarrow> int \<Rightarrow> bool" where
  "is_owned_talosbox_ip a subnet \<longleftrightarrow> is_node_ip a subnet \<or> is_vip a subnet"

definition router_ip_key :: "ip \<Rightarrow> ip option" where
  "router_ip_key a = (let b = to4 a in if b = [] then None else Some b)"

definition is_unicast_mac :: "mac \<Rightarrow> bool" where
  "is_unicast_mac m \<longleftrightarrow> m ! 0 AND 1 = 0"

definition server_id_matches :: "ip \<Rightarrow> int \<Rightarrow> bool" where
  "server_id_matches a subnet = (let b = to4 a in
     b \<noteq> [] \<and> b ! 0 = 172 \<and> b ! 1 = 30 \<and> uint (b ! 2) = subnet \<and> b ! 3 = 1)"

definition gateway_mac :: "int \<Rightarrow> mac" where
  "gateway_mac subnet = [0x02, 0x54, 0x30, 0x00, word_of_int subnet, 0x01]"

definition source_mac :: "port \<Rightarrow> mac" where
  "source_mac p = (case rp_gateway p of Some m \<Rightarrow> m | None \<Rightarrow> gateway_mac (rp_subnet p))"

subsection \<open>Frames\<close>

definition slice :: "nat \<Rightarrow> nat \<Rightarrow> 'a list \<Rightarrow> 'a list" where
  "slice i j xs = take (j - i) (drop i xs)"

text \<open>The internet checksum: sixteen-bit words summed in 32 bits, the carries folded in.\<close>

fun sum16 :: "int \<Rightarrow> byte list \<Rightarrow> int" where
  "sum16 s [] = s"
| "sum16 s [b] = (s + uint b * 256) mod 2 ^ 32"
| "sum16 s (b # c # r) = sum16 ((s + (uint b * 256 + uint c)) mod 2 ^ 32) r"

function fold_carry :: "int \<Rightarrow> int" where
  "fold_carry s = (if s > 0xffff then fold_carry (s div 65536 + s mod 65536) else s)"
  by pat_completeness auto
termination
proof (relation "measure nat", goal_cases)
  case (2 s)
  then have "s div 65536 + s mod 65536 < s" using mult_div_mod_eq [of 65536 s] by linarith
  moreover have "0 \<le> s div 65536 + s mod 65536" using 2 by simp
  ultimately show ?case by simp
qed simp

declare fold_carry.simps [simp del]

definition internet_checksum :: "byte list \<Rightarrow> u16" where
  "internet_checksum payload = NOT (word_of_int (fold_carry (sum16 0 payload)))"

record ethernet =
  eth_dst :: mac
  eth_src :: mac
  eth_type :: u16
  eth_payload :: "byte list"

definition parse_ethernet :: "byte list \<Rightarrow> ethernet option" where
  "parse_ethernet frame =
     (if length frame < 14 then None
      else Some \<lparr>eth_dst = slice 0 6 frame, eth_src = slice 6 12 frame, eth_type = be16 frame 12, eth_payload = drop 14 frame\<rparr>)"

record ipv4 =
  v4_header_len :: nat
  v4_ttl :: byte
  v4_protocol :: byte
  v4_fragmented :: bool
  v4_src :: ip
  v4_dst :: ip
  v4_l4 :: "byte list"

definition parse_ipv4_packet :: "byte list \<Rightarrow> ipv4 option" where
  "parse_ipv4_packet payload =
     (if length payload < 20 \<or> drop_bit 4 (payload ! 0) \<noteq> 4 then None
      else let headerLen = unat (payload ! 0 AND 0x0f) * 4 in
        if headerLen < 20 \<or> length payload < headerLen then None
        else let totalLen = unat (be16 payload 2) in
          if totalLen < headerLen \<or> totalLen > length payload then None
          else if internet_checksum (take headerLen payload) \<noteq> 0 then None
          else let flagsOffset = be16 payload 6 in
            Some \<lparr>v4_header_len = headerLen, v4_ttl = payload ! 8, v4_protocol = payload ! 9,
              v4_fragmented = (flagsOffset AND 0x2000 \<noteq> 0 \<or> flagsOffset AND 0x1fff \<noteq> 0),
              v4_src = to4 (slice 12 16 payload), v4_dst = to4 (slice 16 20 payload),
              v4_l4 = slice headerLen totalLen payload\<rparr>)"

record arp =
  arp_op :: u16
  arp_sender_mac :: mac
  arp_sender_ip :: ip
  arp_target_ip :: ip

definition parse_arp :: "byte list \<Rightarrow> arp option" where
  "parse_arp payload =
     (if length payload < 28 then None
      else if be16 payload 0 \<noteq> 1 \<or> be16 payload 2 \<noteq> 0x0800 \<or> payload ! 4 \<noteq> 6 \<or> payload ! 5 \<noteq> 4 then None
      else Some \<lparr>arp_op = be16 payload 6, arp_sender_mac = slice 8 14 payload,
        arp_sender_ip = to4 (slice 14 18 payload), arp_target_ip = to4 (slice 24 28 payload)\<rparr>)"

definition parse_udp :: "byte list \<Rightarrow> (u16 \<times> u16 \<times> byte list) option" where
  "parse_udp payload =
     (if length payload < 8 then None
      else let len = unat (be16 payload 4) in
        if len < 8 \<or> len > length payload then None
        else Some (be16 payload 0, be16 payload 2, slice 8 len payload))"

text \<open>The options of a DHCP request: requested address, server and message type so far.\<close>

function dhcp_options :: "byte list \<Rightarrow> nat \<Rightarrow> ip \<Rightarrow> ip \<Rightarrow> byte \<Rightarrow> (ip \<times> ip \<times> byte) option" where
  "dhcp_options p i requested server mtype =
     (if i \<ge> length p then Some (requested, server, mtype)
      else let opt = p ! i in
        if opt = 0 then dhcp_options p (i + 1) requested server mtype
        else if opt = 255 then Some (requested, server, mtype)
        else if i + 1 \<ge> length p then None
        else let len = unat (p ! (i + 1)) in
          if i + 2 + len > length p then None
          else let v = slice (i + 2) (i + 2 + len) p in
            dhcp_options p (i + 2 + len)
              (if opt = 50 \<and> length v = 4 then to4 v else requested)
              (if opt = 54 \<and> length v = 4 then to4 v else server)
              (if opt = 53 \<and> length v = 1 then v ! 0 else mtype))"
  by pat_completeness auto
termination
  by (relation "measure (\<lambda>(p, i, _). length p - i)") auto

declare dhcp_options.simps [simp del]

definition parse_dhcp_request :: "byte list \<Rightarrow> (ip \<times> ip \<times> mac \<times> byte) option" where
  "parse_dhcp_request payload =
     (if length payload < 240 \<or> payload ! 0 \<noteq> 1 \<or> payload ! 1 \<noteq> 1 \<or> payload ! 2 \<noteq> 6 then None
      else if be32 (slice 236 240 payload) \<noteq> 0x63825363 then None
      else case dhcp_options payload 240 [] [] 0 of
          None \<Rightarrow> None
        | Some (requested, server, mtype) \<Rightarrow>
            if requested = [] then None else Some (requested, server, slice 28 34 payload, mtype))"

subsection \<open>Learning\<close>

definition learn_node_ip :: "int \<Rightarrow> ip \<Rightarrow> router \<Rightarrow> router" where
  "learn_node_ip k a r = (let p = port_of r k; b = to4 a in
     if \<not> is_node_ip b (rp_subnet p) then r
     else case router_ip_key b of None \<Rightarrow> r
       | Some key \<Rightarrow>
           if rp_node_ip p = Some key then r
           else if fr_owner r key \<noteq> None \<and> fr_owner r key \<noteq> Some k then r
           else
             let r = (case rp_node_ip p of
                    Some old \<Rightarrow> if fr_owner r old = Some k then r\<lparr>fr_owner := (fr_owner r)(old := None)\<rparr> else r
                  | None \<Rightarrow> r);
                 ips = (case rp_node_ip p of Some old \<Rightarrow> removeAll old (rp_ips p) | None \<Rightarrow> rp_ips p)
             in (set_port k (p\<lparr>rp_node_ip := Some key, rp_ips := List.insert key ips\<rparr>) r)
                  \<lparr>fr_owner := (fr_owner r)(key \<mapsto> k)\<rparr>)"

definition learn_vip_ip :: "int \<Rightarrow> ip \<Rightarrow> router \<Rightarrow> router" where
  "learn_vip_ip k a r = (let p = port_of r k; b = to4 a in
     if \<not> is_vip b (rp_subnet p) then r
     else case router_ip_key b of None \<Rightarrow> r
       | Some key \<Rightarrow>
           let r = (case fr_owner r key of
                  Some j \<Rightarrow> if j \<noteq> k then set_port j ((port_of r j)\<lparr>rp_ips := removeAll key (rp_ips (port_of r j))\<rparr>) r else r
                | None \<Rightarrow> r);
               p = port_of r k
           in (set_port k (p\<lparr>rp_ips := List.insert key (rp_ips p)\<rparr>) r)\<lparr>fr_owner := (fr_owner r)(key \<mapsto> k)\<rparr>)"

definition accept_source_mac :: "int \<Rightarrow> mac \<Rightarrow> router \<Rightarrow> router \<times> bool" where
  "accept_source_mac k m r = (let p = port_of r k in
     if \<not> is_unicast_mac m then (r, False)
     else case rp_mac p of
         None \<Rightarrow> (set_port k (p\<lparr>rp_mac := Some m\<rparr>) r, True)
       | Some own \<Rightarrow> (r, own = m))"

definition learn_arp_sender :: "int \<Rightarrow> mac \<Rightarrow> byte list \<Rightarrow> router \<Rightarrow> router" where
  "learn_arp_sender k src payload r =
     (case parse_arp payload of None \<Rightarrow> r
      | Some a \<Rightarrow>
          if arp_sender_mac a \<noteq> src \<or> \<not> is_vip (arp_sender_ip a) (rp_subnet (port_of r k)) then r
          else if arp_op a = 1 \<or> arp_op a = 2 then learn_vip_ip k (arp_sender_ip a) r else r)"

definition learn_dhcp_requested_ip :: "int \<Rightarrow> mac \<Rightarrow> byte list \<Rightarrow> router \<Rightarrow> router" where
  "learn_dhcp_requested_ip k src payload r = (let p = port_of r k in
     case parse_udp payload of None \<Rightarrow> r
     | Some (srcPort, dstPort, body) \<Rightarrow>
         if srcPort \<noteq> 68 \<or> dstPort \<noteq> 67 then r
         else case parse_dhcp_request body of None \<Rightarrow> r
           | Some (requested, server, client, mtype) \<Rightarrow>
               if mtype \<noteq> 3 \<or> client \<noteq> src \<or> client \<noteq> case_option (replicate 6 0) id (rp_mac p) \<or> \<not> is_node_ip requested (rp_subnet p)
                  \<or> \<not> server_id_matches server (rp_subnet p)
               then r else learn_node_ip k requested r)"

text \<open>A host route of the BGP speaker: the address of a /32 prefix and the node it goes through.\<close>

definition routed_vip_pair :: "string \<Rightarrow> string \<Rightarrow> (ip \<times> ip option) option" where
  "routed_vip_pair prefix' nexthop =
     (case cut prefix' CHR ''/'' of (address, suffix', found) \<Rightarrow>
        if \<not> found \<or> suffix' \<noteq> ''32'' then None
        else let vip = to4 (parse_ip address) in
          case talosbox_subnet vip of None \<Rightarrow> None
          | Some subnet \<Rightarrow>
              if \<not> is_vip vip subnet then None
              else case router_ip_key vip of None \<Rightarrow> None
                | Some key \<Rightarrow>
                    if nexthop = [] then Some (key, None)
                    else let nd = to4 (parse_ip nexthop) in
                      if \<not> is_node_ip nd subnet then None
                      else case router_ip_key nd of None \<Rightarrow> None | Some nkey \<Rightarrow> Some (key, Some nkey))"

text \<open>An empty next hop leaves the zero address, which no port owns.\<close>

definition learn_routed_vip :: "string \<Rightarrow> string \<Rightarrow> router \<Rightarrow> router" where
  "learn_routed_vip prefix' nexthop r =
     (case routed_vip_pair prefix' nexthop of None \<Rightarrow> r
      | Some (vip, hop) \<Rightarrow> r\<lparr>fr_routed := (fr_routed r)(vip \<mapsto> case_option [0, 0, 0, 0] id hop)\<rparr>)"

definition forget_routed_vip :: "string \<Rightarrow> router \<Rightarrow> router" where
  "forget_routed_vip prefix' r =
     (case routed_vip_pair prefix' [] of None \<Rightarrow> r | Some (vip, _) \<Rightarrow> r\<lparr>fr_routed := (fr_routed r)(vip := None)\<rparr>)"

subsection \<open>Routing\<close>

definition owner :: "router \<Rightarrow> ip \<Rightarrow> int \<Rightarrow> int option" where
  "owner r a subnet =
     (let routed = (case fr_routed r a of
            Some hop \<Rightarrow> (case fr_owner r hop of
                Some k \<Rightarrow> if rp_subnet (port_of r k) = subnet then Some k else None | None \<Rightarrow> None)
          | None \<Rightarrow> None)
      in case fr_owner r a of
           Some k \<Rightarrow> if rp_subnet (port_of r k) = subnet then Some k else routed
         | None \<Rightarrow> routed)"

definition target_for :: "router \<Rightarrow> ip \<Rightarrow> int \<Rightarrow> int option" where
  "target_for r a subnet = (case owner r a subnet of
      Some k \<Rightarrow> if rp_mac (port_of r k) \<noteq> None then Some k else None | None \<Rightarrow> None)"

text \<open>What becomes of a frame: left to the caller, taken and dropped, sent to a port, or failed there.\<close>

datatype route_result = NotRouted | Expired | Sent int "byte list" | SendFailed int "byte list"

definition forward_frame :: "byte list \<Rightarrow> nat \<Rightarrow> byte \<Rightarrow> mac \<Rightarrow> mac \<Rightarrow> byte list" where
  "forward_frame frame headerLen ttl targetMAC sourceMAC =
     (let f = targetMAC @ sourceMAC @ drop 12 frame;
          f = f[22 := ttl - 1];
          f = f[24 := 0, 25 := 0]
      in put16 f 24 (internet_checksum (slice 14 (14 + headerLen) f)))"

text \<open>The routing decision for a packet once its sender has been learned.\<close>

definition forward_packet ::
    "(int \<Rightarrow> byte list \<Rightarrow> bool) \<Rightarrow> int \<Rightarrow> byte list \<Rightarrow> ethernet \<Rightarrow> ipv4 \<Rightarrow> router \<Rightarrow> router \<times> route_result" where
  "forward_packet send k frame e q r =
     (let p = port_of r k in
      case router_ip_key (v4_src q) of None \<Rightarrow> (r, NotRouted)
      | Some srcKey \<Rightarrow>
          if owner r srcKey (rp_subnet p) \<noteq> Some k then (r, NotRouted)
          else case talosbox_subnet (v4_dst q) of None \<Rightarrow> (r, NotRouted)
            | Some dstSubnet \<Rightarrow>
                if dstSubnet = rp_subnet p \<or> \<not> is_owned_talosbox_ip (v4_dst q) dstSubnet then (r, NotRouted)
                else case router_ip_key (v4_dst q) of None \<Rightarrow> (r, NotRouted)
                  | Some dstKey \<Rightarrow>
                      let r = (if is_unicast_mac (eth_dst e) then set_port k (p\<lparr>rp_gateway := Some (eth_dst e)\<rparr>) r else r)
                      in case target_for r dstKey dstSubnet of None \<Rightarrow> (r, NotRouted)
                       | Some t \<Rightarrow>
                           if v4_ttl q \<le> 1 then (r, Expired)
                           else let tp = port_of r t;
                                    f = forward_frame frame (v4_header_len q) (v4_ttl q)
                                          (case_option [] id (rp_mac tp)) (source_mac tp)
                             in (r, if rp_closed tp \<or> \<not> send t f then SendFailed t f else Sent t f))"

definition route :: "(int \<Rightarrow> byte list \<Rightarrow> bool) \<Rightarrow> int \<Rightarrow> byte list \<Rightarrow> router \<Rightarrow> router \<times> route_result" where
  "route send k frame r =
     (case parse_ethernet frame of None \<Rightarrow> (r, NotRouted)
      | Some e \<Rightarrow>
          if eth_type e \<noteq> 0x0806 \<and> eth_type e \<noteq> 0x0800 then (r, NotRouted)
          else if eth_type e = 0x0800 \<and> parse_ipv4_packet (eth_payload e) = None then (r, NotRouted)
          else if k \<notin> set (fr_ports r) then (r, NotRouted)
          else case accept_source_mac k (eth_src e) r of (r, ok) \<Rightarrow>
            if \<not> ok then (r, NotRouted)
            else if eth_type e = 0x0806 then (learn_arp_sender k (eth_src e) (eth_payload e) r, NotRouted)
            else case parse_ipv4_packet (eth_payload e) of None \<Rightarrow> (r, NotRouted)
              | Some q \<Rightarrow>
                  forward_packet send k frame e q
                    (if v4_protocol q = 17 \<and> \<not> v4_fragmented q
                     then learn_dhcp_requested_ip k (eth_src e) (v4_l4 q) r else r))"

subsection \<open>Events\<close>

datatype router_event =
    AddPort int
  | RemovePort int
  | Frame int "byte list"
  | LearnRoute string string
  | ForgetRoute string

fun router_step :: "(int \<Rightarrow> byte list \<Rightarrow> bool) \<Rightarrow> router \<Rightarrow> router_event \<Rightarrow> router" where
  "router_step send r (AddPort subnet) = fst (add_port subnet r)"
| "router_step send r (RemovePort k) = remove_port k r"
| "router_step send r (Frame k frame) = fst (route send k frame r)"
| "router_step send r (LearnRoute p n) = learn_routed_vip p n r"
| "router_step send r (ForgetRoute p) = forget_routed_vip p r"

subsection \<open>The checksum\<close>

text \<open>The sum without wrap-around, by position.\<close>

fun word_sum :: "byte list \<Rightarrow> int" where
  "word_sum [] = 0"
| "word_sum [b] = uint b * 256"
| "word_sum (b # c # r) = uint b * 256 + uint c + word_sum r"

lemma word_sum_bounds: "0 \<le> word_sum xs \<and> word_sum xs \<le> 65535 * int (length xs)"
proof (induction xs rule: word_sum.induct)
  case (2 b)
  show ?case using uint_lt2p [of b] by simp
next
  case (3 b c r)
  show ?case using 3 uint_lt2p [of b] uint_lt2p [of c] by (simp add: distrib_left)
qed simp

lemma sum16_exact:
  "0 \<le> s \<Longrightarrow> s + 65535 * int (length xs) < 2 ^ 32 \<Longrightarrow> sum16 s xs = s + word_sum xs"
proof (induction s xs rule: sum16.induct)
  case (2 s b)
  then show ?case using uint_lt2p [of b] by simp
next
  case (3 s b c r)
  have "0 \<le> s + (uint b * 256 + uint c)" "s + (uint b * 256 + uint c) + 65535 * int (length r) < 2 ^ 32"
    using 3(2,3) uint_lt2p [of b] uint_lt2p [of c] by (auto simp: distrib_left)
  with 3(1) show ?case by simp
qed simp

lemma word_sum_update:
  "i < length xs \<Longrightarrow> word_sum (xs[i := b]) = word_sum xs + (if even i then 256 else 1) * (uint b - uint (xs ! i))"
proof (induction xs arbitrary: i rule: word_sum.induct)
  case (3 x y r)
  show ?case
  proof (cases i)
    case (Suc j)
    then show ?thesis
    proof (cases j)
      case (Suc l)
      with 3 \<open>i = Suc j\<close> show ?thesis by simp
    qed simp
  qed simp
qed auto

lemma fold_carry_facts:
  "0 \<le> s \<Longrightarrow> 0 \<le> fold_carry s \<and> fold_carry s \<le> 65535 \<and> fold_carry s mod 65535 = s mod 65535 \<and> (fold_carry s = 0 \<longleftrightarrow> s = 0)"
proof (induction s rule: fold_carry.induct)
  case (1 s)
  show ?case
  proof (cases "s > 0xffff")
    case True
    let ?t = "s div 65536 + s mod 65536"
    have t: "0 < ?t" using True by (simp add: add_pos_nonneg pos_imp_zdiv_pos_iff)
    have "s = ?t + 65535 * (s div 65536)" using mult_div_mod_eq [of 65536 s] by linarith
    then have "s mod 65535 = ?t mod 65535" by (metis mod_mult_self2)
    with 1 True t show ?thesis by (simp add: fold_carry.simps [of s])
  qed (use 1 in \<open>simp add: fold_carry.simps [of s]\<close>)
qed

lemma not_word16: "0 \<le> r \<Longrightarrow> r \<le> 65535 \<Longrightarrow> uint (NOT (word_of_int r :: u16)) = 65535 - r"
proof -
  assume r: "0 \<le> r" "r \<le> 65535"
  have "NOT (word_of_int r :: u16) = word_of_int (65535 - r)" by (simp add: not_eq_complement)
  then have "uint (NOT (word_of_int r :: u16)) = uint (word_of_int (65535 - r) :: u16)" by (rule arg_cong)
  also have "\<dots> = (65535 - r) mod 65536" unfolding uint_word_of_int by simp
  finally show ?thesis using r by simp
qed

lemma uint_low_byte: "uint (ucast (w :: u16) :: byte) = uint w mod 256"
  by (simp add: unsigned_ucast_eq take_bit_eq_mod)

lemma uint_high_byte: "uint (ucast (drop_bit 8 (w :: u16)) :: byte) = uint w div 256"
proof -
  have "uint (drop_bit 8 w) = uint w div 256"
    unfolding unsigned_drop_bit_eq using uint_lt2p [of w] by (simp add: drop_bit_eq_div take_bit_eq_mod)
  moreover have "uint w div 256 < 256" using uint_lt2p [of w] by auto
  moreover have "0 \<le> uint w div 256" by (simp add: pos_imp_zdiv_nonneg_iff)
  ultimately show ?thesis by (simp only: uint_low_byte mod_pos_pos_trivial)
qed

text \<open>Writing the checksum of a header with its field cleared makes the checksum zero.\<close>

lemma checksum_restored:
  assumes "length h \<le> 60" "12 \<le> length h" "h ! 10 = 0" "h ! 11 = 0"
  shows "internet_checksum (put16 h 10 (internet_checksum h)) = 0"
proof -
  let ?c = "internet_checksum h" and ?s = "word_sum h"
  have small: "65535 * int (length h) < 2 ^ 32" using assms(1) by simp
  have s: "sum16 0 h = ?s" "0 \<le> ?s" using sum16_exact [of 0 h] small word_sum_bounds [of h] by auto
  note F = fold_carry_facts [OF s(2)]
  have c: "uint ?c = 65535 - fold_carry ?s" using F by (simp add: internet_checksum_def s not_word16)
  have "word_sum (h[10 := a, Suc 10 := b]) = ?s + 256 * uint a + uint b" for a b
    using assms by (simp add: word_sum_update)
  then have "word_sum (put16 h 10 ?c) = ?s + 256 * (uint ?c div 256) + uint ?c mod 256"
    unfolding put16_def by (simp only: uint_high_byte) (simp only: uint_low_byte)
  then have t: "word_sum (put16 h 10 ?c) = ?s + uint ?c" using mult_div_mod_eq [of 256 "uint ?c"] by linarith
  let ?t = "word_sum (put16 h 10 ?c)"
  have "sum16 0 (put16 h 10 ?c) = ?t" "0 \<le> ?t"
    using sum16_exact [of 0 "put16 h 10 ?c"] small word_sum_bounds [of "put16 h 10 ?c"] by auto
  note T = this
  have "65535 dvd ?s - fold_carry ?s" using F mod_eq_dvd_iff [of ?s 65535 "fold_carry ?s"] by simp
  then have "65535 dvd (?s - fold_carry ?s) + 65535" by (intro dvd_add) auto
  moreover have eq: "?t = (?s - fold_carry ?s) + 65535" using t c by linarith
  ultimately have "65535 dvd fold_carry ?t"
    using fold_carry_facts [OF T(2)] by (simp only: dvd_eq_mod_eq_0)
  moreover have "0 < fold_carry ?t"
  proof -
    have "?t \<noteq> 0" using eq F s(2) by (cases "?s = 0") linarith+
    then show ?thesis using fold_carry_facts [OF T(2)] by linarith
  qed
  ultimately have "fold_carry ?t = 65535" using fold_carry_facts [OF T(2)] zdvd_imp_le [of 65535 "fold_carry ?t"] by linarith
  then show ?thesis unfolding internet_checksum_def [of "put16 h 10 ?c"] T(1) by simp
qed

subsection \<open>A forwarded frame\<close>

lemma parse_ipv4_Some:
  assumes "parse_ipv4_packet p = Some q"
  shows "20 \<le> v4_header_len q" "v4_header_len q \<le> length p" "v4_header_len q \<le> 60"
    "v4_header_len q = unat (p ! 0 AND 0x0f) * 4" "v4_ttl q = p ! 8"
proof -
  from assms have q: "v4_header_len q = unat (p ! 0 AND 0x0f) * 4" "20 \<le> v4_header_len q" "v4_header_len q \<le> length p" "v4_ttl q = p ! 8"
    by (auto simp: parse_ipv4_packet_def Let_def split: if_splits)
  have "unat (p ! 0 AND 0x0f) \<le> unat (0x0f :: byte)" by (intro word_le_nat_alt [THEN iffD1] word_and_le1)
  then show "20 \<le> v4_header_len q" "v4_header_len q \<le> length p" "v4_header_len q \<le> 60"
    "v4_header_len q = unat (p ! 0 AND 0x0f) * 4" "v4_ttl q = p ! 8"
    using q by simp_all
qed

lemma take_put16: "take n (put16 m i w) = put16 (take n m) i w"
  by (simp add: put16_def take_update_swap)

text \<open>The payload as rewritten.\<close>

definition rewritten :: "nat \<Rightarrow> byte \<Rightarrow> byte list \<Rightarrow> byte list" where
  "rewritten hl ttl p = (let p = p[8 := ttl - 1, 10 := 0, 11 := 0] in put16 p 10 (internet_checksum (take hl p)))"

lemma forward_frame_payload:
  assumes "length tm = 6" "length sm = 6" "14 \<le> length frame"
  shows "forward_frame frame hl ttl tm sm = tm @ sm @ slice 12 14 frame @ rewritten hl ttl (drop 14 frame)"
proof -
  define A where "A = tm @ sm @ slice 12 14 frame"
  have A: "length A = 14" using assms by (simp add: A_def slice_def)
  have "drop 12 frame = slice 12 14 frame @ drop 14 frame"
    using append_take_drop_id [of 2 "drop 12 frame"] by (simp add: slice_def)
  then have f: "tm @ sm @ drop 12 frame = A @ drop 14 frame" by (simp add: A_def)
  have "forward_frame frame hl ttl tm sm = A @ rewritten hl ttl (drop 14 frame)"
    unfolding forward_frame_def f
    by (simp add: rewritten_def Let_def put16_def slice_def list_update_append A)
  then show ?thesis by (simp add: A_def)
qed

lemma rewritten_parses:
  assumes "parse_ipv4_packet p = Some q"
  shows "parse_ipv4_packet (rewritten (v4_header_len q) (v4_ttl q) p) = Some (q\<lparr>v4_ttl := v4_ttl q - 1\<rparr>)"
proof -
  let ?hl = "v4_header_len q" and ?z = "p[8 := v4_ttl q - 1, 10 := 0, 11 := 0]"
  note Q = parse_ipv4_Some [OF assms]
  let ?c = "internet_checksum (take ?hl ?z)"
  let ?p = "put16 ?z 10 ?c"
  have p: "rewritten ?hl (v4_ttl q) p = ?p" by (simp add: rewritten_def Let_def)
  have len: "length ?p = length p" by (simp add: put16_def)
  have nth: "?p ! i = p ! i" if "i < 8 \<or> 11 < i \<or> i = 9" for i using that by (auto simp: put16_def)
  have "take ?hl ?p = put16 (take ?hl ?z) 10 ?c" by (rule take_put16)
  moreover have "internet_checksum (put16 (take ?hl ?z) 10 ?c) = 0" using Q by (intro checksum_restored) simp_all
  ultimately have sum: "internet_checksum (take ?hl ?p) = 0" by simp
  have fields: "be16 ?p 2 = be16 p 2" "be16 ?p 6 = be16 p 6" by (simp_all add: be16_def nth)
  have sl: "slice i j ?p = slice i j p" if "12 \<le> i" for i j using that by (simp add: slice_def put16_def)
  have ttl: "?p ! 8 = v4_ttl q - 1" using Q by (simp add: put16_def)
  define hl where "hl = unat (p ! 0 AND 0x0f) * 4"
  have old: "\<not> (length p < 20 \<or> drop_bit 4 (p ! 0) \<noteq> 4)" "\<not> (hl < 20 \<or> length p < hl)"
      "\<not> (unat (be16 p 2) < hl \<or> unat (be16 p 2) > length p)"
    and q: "q = \<lparr>v4_header_len = hl, v4_ttl = p ! 8, v4_protocol = p ! 9,
        v4_fragmented = (be16 p 6 AND 0x2000 \<noteq> 0 \<or> be16 p 6 AND 0x1fff \<noteq> 0),
        v4_src = to4 (slice 12 16 p), v4_dst = to4 (slice 16 20 p), v4_l4 = slice hl (unat (be16 p 2)) p\<rparr>"
    using assms unfolding parse_ipv4_packet_def Let_def hl_def [symmetric] by (auto split: if_splits)
  have "?hl = hl" by (simp add: q)
  with sum have sum': "internet_checksum (take hl ?p) = 0" by simp
  have n0: "?p ! 0 = p ! 0" "?p ! 9 = p ! 9" by (simp_all add: nth)
  have sl': "slice hl j ?p = slice hl j p" for j using old(2) by (intro sl) simp
  show ?thesis
    unfolding p parse_ipv4_packet_def len Let_def n0 fields hl_def [symmetric] ttl sl [OF order_refl] sl'
    using old sum' sl [of 16] by (simp add: q)
qed

subsection \<open>The invariant\<close>

definition mac_ok :: "mac option \<Rightarrow> bool" where
  "mac_ok m \<longleftrightarrow> (\<forall>x. m = Some x \<longrightarrow> length x = 6)"

definition router_ok :: "router \<Rightarrow> bool" where
  "router_ok r \<longleftrightarrow>
     (\<forall>k\<in>set (fr_ports r). fr_heap r k \<noteq> None \<and> \<not> rp_closed (port_of r k))
   \<and> (\<forall>k. fr_heap r k \<noteq> None \<longrightarrow> k \<le> fr_next r)
   \<and> (\<forall>k. mac_ok (rp_mac (port_of r k)) \<and> mac_ok (rp_gateway (port_of r k)))
   \<and> (\<forall>a k. fr_owner r a = Some k \<longrightarrow> k \<in> set (fr_ports r) \<and> a \<in> set (rp_ips (port_of r k))
        \<and> length a = 4 \<and> is_owned_talosbox_ip a (rp_subnet (port_of r k)))"

lemma router_okI:
  assumes "\<And>k. k \<in> set (fr_ports r) \<Longrightarrow> fr_heap r k \<noteq> None \<and> \<not> rp_closed (port_of r k)"
    and "\<And>k. fr_heap r k \<noteq> None \<Longrightarrow> k \<le> fr_next r"
    and "\<And>k. mac_ok (rp_mac (port_of r k)) \<and> mac_ok (rp_gateway (port_of r k))"
    and "\<And>a k. fr_owner r a = Some k \<Longrightarrow> k \<in> set (fr_ports r) \<and> a \<in> set (rp_ips (port_of r k))
        \<and> length a = 4 \<and> is_owned_talosbox_ip a (rp_subnet (port_of r k))"
  shows "router_ok r"
  using assms unfolding router_ok_def by blast

lemma router_okD:
  assumes "router_ok r"
  shows "k \<in> set (fr_ports r) \<Longrightarrow> fr_heap r k \<noteq> None \<and> \<not> rp_closed (port_of r k)"
    and "fr_heap r k \<noteq> None \<Longrightarrow> k \<le> fr_next r"
    and "mac_ok (rp_mac (port_of r k))" "mac_ok (rp_gateway (port_of r k))"
    and "fr_owner r a = Some k \<Longrightarrow> k \<in> set (fr_ports r) \<and> a \<in> set (rp_ips (port_of r k))
        \<and> length a = 4 \<and> is_owned_talosbox_ip a (rp_subnet (port_of r k))"
  using assms unfolding router_ok_def by blast+

lemma port_of_set_port [simp]: "port_of (set_port k p r) j = (if j = k then p else port_of r j)"
  by (simp add: port_of_def set_port_def)

lemma set_port_simps [simp]:
  "fr_ports (set_port k p r) = fr_ports r" "fr_owner (set_port k p r) = fr_owner r"
  "fr_next (set_port k p r) = fr_next r" "fr_routed (set_port k p r) = fr_routed r"
  "fr_heap (set_port k p r) j = (if j = k then Some p else fr_heap r j)"
  by (simp_all add: set_port_def)

lemma port_of_updates [simp]:
  "port_of (r\<lparr>fr_owner := f\<rparr>) k = port_of r k" "port_of (r\<lparr>fr_routed := g\<rparr>) k = port_of r k"
  "port_of (r\<lparr>fr_ports := ks\<rparr>) k = port_of r k" "port_of (r\<lparr>fr_next := n\<rparr>) k = port_of r k"
  by (simp_all add: port_of_def)

lemma set_port_ok:
  assumes "router_ok r" "k \<in> set (fr_ports r)" "rp_closed p = rp_closed (port_of r k)" "rp_subnet p = rp_subnet (port_of r k)"
    and "set (rp_ips (port_of r k)) \<subseteq> set (rp_ips p)" "mac_ok (rp_mac p)" "mac_ok (rp_gateway p)"
  shows "router_ok (set_port k p r)"
  using router_okD [OF assms(1)] assms(2-7) by (intro router_okI) (auto split: if_splits)

lemma router_ip_key_Some: "router_ip_key a = Some key \<longleftrightarrow> key = to4 a \<and> length key = 4"
proof -
  have "length (to4 a) = 4 \<or> to4 a = []" by (auto simp: to4_def)
  then show ?thesis by (auto simp: router_ip_key_def Let_def)
qed

lemma to4_len4 [simp]: "length a = 4 \<Longrightarrow> to4 a = a"
  by (simp add: to4_def)

lemma bind_owner_ok:
  assumes ok: "router_ok r" and k: "k \<in> set (fr_ports r)" and a: "length a = 4" "is_owned_talosbox_ip a (rp_subnet (port_of r k))"
    and free: "\<And>j. fr_owner r a = Some j \<Longrightarrow> j = k"
  shows "router_ok ((set_port k ((port_of r k)\<lparr>rp_ips := List.insert a (rp_ips (port_of r k))\<rparr>) r)\<lparr>fr_owner := (fr_owner r)(a \<mapsto> k)\<rparr>)"
    (is "router_ok ?r")
proof -
  let ?p = "(port_of r k)\<lparr>rp_ips := List.insert a (rp_ips (port_of r k))\<rparr>"
  have s: "router_ok (set_port k ?p r)" using router_okD [OF ok] k by (intro set_port_ok [OF ok]) auto
  show ?thesis using router_okD [OF s] router_okD [OF ok] k a by (intro router_okI) (auto split: if_splits)
qed

lemma add_port_ok: "router_ok r \<Longrightarrow> router_ok (fst (add_port subnet r))"
proof -
  assume ok: "router_ok r"
  let ?k = "fr_next r + 1"
  have "fr_heap r ?k = None" using router_okD(2) [OF ok, of ?k] by fastforce
  then have fresh: "?k \<notin> set (fr_ports r)" "\<And>a. fr_owner r a \<noteq> Some ?k"
    using router_okD(1,5) [OF ok] by blast+
  have eq: "fst (add_port subnet r) = (set_port ?k \<lparr>rp_subnet = subnet, rp_closed = False, rp_mac = None, rp_gateway = None,
      rp_node_ip = None, rp_ips = []\<rparr> r)\<lparr>fr_next := ?k, fr_ports := List.insert ?k (fr_ports r)\<rparr>"
    by (simp add: add_port_def set_port_def Let_def)
  have le: "j \<le> ?k" if "fr_heap r j \<noteq> None" for j using router_okD(2) [OF ok that] by simp
  show ?thesis unfolding eq
    using router_okD(1,3,4,5) [OF ok] le fresh by (intro router_okI) (auto simp: mac_ok_def split: if_splits)
qed

lemma remove_port_ok: "router_ok r \<Longrightarrow> router_ok (remove_port k r)"
proof -
  assume ok: "router_ok r"
  show ?thesis
    using router_okD [OF ok] by (cases "k \<in> set (fr_ports r)")
      (auto simp: remove_port_def Let_def ok intro!: router_okI split: if_splits)
qed

lemma learn_node_ip_ok:
  assumes ok: "router_ok r" and k: "k \<in> set (fr_ports r)"
  shows "router_ok (learn_node_ip k a r)"
proof (cases "learn_node_ip k a r = r")
  case False
  let ?p = "port_of r k" and ?key = "to4 a"
  define own where "own = (case rp_node_ip ?p of
      Some old \<Rightarrow> if fr_owner r old = Some k then (fr_owner r)(old := None) else fr_owner r | None \<Rightarrow> fr_owner r)"
  define ips where "ips = (case rp_node_ip ?p of Some old \<Rightarrow> removeAll old (rp_ips ?p) | None \<Rightarrow> rp_ips ?p)"
  have g: "is_node_ip ?key (rp_subnet ?p)" by (rule ccontr) (use False in \<open>simp add: learn_node_ip_def\<close>)
  have "router_ip_key ?key \<noteq> None" by (rule ccontr) (use False in \<open>simp add: learn_node_ip_def Let_def\<close>)
  then have rk: "router_ip_key ?key = Some ?key" "length ?key = 4" by (auto simp: router_ip_key_Some)
  have n: "rp_node_ip ?p \<noteq> Some ?key" by (rule ccontr) (use False rk in \<open>simp add: learn_node_ip_def Let_def\<close>)
  have o: "\<not> (fr_owner r ?key \<noteq> None \<and> fr_owner r ?key \<noteq> Some k)"
    by (rule notI) (use False rk n in \<open>simp add: learn_node_ip_def Let_def\<close>)
  have eq: "learn_node_ip k a r = (set_port k (?p\<lparr>rp_node_ip := Some ?key, rp_ips := List.insert ?key ips\<rparr>) r)\<lparr>fr_owner := own(?key \<mapsto> k)\<rparr>"
    unfolding learn_node_ip_def Let_def own_def ips_def using n
    by (cases "rp_node_ip ?p") (simp_all add: g rk n o set_port_def del: not_None_eq)
  have key: "length ?key = 4" "is_owned_talosbox_ip ?key (rp_subnet ?p)" using rk g by (auto simp: is_owned_talosbox_ip_def)
  have own: "fr_owner r b = Some j" "j = k \<Longrightarrow> b \<in> set ips" if "own b = Some j" for b j
    using that router_okD(5) [OF ok, of b j] by (auto simp: own_def ips_def split: option.splits if_splits)
  show ?thesis unfolding eq
  proof (rule router_okI)
    fix b j
    assume "fr_owner ((set_port k (?p\<lparr>rp_node_ip := Some ?key, rp_ips := List.insert ?key ips\<rparr>) r)\<lparr>fr_owner := own(?key \<mapsto> k)\<rparr>) b = Some j"
    then have "b = ?key \<and> j = k \<or> own b = Some j" by (auto split: if_splits)
    then show "j \<in> set (fr_ports ((set_port k (?p\<lparr>rp_node_ip := Some ?key, rp_ips := List.insert ?key ips\<rparr>) r)\<lparr>fr_owner := own(?key \<mapsto> k)\<rparr>))
        \<and> b \<in> set (rp_ips (port_of ((set_port k (?p\<lparr>rp_node_ip := Some ?key, rp_ips := List.insert ?key ips\<rparr>) r)\<lparr>fr_owner := own(?key \<mapsto> k)\<rparr>) j))
        \<and> length b = 4
        \<and> is_owned_talosbox_ip b (rp_subnet (port_of ((set_port k (?p\<lparr>rp_node_ip := Some ?key, rp_ips := List.insert ?key ips\<rparr>) r)\<lparr>fr_owner := own(?key \<mapsto> k)\<rparr>) j))"
    proof (elim disjE)
      assume o: "own b = Some j"
      show ?thesis using router_okD(5) [OF ok own(1) [OF o]] own(2) [OF o] k by auto
    qed (use key k in auto)
  qed (use router_okD(1-4) [OF ok] k in \<open>auto split: if_splits\<close>)
qed (use ok in simp)

lemma learn_vip_ip_ok:
  assumes ok: "router_ok r" and k: "k \<in> set (fr_ports r)"
  shows "router_ok (learn_vip_ip k a r)"
proof (cases "is_vip (to4 a) (rp_subnet (port_of r k)) \<and> router_ip_key (to4 a) \<noteq> None")
  case True
  let ?key = "to4 a"
  have key: "length ?key = 4" "is_owned_talosbox_ip ?key (rp_subnet (port_of r k))" "router_ip_key ?key = Some ?key"
    using True by (auto simp: is_owned_talosbox_ip_def router_ip_key_Some)
  define s where "s = (case fr_owner r ?key of
      Some j \<Rightarrow> if j \<noteq> k then (set_port j ((port_of r j)\<lparr>rp_ips := removeAll ?key (rp_ips (port_of r j))\<rparr>) r)\<lparr>fr_owner := (fr_owner r)(?key := None)\<rparr> else r
    | None \<Rightarrow> r)"
  have s: "router_ok s" "fr_ports s = fr_ports r" "rp_subnet (port_of s k) = rp_subnet (port_of r k)" "\<And>j. fr_owner s ?key = Some j \<Longrightarrow> j = k"
    using ok router_okD [OF ok] by (auto simp: s_def intro!: router_okI split: option.splits if_splits)
  have "learn_vip_ip k a r = (set_port k ((port_of s k)\<lparr>rp_ips := List.insert ?key (rp_ips (port_of s k))\<rparr>) s)\<lparr>fr_owner := (fr_owner s)(?key \<mapsto> k)\<rparr>"
    using True key(3) by (auto simp: learn_vip_ip_def s_def Let_def set_port_def port_of_def split: option.splits)
  with bind_owner_ok [OF s(1) _ key(1)] s key k show ?thesis by auto
qed (use ok in \<open>auto simp: learn_vip_ip_def Let_def\<close>)

lemma length_slice [simp]: "length (slice i j xs) = min (j - i) (length xs - i)"
  by (simp add: slice_def)

lemma accept_source_mac_ok:
  assumes "router_ok r" "k \<in> set (fr_ports r)" "length m = 6"
  shows "router_ok (fst (accept_source_mac k m r))"
  using assms router_okD(3,4) [OF assms(1)]
  by (auto simp: accept_source_mac_def Let_def mac_ok_def split: option.splits intro!: set_port_ok)

lemma accept_ports [simp]: "fr_ports (fst (accept_source_mac k m r)) = fr_ports r"
  by (simp add: accept_source_mac_def Let_def split: option.split)

lemma learn_node_ports [simp]: "fr_ports (learn_node_ip k a r) = fr_ports r"
  by (simp add: learn_node_ip_def Let_def split: option.split)

lemma learn_vip_ports [simp]: "fr_ports (learn_vip_ip k a r) = fr_ports r"
  by (simp add: learn_vip_ip_def Let_def split: option.split)

lemma learn_arp_ports [simp]: "fr_ports (learn_arp_sender k m p r) = fr_ports r"
  by (simp add: learn_arp_sender_def split: option.split)

lemma learn_dhcp_ports [simp]: "fr_ports (learn_dhcp_requested_ip k m p r) = fr_ports r"
  by (simp add: learn_dhcp_requested_ip_def Let_def split: option.split)

lemma accept_routed [simp]: "fr_routed (fst (accept_source_mac k m r)) = fr_routed r"
  by (simp add: accept_source_mac_def Let_def split: option.split)

lemma learn_node_routed [simp]: "fr_routed (learn_node_ip k a r) = fr_routed r"
  by (simp add: learn_node_ip_def Let_def split: option.split)

lemma learn_vip_routed [simp]: "fr_routed (learn_vip_ip k a r) = fr_routed r"
  by (simp add: learn_vip_ip_def Let_def split: option.split)

lemma learn_arp_routed [simp]: "fr_routed (learn_arp_sender k m p r) = fr_routed r"
  by (simp add: learn_arp_sender_def split: option.split)

lemma learn_dhcp_routed [simp]: "fr_routed (learn_dhcp_requested_ip k m p r) = fr_routed r"
  by (simp add: learn_dhcp_requested_ip_def Let_def split: option.split)

lemma learn_arp_sender_ok: "router_ok r \<Longrightarrow> k \<in> set (fr_ports r) \<Longrightarrow> router_ok (learn_arp_sender k m p r)"
  by (simp add: learn_arp_sender_def learn_vip_ip_ok split: option.split)

lemma learn_dhcp_requested_ip_ok: "router_ok r \<Longrightarrow> k \<in> set (fr_ports r) \<Longrightarrow> router_ok (learn_dhcp_requested_ip k m p r)"
  by (simp add: learn_dhcp_requested_ip_def learn_node_ip_ok Let_def split: option.split)

lemma parse_ethernet_Some:
  "parse_ethernet frame = Some e \<Longrightarrow> 14 \<le> length frame \<and> length (eth_src e) = 6 \<and> length (eth_dst e) = 6
    \<and> eth_payload e = drop 14 frame \<and> eth_type e = be16 frame 12"
  by (auto simp: parse_ethernet_def split: if_splits)

definition through :: "int \<Rightarrow> ethernet \<Rightarrow> router \<Rightarrow> router" where
  "through k e r = (if is_unicast_mac (eth_dst e) then set_port k ((port_of r k)\<lparr>rp_gateway := Some (eth_dst e)\<rparr>) r else r)"

lemma through_simps [simp]:
  "fr_ports (through k e r) = fr_ports r" "fr_owner (through k e r) = fr_owner r" "fr_routed (through k e r) = fr_routed r"
  "rp_subnet (port_of (through k e r) j) = rp_subnet (port_of r j)" "rp_mac (port_of (through k e r) j) = rp_mac (port_of r j)"
  by (simp_all add: through_def)

lemma owner_through [simp]: "owner (through k e r) = owner r"
  by (intro ext) (simp add: owner_def Let_def cong: option.case_cong if_cong)

lemma through_ok: "router_ok r \<Longrightarrow> k \<in> set (fr_ports r) \<Longrightarrow> length (eth_dst e) = 6 \<Longrightarrow> router_ok (through k e r)"
  using router_okD(3) by (auto simp: through_def mac_ok_def intro!: set_port_ok)

lemma forward_packet_state:
  "fst (forward_packet send k frame e q r) = r \<or> fst (forward_packet send k frame e q r) = through k e r"
  unfolding forward_packet_def Let_def through_def [symmetric] by (simp split: option.split)

lemma route_ok:
  assumes ok: "router_ok r"
  shows "router_ok (fst (route send k frame r))"
proof (cases "parse_ethernet frame")
  case (Some e)
  note E = parse_ethernet_Some [OF Some]
  let ?a = "accept_source_mac k (eth_src e) r"
  show ?thesis
  proof (cases "k \<in> set (fr_ports r)")
    case True
    have a: "router_ok (fst ?a)" "k \<in> set (fr_ports (fst ?a))" using accept_source_mac_ok [OF ok True] E True by auto
    define s where "s q = (if v4_protocol q = 17 \<and> \<not> v4_fragmented q
        then learn_dhcp_requested_ip k (eth_src e) (v4_l4 q) (fst ?a) else fst ?a)" for q :: ipv4
    have s: "router_ok (s q)" "k \<in> set (fr_ports (s q))" for q
      using learn_dhcp_requested_ip_ok [OF a] a by (auto simp: s_def)
    have "router_ok (fst (forward_packet send k frame e q (s q)))" for q
      using forward_packet_state [of send k frame e q "s q"] s [of q] through_ok [OF s [of q]] E by auto
    with ok a learn_arp_sender_ok [OF a] show ?thesis
      unfolding route_def Some s_def by (simp add: case_prod_beta split: option.split)
  qed (simp add: route_def Some ok)
qed (simp add: route_def ok)

lemma forward_packet_sent:
  assumes "forward_packet send k frame e q r = (r', Sent t f)"
  obtains d where "r' = through k e r" "length (to4 (v4_src q)) = 4"
    "owner r (to4 (v4_src q)) (rp_subnet (port_of r k)) = Some k"
    "talosbox_subnet (v4_dst q) = Some d" "d \<noteq> rp_subnet (port_of r k)" "is_owned_talosbox_ip (v4_dst q) d"
    "target_for r' (to4 (v4_dst q)) d = Some t" "1 < v4_ttl q" "\<not> rp_closed (port_of r' t)" "send t f"
    "f = forward_frame frame (v4_header_len q) (v4_ttl q) (case_option [] id (rp_mac (port_of r' t))) (source_mac (port_of r' t))"
proof -
  note A = assms [unfolded forward_packet_def Let_def through_def [symmetric]]
  from A obtain sk where sk: "router_ip_key (v4_src q) = Some sk" by (cases "router_ip_key (v4_src q)") auto
  note A = A [unfolded sk option.case]
  from A have o: "owner r sk (rp_subnet (port_of r k)) = Some k" by (rule_tac ccontr) simp
  note A = A [unfolded o]
  from A obtain d where d: "talosbox_subnet (v4_dst q) = Some d" by (cases "talosbox_subnet (v4_dst q)") auto
  note A = A [unfolded d option.case]
  from A have n: "d \<noteq> rp_subnet (port_of r k)" "is_owned_talosbox_ip (v4_dst q) d" by (auto split: if_split_asm)
  from A n obtain dk where dk: "router_ip_key (v4_dst q) = Some dk" by (cases "router_ip_key (v4_dst q)") auto
  note A = A [unfolded dk option.case]
  from A n obtain u where u: "target_for (through k e r) dk d = Some u" by (cases "target_for (through k e r) dk d") auto
  from A n u have "r' = through k e r" "u = t" "1 < v4_ttl q" "\<not> rp_closed (port_of r' t)" "send t f"
    "f = forward_frame frame (v4_header_len q) (v4_ttl q) (case_option [] id (rp_mac (port_of r' t))) (source_mac (port_of r' t))"
    by (auto split: if_split_asm)
  with that sk o d n dk u show thesis by (auto simp: router_ip_key_Some)
qed

text \<open>Routed addresses: a host route binds a service address to a node of the same subnet.\<close>

definition routed_ok :: "router \<Rightarrow> bool" where
  "routed_ok r \<longleftrightarrow> (\<forall>v h. fr_routed r v = Some h \<longrightarrow> h = [0, 0, 0, 0] \<or> (\<exists>s. is_vip v s \<and> is_node_ip h s))"

lemma same_subnet: "belongs_to_subnet a s \<Longrightarrow> belongs_to_subnet a t \<Longrightarrow> s = t"
  by (auto simp: belongs_to_subnet_def Let_def)

lemma to4_to4 [simp]: "to4 (to4 a) = to4 a"
  by (auto simp: to4_def)

lemma owned_belongs: "is_owned_talosbox_ip a s \<Longrightarrow> belongs_to_subnet a s"
  by (auto simp: is_owned_talosbox_ip_def is_node_ip_def is_vip_def Let_def belongs_to_subnet_def)

lemma routed_vip_pair_Some:
  assumes "routed_vip_pair p n = Some (v, h)"
  shows "\<exists>s. is_vip v s \<and> (\<forall>x. h = Some x \<longrightarrow> is_node_ip x s)"
proof -
  have vip: "is_vip (to4 a) s = is_vip a s" "is_node_ip (to4 a) s = is_node_ip a s" for a s
    by (simp_all add: is_vip_def is_node_ip_def)
  show ?thesis using assms
    by (auto simp: routed_vip_pair_def Let_def router_ip_key_Some vip case_prod_beta split: option.split_asm if_split_asm)
qed

lemma learn_routed_vip_ok: "routed_ok r \<Longrightarrow> routed_ok (learn_routed_vip p n r)"
proof -
  assume ok: "routed_ok r"
  show ?thesis
  proof (cases "routed_vip_pair p n")
    case (Some vh)
    obtain v h where vh: "vh = (v, h)" by (cases vh)
    from routed_vip_pair_Some [OF Some [unfolded vh]] obtain s where "is_vip v s" "\<forall>x. h = Some x \<longrightarrow> is_node_ip x s" by blast
    with ok show ?thesis by (cases h) (auto simp: learn_routed_vip_def Some vh routed_ok_def)
  qed (simp add: learn_routed_vip_def ok)
qed

lemma forget_routed_vip_ok: "routed_ok r \<Longrightarrow> routed_ok (forget_routed_vip p r)"
  by (auto simp: forget_routed_vip_def routed_ok_def split: option.split)

lemma route_routed [simp]: "fr_routed (fst (route send k frame r)) = fr_routed r"
proof -
  have "fr_routed (fst (forward_packet send k frame e q s)) = fr_routed s" for e q s
    using forward_packet_state [of send k frame e q s] by auto
  then show ?thesis by (simp add: route_def case_prod_beta split: option.split)
qed

lemma ports_routed [simp]: "fr_routed (fst (add_port n r)) = fr_routed r" "fr_routed (remove_port k r) = fr_routed r"
  by (simp_all add: add_port_def remove_port_def Let_def)

definition router_inv :: "router \<Rightarrow> bool" where
  "router_inv r \<longleftrightarrow> router_ok r \<and> routed_ok r"

lemma router_step_inv: "router_inv r \<Longrightarrow> router_inv (router_step send r ev)"
proof (cases ev)
  case (LearnRoute p n)
  assume "router_inv r"
  moreover have "router_ok (learn_routed_vip p n r)" if "router_ok r"
    using that by (auto simp: learn_routed_vip_def router_ok_def split: option.split)
  ultimately show ?thesis using learn_routed_vip_ok LearnRoute by (simp add: router_inv_def)
next
  case (ForgetRoute p)
  assume "router_inv r"
  moreover have "router_ok (forget_routed_vip p r)" if "router_ok r"
    using that by (auto simp: forget_routed_vip_def router_ok_def split: option.split)
  ultimately show ?thesis using forget_routed_vip_ok ForgetRoute by (simp add: router_inv_def)
qed (auto simp: router_inv_def add_port_ok remove_port_ok route_ok routed_ok_def)

lemma new_router_inv: "router_inv new_frame_router"
  by (simp add: router_inv_def router_ok_def routed_ok_def new_frame_router_def mac_ok_def port_of_def)

text \<open>Whoever owns an address owns it in the subnet of its port.\<close>

lemma owner_owned:
  assumes inv: "router_inv r" and o: "owner r a s = Some k"
  shows "k \<in> set (fr_ports r) \<and> rp_subnet (port_of r k) = s \<and> is_owned_talosbox_ip a s"
proof (cases "fr_owner r a = Some k \<and> rp_subnet (port_of r k) = s")
  case True
  then show ?thesis using router_okD(5) [of r a k] inv by (auto simp: router_inv_def)
next
  case False
  with o obtain h where h: "fr_routed r a = Some h" "fr_owner r h = Some k" "rp_subnet (port_of r k) = s"
    by (auto simp: owner_def Let_def split: option.split_asm if_split_asm)
  then have hk: "k \<in> set (fr_ports r)" "is_owned_talosbox_ip h s"
    using router_okD(5) [of r h k] inv by (auto simp: router_inv_def)
  then have "h \<noteq> [0, 0, 0, 0]" using owned_belongs [of h s] by (auto simp: belongs_to_subnet_def Let_def)
  with h inv obtain s' where s': "is_vip a s'" "is_node_ip h s'" by (auto simp: router_inv_def routed_ok_def)
  then have "s' = s" using hk owned_belongs same_subnet unfolding is_owned_talosbox_ip_def by metis
  with s' h hk show ?thesis by (simp add: is_owned_talosbox_ip_def)
qed

interpretation frame_router: started_system "router_step send" router_inv new_frame_router for send
  by unfold_locales (auto intro: router_step_inv new_router_inv)

abbreviation router_after :: "(int \<Rightarrow> byte list \<Rightarrow> bool) \<Rightarrow> router_event list \<Rightarrow> router" where
  "router_after send evs \<equiv> foldl (router_step send) new_frame_router evs"

lemma reached_inv: "router_inv (router_after send evs)"
  by (rule frame_router.inv_run)

lemma route_sent:
  assumes inv: "router_inv r" and sent: "route send k frame r = (r', Sent t f)"
  obtains e q s where "parse_ethernet frame = Some e" "eth_type e = 0x0800" "parse_ipv4_packet (eth_payload e) = Some q"
    "router_inv s" "k \<in> set (fr_ports s)" "rp_mac (port_of s k) = Some (eth_src e)"
    "forward_packet send k frame e q s = (r', Sent t f)"
proof -
  from sent obtain e where e: "parse_ethernet frame = Some e" by (cases "parse_ethernet frame") (auto simp: route_def)
  let ?a = "accept_source_mac k (eth_src e) r"
  note A = sent [unfolded route_def e option.case case_prod_beta]
  from A have t: "eth_type e = 0x0800" and k: "k \<in> set (fr_ports r)" and acc: "snd ?a"
    by (auto split: if_split_asm option.split_asm)
  from A t obtain q where q: "parse_ipv4_packet (eth_payload e) = Some q" by (cases "parse_ipv4_packet (eth_payload e)") auto
  define s where "s = (if v4_protocol q = 17 \<and> \<not> v4_fragmented q
      then learn_dhcp_requested_ip k (eth_src e) (v4_l4 q) (fst ?a) else fst ?a)"
  have f: "forward_packet send k frame e q s = (r', Sent t f)" using A t k acc q by (simp add: s_def)
  have ok: "router_ok r" using inv by (simp add: router_inv_def)
  have a: "router_ok (fst ?a)" using accept_source_mac_ok [OF ok k] parse_ethernet_Some [OF e] by simp
  have "router_ok s" using learn_dhcp_requested_ip_ok [OF a] a k by (simp add: s_def)
  moreover have "fr_routed s = fr_routed r" "fr_ports s = fr_ports r" by (simp_all add: s_def)
  ultimately have s: "router_inv s" "k \<in> set (fr_ports s)" using inv k by (simp_all add: router_inv_def routed_ok_def)
  have m: "rp_mac (port_of (fst ?a) k) = Some (eth_src e)"
    using acc by (auto simp: accept_source_mac_def Let_def split: option.split_asm if_split_asm)
  have "rp_mac (port_of (learn_node_ip k b u) k) = rp_mac (port_of u k)" for b u
    by (simp add: learn_node_ip_def Let_def split: option.split)
  then have "rp_mac (port_of s k) = Some (eth_src e)"
    using m by (simp add: s_def learn_dhcp_requested_ip_def Let_def split: option.split)
  with that e t q s f show thesis by blast
qed

lemma source_mac_len: "router_ok r \<Longrightarrow> length (source_mac (port_of r k)) = 6"
  using router_okD(4) [of r k] by (auto simp: source_mac_def mac_ok_def gateway_mac_def split: option.split)

text \<open>Two ports whose guests announce a service address each, and a packet between them.\<close>

definition sample_events :: "router_event list" where
  "sample_events = [AddPort 0, AddPort 1,
     Frame 1 [255, 255, 255, 255, 255, 255, 2, 0, 0, 0, 0, 10, 8, 6, 0, 1, 8, 0, 6, 4, 0, 1, 2, 0, 0, 0, 0, 10, 172, 30, 0, 200, 0, 0, 0, 0, 0, 0, 172, 30, 0, 200],
     Frame 2 [255, 255, 255, 255, 255, 255, 2, 0, 0, 0, 0, 11, 8, 6, 0, 1, 8, 0, 6, 4, 0, 1, 2, 0, 0, 0, 0, 11, 172, 30, 1, 200, 0, 0, 0, 0, 0, 0, 172, 30, 1, 200]]"

definition sample_frame :: "byte list" where
  "sample_frame = [2, 84, 48, 0, 0, 1, 2, 0, 0, 0, 0, 10, 8, 0, 69, 0, 0, 20, 0, 0, 0, 0, 64, 1, 32, 29, 172, 30, 0, 200, 172, 30, 1, 200]"

definition sample_forwarded :: "byte list" where
  "sample_forwarded = [2, 0, 0, 0, 0, 11, 2, 84, 48, 0, 1, 1, 8, 0, 69, 0, 0, 20, 0, 0, 0, 0, 63, 1, 33, 29, 172, 30, 0, 200, 172, 30, 1, 200]"

text \<open>C4: Every address the router has bound, whatever frames, ports and host routes came before, is a
  node or service address of the subnet of an attached, open port, and the port knows it; and an
  address it resolves through a host route likewise belongs to the subnet of the port it resolves to.\<close>

theorem router_bindings_sound:
  assumes "r = foldl (router_step send) new_frame_router evs"
  shows "(\<forall>a k. fr_owner r a = Some k \<longrightarrow> k \<in> set (fr_ports r) \<and> \<not> rp_closed (port_of r k)
      \<and> a \<in> set (rp_ips (port_of r k)) \<and> is_owned_talosbox_ip a (rp_subnet (port_of r k)))
    \<and> (\<forall>a s k. owner r a s = Some k \<longrightarrow> k \<in> set (fr_ports r) \<and> rp_subnet (port_of r k) = s \<and> is_owned_talosbox_ip a s)"
proof -
  have inv: "router_inv r" using reached_inv assms by simp
  then have ok: "router_ok r" by (simp add: router_inv_def)
  show ?thesis using owner_owned [OF inv] router_okD(1,5) [OF ok] by blast
qed

theorem router_bindings_sound_witness:
  "let r = foldl (router_step (\<lambda>_ _. True)) new_frame_router sample_events in
     fr_owner r [172, 30, 1, 200] = Some 2 \<and> 2 \<in> set (fr_ports r) \<and> \<not> rp_closed (port_of r 2)
     \<and> is_owned_talosbox_ip [172, 30, 1, 200] (rp_subnet (port_of r 2))"
proof -
  have "fr_owner (foldl (router_step (\<lambda>_ _. True)) new_frame_router sample_events) [172, 30, 1, 200] = Some 2"
    by code_simp
  with router_bindings_sound [OF refl, of "\<lambda>_ _. True" sample_events] show ?thesis unfolding Let_def by blast
qed

text \<open>C3: A frame is forwarded only from the owner of its source address, over the hardware address that
  port was first seen with, to the owner of its destination address in another subnet. What is sent
  is the same packet with one hop fewer and a correct header checksum, addressed to the hardware
  address of the target.\<close>

theorem forwarded_frame_correct:
  assumes r: "r = foldl (router_step send) new_frame_router evs" and sent: "route send k frame r = (r', Sent t f)"
  shows "\<exists>e q p. parse_ethernet frame = Some e \<and> parse_ipv4_packet (eth_payload e) = Some q
    \<and> k \<in> set (fr_ports r') \<and> t \<in> set (fr_ports r') \<and> rp_subnet (port_of r' k) \<noteq> rp_subnet (port_of r' t)
    \<and> rp_mac (port_of r' k) = Some (eth_src e) \<and> is_owned_talosbox_ip (v4_src q) (rp_subnet (port_of r' k))
    \<and> owner r' (to4 (v4_src q)) (rp_subnet (port_of r' k)) = Some k
    \<and> owner r' (to4 (v4_dst q)) (rp_subnet (port_of r' t)) = Some t
    \<and> parse_ethernet f = Some \<lparr>eth_dst = the (rp_mac (port_of r' t)), eth_src = source_mac (port_of r' t),
                              eth_type = 0x0800, eth_payload = p\<rparr>
    \<and> 1 < v4_ttl q \<and> parse_ipv4_packet p = Some (q\<lparr>v4_ttl := v4_ttl q - 1\<rparr>)"
proof -
  have inv: "router_inv r" using reached_inv r by simp
  from route_sent [OF inv sent] obtain e q s where e: "parse_ethernet frame = Some e" "eth_type e = 0x0800"
    "parse_ipv4_packet (eth_payload e) = Some q" and s: "router_inv s" "k \<in> set (fr_ports s)"
    "rp_mac (port_of s k) = Some (eth_src e)" and fp: "forward_packet send k frame e q s = (r', Sent t f)" by blast
  note E = parse_ethernet_Some [OF e(1)]
  from forward_packet_sent [OF fp] obtain d where d: "r' = through k e s" "length (to4 (v4_src q)) = 4"
    "owner s (to4 (v4_src q)) (rp_subnet (port_of s k)) = Some k" "d \<noteq> rp_subnet (port_of s k)"
    "target_for r' (to4 (v4_dst q)) d = Some t" "1 < v4_ttl q"
    and f: "f = forward_frame frame (v4_header_len q) (v4_ttl q) (case_option [] id (rp_mac (port_of r' t))) (source_mac (port_of r' t))" by blast
  have inv': "router_inv r'" using through_ok [of s k e] s E d(1) by (simp add: router_inv_def routed_ok_def)
  from d(5) obtain m where t: "owner r' (to4 (v4_dst q)) d = Some t" "rp_mac (port_of r' t) = Some m"
    by (auto simp: target_for_def split: option.split_asm if_split_asm)
  note T = owner_owned [OF inv' t(1)]
  have src: "is_owned_talosbox_ip (v4_src q) (rp_subnet (port_of s k))"
    using owner_owned [OF s(1) d(3)] by (simp add: is_owned_talosbox_ip_def is_node_ip_def is_vip_def)
  have len: "length m = 6" "length (source_mac (port_of r' t)) = 6"
    using inv' t(2) router_okD(3) [of r' t] source_mac_len by (auto simp: router_inv_def mac_ok_def)
  define p where "p = rewritten (v4_header_len q) (v4_ttl q) (eth_payload e)"
  have f': "f = m @ source_mac (port_of r' t) @ slice 12 14 frame @ p"
    using f t(2) forward_frame_payload [OF len, of frame] E by (simp add: p_def)
  have l: "Suc 0 < length frame - 12" "min (length frame - 12) 2 = 2" using E by linarith+
  then have "be16 f 12 = be16 frame 12" using len E by (simp add: f' be16_def nth_append slice_def)
  then have "parse_ethernet f = Some \<lparr>eth_dst = the (rp_mac (port_of r' t)), eth_src = source_mac (port_of r' t),
      eth_type = 0x0800, eth_payload = p\<rparr>"
    using len E e(2) t(2) by (simp add: parse_ethernet_def) (simp add: f' slice_def l)
  with e s d t T src rewritten_parses [OF e(3)] show ?thesis by (auto simp: p_def)
qed

theorem forwarded_frame_correct_witness:
  "\<exists>r' e q p. route (\<lambda>_ _. True) 1 sample_frame (foldl (router_step (\<lambda>_ _. True)) new_frame_router sample_events)
       = (r', Sent 2 sample_forwarded)
    \<and> parse_ethernet sample_frame = Some e \<and> parse_ipv4_packet (eth_payload e) = Some q
    \<and> parse_ethernet sample_forwarded = Some \<lparr>eth_dst = the (rp_mac (port_of r' 2)), eth_src = source_mac (port_of r' 2),
                              eth_type = 0x0800, eth_payload = p\<rparr>
    \<and> parse_ipv4_packet p = Some (q\<lparr>v4_ttl := v4_ttl q - 1\<rparr>)"
proof -
  let ?x = "route (\<lambda>_ _. True) 1 sample_frame (foldl (router_step (\<lambda>_ _. True)) new_frame_router sample_events)"
  have "snd ?x = Sent 2 sample_forwarded" by code_simp
  then have x: "?x = (fst ?x, Sent 2 sample_forwarded)" by (metis prod.collapse)
  with forwarded_frame_correct [OF refl x] show ?thesis by blast
qed

end
