(* ===== verification/Helper_State.thy ===== *)
theory Helper_State
  imports Reservations
begin

text \<open>
  The reservations the privileged helper holds, \<^verbatim>\<open>src/internal/helper/state.go\<close>, and the push that
  replaces them, \<^verbatim>\<open>sync\<close> of \<^verbatim>\<open>src/internal/helper/server.go\<close>. Each user's daemon pushes its own
  clusters; the helper keeps one partition per user, validates all of them together, and writes them
  to one file. The file is a value: missing, unreadable, undecodable, or the stored partitions, in
  the order the decoder's map is ranged over. Any system call of a write may be the one that fails.
\<close>

subsection \<open>State\<close>

type_synonym uid = "32 word"

record synced_node =
  sn_name :: string
  sn_mac :: string
  sn_ip :: string

record synced_cluster =
  sc_name :: string
  sc_subnet_index :: int
  sc_nodes :: "synced_node list"

type_synonym partitions = "(uid, synced_cluster list) gomap"

record helper_state =
  hs_partitions :: partitions
  hs_clusters :: "cluster list"
  hs_path :: string

datatype persist_step = EncodeState | MkdirState | CreateTempState | WriteState | ChmodState | RenameState

datatype state_error =
    SyncedInvalid cluster_error
  | UidInvalid uid state_error
  | NameTaken string uid uid
  | TableInvalid cluster_error
  | Collision state_error
  | PersistFailed persist_step
  | ConvergeFailed

datatype state_file = MissingFile | UnreadableFile | UndecodableFile | StoredState "(string, synced_cluster list) gomap"

definition reservationsFileName :: string where
  "reservationsFileName = ''reservations.json''"

definition new_state :: "string \<Rightarrow> helper_state" where
  "new_state d = \<lparr>hs_partitions = [], hs_clusters = [],
     hs_path = (if d \<noteq> [] then d @ ''/'' @ reservationsFileName else [])\<rparr>"

definition helper_state_dir :: "(string \<Rightarrow> string) \<Rightarrow> string" where
  "helper_state_dir getenv =
     (let directories = getenv ''STATE_DIRECTORY'' in
      if directories \<noteq> [] then fst (cut directories CHR '':'') else getenv ''TBX_HELPER_STATE_DIR'')"

subsection \<open>Validation\<close>

definition converted :: "synced_cluster \<Rightarrow> cluster" where
  "converted item = zero_cluster\<lparr>cl_name := sc_name item, cl_subnet_index := sc_subnet_index item,
     cl_nodes := map (\<lambda>n. \<lparr>node_name = sn_name n, node_role = [], node_mac = sn_mac n, node_ip = sn_ip n\<rparr>) (sc_nodes item)\<rparr>"

definition synced_clusters :: "synced_cluster list \<Rightarrow> state_error + cluster list" where
  "synced_clusters items =
     (let clusters = map converted items in
      case new_reservation_table clusters of Inl e \<Rightarrow> Inl (SyncedInvalid e) | Inr _ \<Rightarrow> Inr clusters)"

definition partition_of :: "partitions \<Rightarrow> uid \<Rightarrow> synced_cluster list" where
  "partition_of p owner = (case map_of p owner of Some cs \<Rightarrow> cs | None \<Rightarrow> [])"

definition claim_name :: "uid \<Rightarrow> (string \<rightharpoonup> uid) \<Rightarrow> cluster \<Rightarrow> state_error + (string \<rightharpoonup> uid)" where
  "claim_name owner claimed item =
     (case claimed (cl_name item) of
        Some previous \<Rightarrow>
          if previous \<noteq> owner then Inl (NameTaken (cl_name item) previous owner)
          else Inr (claimed(cl_name item \<mapsto> owner))
      | None \<Rightarrow> Inr (claimed(cl_name item \<mapsto> owner)))"

definition union_step ::
    "partitions \<Rightarrow> cluster list \<times> (string \<rightharpoonup> uid) \<Rightarrow> uid \<Rightarrow> state_error + cluster list \<times> (string \<rightharpoonup> uid)" where
  "union_step p st owner = (case st of (joined, claimed) \<Rightarrow>
     (case synced_clusters (partition_of p owner) of
        Inl e \<Rightarrow> Inl (UidInvalid owner e)
      | Inr clusters \<Rightarrow>
          try_bind (fold_try (claim_name owner) claimed clusters) (\<lambda>claimed. Inr (joined @ clusters, claimed))))"

definition union_clusters :: "partitions \<Rightarrow> state_error + cluster list" where
  "union_clusters p =
     try_bind (fold_try (union_step p) ([], Map.empty) (sort (keys p))) (\<lambda>st.
       case new_reservation_table (fst st) of Inl e \<Rightarrow> Inl (TableInvalid e) | Inr _ \<Rightarrow> Inr (fst st))"

subsection \<open>Operations\<close>

definition parse_owner :: "string \<Rightarrow> uid option" where
  "parse_owner key = map_option word_of_nat (parse_uint 10 32 key)"

definition stored_partitions :: "(string, synced_cluster list) gomap \<Rightarrow> partitions" where
  "stored_partitions owners =
     foldl (\<lambda>p e. case parse_owner (fst e) of Some owner \<Rightarrow> AList.update owner (snd e) p | None \<Rightarrow> p) [] owners"

definition load_state :: "helper_state \<Rightarrow> state_file \<Rightarrow> helper_state" where
  "load_state s file =
     (let s = s\<lparr>hs_partitions := [], hs_clusters := []\<rparr> in
      if hs_path s = [] then s
      else case file of
          MissingFile \<Rightarrow> s
        | UnreadableFile \<Rightarrow> s
        | UndecodableFile \<Rightarrow> s
        | StoredState owners \<Rightarrow>
            (let p = stored_partitions owners in
             case union_clusters p of
               Inl _ \<Rightarrow> s
             | Inr joined \<Rightarrow> s\<lparr>hs_partitions := p, hs_clusters := joined\<rparr>))"

definition format_owner :: "uid \<Rightarrow> string" where
  "format_owner owner = format_nat 10 (unat owner)"

definition persist :: "persist_step option \<Rightarrow> string \<Rightarrow> partitions \<Rightarrow> state_file \<Rightarrow> state_file \<times> (state_error + unit)" where
  "persist fault path p file =
     (if path = [] then (file, Inr ())
      else case fault of
          Some step \<Rightarrow> (file, Inl (PersistFailed step))
        | None \<Rightarrow> (StoredState (map (\<lambda>e. (format_owner (fst e), snd e)) p), Inr ()))"

definition proposed_partitions :: "uid \<Rightarrow> synced_cluster list \<Rightarrow> partitions \<Rightarrow> partitions" where
  "proposed_partitions owner items p =
     AList.update owner items (foldl (\<lambda>q e. AList.update (fst e) (snd e) q) [] p)"

definition replace_partition ::
    "persist_step option \<Rightarrow> uid \<Rightarrow> synced_cluster list \<Rightarrow> helper_state \<times> state_file
      \<Rightarrow> (helper_state \<times> state_file) \<times> (state_error + unit)" where
  "replace_partition fault owner items st = (case st of (s, file) \<Rightarrow>
     (case synced_clusters items of
        Inl e \<Rightarrow> (st, Inl e)
      | Inr _ \<Rightarrow>
          (let proposed = proposed_partitions owner items (hs_partitions s) in
           case union_clusters proposed of
             Inl e \<Rightarrow> (st, Inl (Collision e))
           | Inr joined \<Rightarrow>
               (case persist fault (hs_path s) proposed file of
                  (file, Inl e) \<Rightarrow> ((s, file), Inl e)
                | (file, Inr _) \<Rightarrow> ((s\<lparr>hs_partitions := proposed, hs_clusters := joined\<rparr>, file), Inr ())))))"

definition owner_partition :: "helper_state \<Rightarrow> uid \<Rightarrow> synced_cluster list" where
  "owner_partition s owner = partition_of (hs_partitions s) owner"

definition state_clusters :: "helper_state \<Rightarrow> cluster list" where
  "state_clusters s = hs_clusters s"

definition subnet_indexes :: "helper_state \<Rightarrow> int list" where
  "subnet_indexes s = remdups_adj (sort (map cl_subnet_index (hs_clusters s)))"

text \<open>
  A push: when the host cannot be brought to the new set, the previous partition is put back. What
  convergence answers is a parameter, and both writes can fail.
\<close>

definition sync_push ::
    "(cluster list \<Rightarrow> bool) \<Rightarrow> persist_step option \<Rightarrow> persist_step option \<Rightarrow> uid \<Rightarrow> synced_cluster list
      \<Rightarrow> helper_state \<times> state_file \<Rightarrow> (helper_state \<times> state_file) \<times> (state_error + unit)" where
  "sync_push converges fault restore_fault owner items st =
     (let previous = owner_partition (fst st) owner in
      case replace_partition fault owner items st of
        (st, Inl e) \<Rightarrow> (st, Inl e)
      | (st, Inr _) \<Rightarrow>
          if converges (hs_clusters (fst st)) then (st, Inr ())
          else (fst (replace_partition restore_fault owner previous st), Inl ConvergeFailed))"

subsection \<open>What the state promises\<close>

text \<open>The contract, over the partitions as a map: which maps are admissible, and the clusters of one.\<close>

definition claims_disjoint :: "(uid \<Rightarrow> synced_cluster list) \<Rightarrow> uid set \<Rightarrow> bool" where
  "claims_disjoint f owners \<longleftrightarrow>
     (\<forall>u\<in>owners. \<forall>v\<in>owners. u \<noteq> v \<longrightarrow> sc_name ` set (f u) \<inter> sc_name ` set (f v) = {})"

definition table_builds :: "cluster list \<Rightarrow> bool" where
  "table_builds cs \<longleftrightarrow> (\<exists>t. new_reservation_table cs = Inr t)"

definition clusters_of :: "(uid \<Rightarrow> synced_cluster list) \<Rightarrow> uid list \<Rightarrow> cluster list" where
  "clusters_of f owners = concat (map (\<lambda>u. map converted (f u)) owners)"

definition admissible :: "(uid \<rightharpoonup> synced_cluster list) \<Rightarrow> bool" where
  "admissible m \<longleftrightarrow>
     (\<forall>u\<in>dom m. table_builds (map converted (the (m u)))) \<and> claims_disjoint (the \<circ> m) (dom m)
     \<and> table_builds (clusters_of (the \<circ> m) (sorted_list_of_set (dom m)))"

lemma claims_disjoint_insert:
  assumes "u \<notin> S"
  shows "claims_disjoint f (insert u S) \<longleftrightarrow> claims_disjoint f S
     \<and> (\<forall>v\<in>S. \<forall>c\<in>set (f v). sc_name c \<notin> sc_name ` set (f u))"
proof -
  define N where "N v = sc_name ` set (f v)" for v
  have d: "claims_disjoint f T \<longleftrightarrow> (\<forall>u\<in>T. \<forall>v\<in>T. u \<noteq> v \<longrightarrow> N u \<inter> N v = {})" for T
    by (simp add: claims_disjoint_def N_def)
  have e: "(\<forall>c\<in>set (f v). sc_name c \<notin> sc_name ` set (f u)) \<longleftrightarrow> N v \<inter> N u = {}" for v
    by (auto simp: N_def)
  show ?thesis unfolding d e using assms by (metis Int_commute insert_iff)
qed

lemma converted_name [simp]: "cl_name (converted c) = sc_name c"
  by (simp add: converted_def)

lemma synced_clusters_Inr: "synced_clusters items = Inr cs \<longleftrightarrow> table_builds (map converted items) \<and> cs = map converted items"
  by (auto simp: synced_clusters_def table_builds_def Let_def split: sum.split)

lemma claim_names_Inr:
  "fold_try (claim_name owner) claimed cs = Inr claimed' \<longleftrightarrow>
     (\<forall>c\<in>set cs. claimed (cl_name c) = None \<or> claimed (cl_name c) = Some owner)
     \<and> claimed' = (\<lambda>n. if n \<in> cl_name ` set cs then Some owner else claimed n)"
proof (induction cs arbitrary: claimed)
  case (Cons c cs)
  have step: "claim_name owner claimed c = Inr d \<longleftrightarrow>
      (claimed (cl_name c) = None \<or> claimed (cl_name c) = Some owner) \<and> d = claimed(cl_name c \<mapsto> owner)" for d
    by (auto simp: claim_name_def split: option.split)
  have f: "(\<lambda>n. if n \<in> cl_name ` set cs then Some owner else (claimed(cl_name c \<mapsto> owner)) n) =
      (\<lambda>n. if n \<in> cl_name ` set (c # cs) then Some owner else claimed n)" by auto
  have "fold_try (claim_name owner) claimed (c # cs) = Inr claimed' \<longleftrightarrow>
      (claimed (cl_name c) = None \<or> claimed (cl_name c) = Some owner)
      \<and> fold_try (claim_name owner) (claimed(cl_name c \<mapsto> owner)) cs = Inr claimed'"
    by (auto simp: try_bind_eq_Inr step)
  then show ?case unfolding Cons f by auto
qed auto

lemma union_step_Inr:
  "union_step p (joined, claimed) owner = Inr (joined', claimed') \<longleftrightarrow>
     table_builds (map converted (partition_of p owner))
     \<and> (\<forall>c\<in>set (partition_of p owner). claimed (sc_name c) = None \<or> claimed (sc_name c) = Some owner)
     \<and> joined' = joined @ map converted (partition_of p owner)
     \<and> claimed' = (\<lambda>n. if n \<in> sc_name ` set (partition_of p owner) then Some owner else claimed n)"
  by (auto simp: union_step_def synced_clusters_Inr try_bind_eq_Inr claim_names_Inr image_image
      split: sum.split) (auto simp: synced_clusters_def Let_def table_builds_def split: sum.split_asm)

lemma fold_union_Inr:
  assumes "distinct owners" "\<And>n u. claimed n = Some u \<Longrightarrow> u \<notin> set owners"
  shows "(\<exists>claimed'. fold_try (union_step p) (joined, claimed) owners = Inr (joined', claimed')) \<longleftrightarrow>
     (\<forall>u\<in>set owners. table_builds (map converted (partition_of p u)) \<and> (\<forall>c\<in>set (partition_of p u). claimed (sc_name c) = None))
     \<and> claims_disjoint (partition_of p) (set owners) \<and> joined' = joined @ clusters_of (partition_of p) owners"
  using assms
proof (induction owners arbitrary: joined claimed)
  case Nil
  then show ?case by (auto simp: claims_disjoint_def clusters_of_def)
next
  case (Cons u us)
  define claimed1 where "claimed1 = (\<lambda>n. if n \<in> sc_name ` set (partition_of p u) then Some u else claimed n)"
  have u: "claimed n = None \<or> claimed n = Some u \<longleftrightarrow> claimed n = None" for n using Cons(3) [of n u] by auto
  have fresh: "claimed1 n = Some v \<Longrightarrow> v \<notin> set us" for n v
    using Cons(2) Cons(3) [of n v] by (auto simp: claimed1_def split: if_split_asm)
  have IH: "(\<exists>claimed'. fold_try (union_step p) (joined @ map converted (partition_of p u), claimed1) us = Inr (joined', claimed')) \<longleftrightarrow>
     (\<forall>v\<in>set us. table_builds (map converted (partition_of p v)) \<and> (\<forall>c\<in>set (partition_of p v). claimed1 (sc_name c) = None))
     \<and> claims_disjoint (partition_of p) (set us) \<and> joined' = joined @ clusters_of (partition_of p) (u # us)"
    using Cons(1) [OF _ fresh] Cons(2) by (simp add: clusters_of_def)
  have "(\<exists>claimed'. fold_try (union_step p) (joined, claimed) (u # us) = Inr (joined', claimed')) \<longleftrightarrow>
      table_builds (map converted (partition_of p u)) \<and> (\<forall>c\<in>set (partition_of p u). claimed (sc_name c) = None)
      \<and> (\<exists>claimed'. fold_try (union_step p) (joined @ map converted (partition_of p u), claimed1) us = Inr (joined', claimed'))"
    by (auto simp: try_bind_eq_Inr union_step_Inr u claimed1_def)
  also have "\<dots> \<longleftrightarrow> (\<forall>v\<in>set (u # us). table_builds (map converted (partition_of p v)) \<and> (\<forall>c\<in>set (partition_of p v). claimed (sc_name c) = None))
     \<and> claims_disjoint (partition_of p) (set (u # us)) \<and> joined' = joined @ clusters_of (partition_of p) (u # us)"
  proof -
    have A: "claims_disjoint (partition_of p) (set (u # us)) \<longleftrightarrow> claims_disjoint (partition_of p) (set us)
        \<and> (\<forall>v\<in>set us. \<forall>c\<in>set (partition_of p v). sc_name c \<notin> sc_name ` set (partition_of p u))"
      using claims_disjoint_insert [of u "set us" "partition_of p"] Cons(2) by simp
    have B: "claimed1 (sc_name c) = None \<longleftrightarrow> sc_name c \<notin> sc_name ` set (partition_of p u) \<and> claimed (sc_name c) = None" for c
      by (simp add: claimed1_def)
    show ?thesis unfolding IH A B by (simp only: list.set ball_simps) blast
  qed
  finally show ?case .
qed

lemma partition_of_dom: "u \<in> dom (map_of p) \<Longrightarrow> partition_of p u = (the \<circ> map_of p) u"
  by (auto simp: partition_of_def)

lemma sorted_keys: "gomap_ok p \<Longrightarrow> sort (keys p) = sorted_list_of_set (dom (map_of p))"
  unfolding set_keys [symmetric] sorted_list_of_set_sort_remdups by (simp add: gomap_ok_def distinct_remdups_id)

lemma union_clusters_Inr:
  assumes ok: "gomap_ok p"
  shows "union_clusters p = Inr cs \<longleftrightarrow>
    admissible (map_of p) \<and> cs = clusters_of (the \<circ> map_of p) (sorted_list_of_set (dom (map_of p)))"
proof -
  let ?us = "sort (keys p)"
  have set: "set ?us = dom (map_of p)" by (simp add: set_keys)
  have d: "distinct ?us" using ok by (simp add: gomap_ok_def)
  have f: "(\<exists>c. fold_try (union_step p) ([], Map.empty) ?us = Inr (xs, c)) \<longleftrightarrow>
      (\<forall>u\<in>set ?us. table_builds (map converted (partition_of p u))) \<and> claims_disjoint (partition_of p) (set ?us)
      \<and> xs = clusters_of (partition_of p) ?us" for xs
    using fold_union_Inr [OF d, of Map.empty p "[]" xs] by simp
  have cong: "claims_disjoint (partition_of p) (set ?us) = claims_disjoint (the \<circ> map_of p) (set ?us)"
    "clusters_of (partition_of p) ?us = clusters_of (the \<circ> map_of p) ?us"
    "(\<forall>u\<in>set ?us. table_builds (map converted (partition_of p u))) = (\<forall>u\<in>set ?us. table_builds (map converted (the (map_of p u))))"
    using set partition_of_dom [of _ p] by (auto simp: claims_disjoint_def clusters_of_def intro!: arg_cong [of _ _ concat])
  have "union_clusters p = Inr cs \<longleftrightarrow> (\<exists>c. fold_try (union_step p) ([], Map.empty) ?us = Inr (cs, c)) \<and> table_builds cs"
  proof (cases "fold_try (union_step p) ([], Map.empty) ?us")
    case (Inr st)
    then show ?thesis
      by (cases "new_reservation_table (fst st)"; cases st) (auto simp: union_clusters_def table_builds_def)
  qed (simp add: union_clusters_def)
  then show ?thesis unfolding f cong unfolding set admissible_def sorted_keys [OF ok] by auto
qed

lemma update_new: "k \<notin> set (keys al) \<Longrightarrow> AList.update k v al = al @ [(k, v)]"
  by (induction al) (auto simp: keys_def)

lemma rebuild:
  "distinct (keys (al @ p)) \<Longrightarrow> foldl (\<lambda>q e. AList.update (fst e) (snd e) q) al p = al @ p"
proof (induction p arbitrary: al)
  case (Cons e p)
  then have "fst e \<notin> set (keys al)" by (auto simp: keys_def)
  with Cons show ?case by (auto simp: update_new keys_def)
qed simp

lemma proposed_eq: "gomap_ok p \<Longrightarrow> proposed_partitions owner items p = AList.update owner items p"
  using rebuild [of "[]" p] by (simp add: proposed_partitions_def gomap_ok_def)

lemma parse_format_owner [simp]: "parse_owner (format_owner u) = Some u"
proof -
  have "unat u < 2 ^ 32" using unsigned_less [of u] by simp
  then show ?thesis by (simp add: parse_owner_def format_owner_def parse_uint_def format_nat_10_value)
qed

lemma stored_roundtrip: "gomap_ok p \<Longrightarrow> stored_partitions (map (\<lambda>e. (format_owner (fst e), snd e)) p) = p"
  using rebuild [of "[]" p] by (simp add: stored_partitions_def gomap_ok_def foldl_map)

definition state_inv :: "string \<Rightarrow> helper_state \<times> state_file \<Rightarrow> bool" where
  "state_inv d st \<longleftrightarrow>
     hs_path (fst st) = hs_path (new_state d) \<and> gomap_ok (hs_partitions (fst st))
     \<and> union_clusters (hs_partitions (fst st)) = Inr (hs_clusters (fst st))
     \<and> (d \<noteq> [] \<longrightarrow> load_state (new_state d) (snd st) = fst st)"

definition accepted :: "string \<Rightarrow> persist_step option \<Rightarrow> (uid \<rightharpoonup> synced_cluster list) \<Rightarrow> bool" where
  "accepted d fault m \<longleftrightarrow> admissible m \<and> (d = [] \<or> fault = None)"

lemma path_empty [simp]: "hs_path (new_state d) = [] \<longleftrightarrow> d = []"
  by (simp add: new_state_def)

lemma replace_partition_spec:
  assumes inv: "state_inv d st"
  shows "if accepted d fault ((map_of (hs_partitions (fst st)))(owner \<mapsto> items))
    then \<exists>s file cs. replace_partition fault owner items st = ((s, file), Inr ())
      \<and> state_inv d (s, file) \<and> hs_partitions s = AList.update owner items (hs_partitions (fst st))
    else \<exists>e. replace_partition fault owner items st = (st, Inl e)"
proof -
  obtain s stored where st: "st = (s, stored)" by (cases st)
  let ?p = "AList.update owner items (hs_partitions s)"
  have I: "hs_path s = hs_path (new_state d)" "gomap_ok (hs_partitions s)" using inv by (auto simp: state_inv_def st)
  have p: "proposed_partitions owner items (hs_partitions s) = ?p" "gomap_ok ?p" using I by (auto simp: proposed_eq)
  have m: "map_of ?p = (map_of (hs_partitions s))(owner \<mapsto> items)" by auto
  show ?thesis
  proof (cases "admissible (map_of ?p)")
    case False
    then have "\<exists>e. union_clusters ?p = Inl e" using union_clusters_Inr [OF p(2)] by (cases "union_clusters ?p") auto
    then have "\<exists>e. replace_partition fault owner items st = (st, Inl e)"
      by (auto simp: replace_partition_def st p Let_def split: sum.split)
    with False show ?thesis by (simp add: accepted_def st m)
  next
    case True
    define cs where "cs = clusters_of (the \<circ> map_of ?p) (sorted_list_of_set (dom (map_of ?p)))"
    have u: "union_clusters ?p = Inr cs" using True union_clusters_Inr [OF p(2)] by (simp add: cs_def)
    have items: "synced_clusters items = Inr (map converted items)"
      using True by (auto simp: admissible_def synced_clusters_Inr m)
    let ?f = "if d = [] then stored else StoredState (map (\<lambda>e. (format_owner (fst e), snd e)) ?p)"
    let ?s = "s\<lparr>hs_partitions := ?p, hs_clusters := cs\<rparr>"
    show ?thesis
    proof (cases "d = [] \<or> fault = None")
      case ok: True
      then have "replace_partition fault owner items st = ((?s, ?f), Inr ())"
        using I(1) by (auto simp: replace_partition_def st p u items persist_def Let_def)
      moreover have "state_inv d (?s, ?f)"
        using I p u stored_roundtrip [OF p(2)] by (auto simp: state_inv_def load_state_def Let_def new_state_def)
      moreover have "accepted d fault ((map_of (hs_partitions (fst st)))(owner \<mapsto> items))"
        using True ok by (simp add: accepted_def st m)
      ultimately show ?thesis by (auto simp: st)
    next
      case bad: False
      then have "\<exists>e. replace_partition fault owner items st = (st, Inl e)"
        using I(1) by (auto simp: replace_partition_def st p u items persist_def Let_def)
      with bad show ?thesis by (auto simp: accepted_def)
    qed
  qed
qed

subsection \<open>Runs\<close>

datatype helper_event =
    Push "cluster list \<Rightarrow> bool" "persist_step option" "persist_step option" uid "synced_cluster list"
  | Restart

fun helper_step :: "string \<Rightarrow> helper_state \<times> state_file \<Rightarrow> helper_event \<Rightarrow> helper_state \<times> state_file" where
  "helper_step d st (Push converges fault restore_fault owner items) =
     fst (sync_push converges fault restore_fault owner items st)"
| "helper_step d st Restart = (load_state (new_state d) (snd st), snd st)"

text \<open>The same operations on the partitions as a map.\<close>

definition put_spec :: "string \<Rightarrow> persist_step option \<Rightarrow> uid \<Rightarrow> synced_cluster list
    \<Rightarrow> (uid \<rightharpoonup> synced_cluster list) \<Rightarrow> (uid \<rightharpoonup> synced_cluster list)" where
  "put_spec d fault owner items m = (if accepted d fault (m(owner \<mapsto> items)) then m(owner \<mapsto> items) else m)"

definition map_clusters :: "(uid \<rightharpoonup> synced_cluster list) \<Rightarrow> cluster list" where
  "map_clusters m = clusters_of (the \<circ> m) (sorted_list_of_set (dom m))"

fun push_spec :: "string \<Rightarrow> (uid \<rightharpoonup> synced_cluster list) \<Rightarrow> helper_event \<Rightarrow> (uid \<rightharpoonup> synced_cluster list)" where
  "push_spec d m (Push converges fault restore_fault owner items) =
     (if \<not> accepted d fault (m(owner \<mapsto> items)) then m
      else if converges (map_clusters (m(owner \<mapsto> items))) then m(owner \<mapsto> items)
      else put_spec d restore_fault owner (case m owner of Some cs \<Rightarrow> cs | None \<Rightarrow> []) (m(owner \<mapsto> items)))"
| "push_spec d m Restart = (if d = [] then Map.empty else m)"

abbreviation held :: "helper_state \<times> state_file \<Rightarrow> (uid \<rightharpoonup> synced_cluster list)" where
  "held st \<equiv> map_of (hs_partitions (fst st))"

lemma state_inv_clusters: "state_inv d st \<Longrightarrow> hs_clusters (fst st) = map_clusters (held st) \<and> admissible (held st)"
  using union_clusters_Inr [of "hs_partitions (fst st)"] by (auto simp: state_inv_def map_clusters_def)

lemma load_inv: "state_inv d (load_state (new_state d) stored, stored)"
proof -
  have e: "union_clusters [] = Inr []"
    by (simp add: union_clusters_def new_reservation_table_def keys_def)
  have ok: "gomap_ok (stored_partitions owners)" for owners
  proof -
    have "gomap_ok p \<Longrightarrow> gomap_ok (foldl (\<lambda>p e. case parse_owner (fst e) of Some owner \<Rightarrow> AList.update owner (snd e) p | None \<Rightarrow> p) p owners)" for p
      by (induction owners arbitrary: p) (auto split: option.split)
    then show ?thesis by (simp add: stored_partitions_def)
  qed
  show ?thesis
    by (auto simp: state_inv_def load_state_def Let_def new_state_def e ok split: state_file.split sum.split)
qed

lemma replace_held:
  assumes "state_inv d st"
  shows "state_inv d (fst (replace_partition fault owner items st))"
    and "held (fst (replace_partition fault owner items st)) = put_spec d fault owner items (held st)"
proof -
  have "state_inv d (fst (replace_partition fault owner items st))
    \<and> held (fst (replace_partition fault owner items st)) = put_spec d fault owner items (held st)"
    using replace_partition_spec [OF assms, of fault owner items] assms
    by (cases "accepted d fault ((held st)(owner \<mapsto> items))") (auto simp: put_spec_def)
  then show "state_inv d (fst (replace_partition fault owner items st))"
    "held (fst (replace_partition fault owner items st)) = put_spec d fault owner items (held st)" by simp_all
qed

lemma push_held:
  assumes inv: "state_inv d st"
  shows "state_inv d (helper_step d st (Push c f g owner items))
    \<and> held (helper_step d st (Push c f g owner items)) = push_spec d (held st) (Push c f g owner items)"
proof (cases "accepted d f ((held st)(owner \<mapsto> items))")
  case False
  with replace_partition_spec [OF inv, of f owner items] obtain e where "replace_partition f owner items st = (st, Inl e)" by auto
  then show ?thesis using inv False by (simp add: sync_push_def)
next
  case True
  with replace_partition_spec [OF inv, of f owner items] obtain s stored where
    r: "replace_partition f owner items st = ((s, stored), Inr ())" and i: "state_inv d (s, stored)"
    and h0: "hs_partitions s = AList.update owner items (hs_partitions (fst st))" by auto
  have h: "held (s, stored) = (held st)(owner \<mapsto> items)" by (rule ext) (simp add: h0)
  have c: "hs_clusters s = map_clusters ((held st)(owner \<mapsto> items))" using state_inv_clusters [OF i] h by simp
  show ?thesis
  proof (cases "c (hs_clusters s)")
    case ok: True
    then show ?thesis using True r i h c by (simp add: sync_push_def)
  next
    case no: False
    let ?p = "owner_partition (fst st) owner"
    have p: "?p = (case held st owner of Some cs \<Rightarrow> cs | None \<Rightarrow> [])" by (simp add: owner_partition_def partition_of_def)
    have "helper_step d st (Push c f g owner items) = fst (replace_partition g owner ?p (s, stored))"
      using r no by (simp add: sync_push_def Let_def)
    then show ?thesis using replace_held [OF i, of g owner ?p] True no c h p by simp
  qed
qed

interpretation helper_state: refined_system "helper_step d" "state_inv d" "(load_state (new_state d) stored, stored)"
    held "push_spec d" for d stored
proof (unfold_locales, goal_cases)
  case (1 s e)
  then show ?case using push_held [of d s] load_inv [of d "snd s"] by (cases e) auto
next
  case 2
  show ?case by (rule load_inv)
next
  case (3 s e)
  show ?case
  proof (cases e)
    case Restart
    have "hs_partitions (load_state (new_state []) f) = []" for f by (simp add: load_state_def new_state_def)
    with 3 Restart show ?thesis by (cases "d = []") (simp_all add: state_inv_def)
  qed (use push_held [OF 3] in simp)
qed

subsection \<open>Properties\<close>

text \<open>C7: The helper's reservations behave as one map from users to clusters, through any pushes,
  failed writes, failed convergences and restarts: a push that is accepted changes the pushing user's
  entry only, a push that is refused changes nothing. At every moment all users' clusters together
  form a valid reservation table and no two users share a cluster name; and with a state directory a
  restarted helper has exactly the state it had.\<close>

theorem helper_state_refines:
  fixes d :: string and stored :: state_file and evs :: "helper_event list"
  defines "init \<equiv> (load_state (new_state d) stored, stored)"
  defines "st \<equiv> foldl (helper_step d) init evs"
  shows "map_of (hs_partitions (fst st)) = foldl (push_spec d) (map_of (hs_partitions (fst init))) evs
    \<and> (\<exists>t. new_reservation_table (hs_clusters (fst st)) = Inr t)
    \<and> claims_disjoint (the \<circ> map_of (hs_partitions (fst st))) (dom (map_of (hs_partitions (fst st))))
    \<and> (d \<noteq> [] \<longrightarrow> load_state (new_state d) (snd st) = fst st)"
proof -
  have inv: "state_inv d st" unfolding st_def init_def by (rule helper_state.inv_run)
  have "held st = foldl (push_spec d) (held init) evs" unfolding st_def init_def by (rule helper_state.view_run)
  moreover have "table_builds (hs_clusters (fst st))" "claims_disjoint (the \<circ> held st) (dom (held st))"
    using state_inv_clusters [OF inv] by (simp_all add: admissible_def map_clusters_def)
  ultimately show ?thesis using inv by (simp add: state_inv_def table_builds_def)
qed

text \<open>One user's cluster, pushed once.\<close>

definition sample_synced :: synced_cluster where
  "sample_synced = \<lparr>sc_name = ''demo'', sc_subnet_index = 3,
     sc_nodes = []\<rparr>"

definition sample_pushes :: "helper_event list" where
  "sample_pushes = [Push (\<lambda>_. True) None None 5 [sample_synced]]"

theorem helper_state_refines_witness:
  "let st = foldl (helper_step ''/var/lib/tbx'') (load_state (new_state ''/var/lib/tbx'') MissingFile, MissingFile) sample_pushes
   in hs_partitions (fst st) = [(5, [sample_synced])] \<and> load_state (new_state ''/var/lib/tbx'') (snd st) = fst st"
proof -
  let ?st = "foldl (helper_step ''/var/lib/tbx'') (load_state (new_state ''/var/lib/tbx'') MissingFile, MissingFile) sample_pushes"
  have "hs_partitions (fst ?st) = [(5, [sample_synced])]" by code_simp
  with helper_state_refines [of "''/var/lib/tbx''" MissingFile sample_pushes] show ?thesis unfolding Let_def by blast
qed

end
