(* ===== verification/Linux_Network.thy ===== *)
theory Linux_Network
  imports Subnets
begin

text \<open>
  Host networking of the Linux helper: \<^verbatim>\<open>src/internal/helper/linux_network_model.go\<close> decides which
  bridges, taps and subnets are the helper's, whether a subnet may be attached, and in which order
  the host is brought to the wanted set; \<^verbatim>\<open>src/internal/helper/linux_nftables_model.go\<close> is the plan
  of firewall rules. The kernel is a record of operations over a state of the host: reading it does
  not change it, every other operation may fail and leaves some state behind.
\<close>

subsection \<open>Links and their names\<close>

record link_state =
  ln_name :: string
  ln_alias :: string
  ln_addrs :: "net_addr list"

record 'e subnet_inspector =
  li_interfaces :: "'e + link_state list"
  li_route :: "ip \<Rightarrow> 'e + host_route"

definition linuxBridgePrefix :: string where "linuxBridgePrefix = ''br-tbx''"
definition linuxLinkAliasPrefix :: string where "linuxLinkAliasPrefix = ''talos-box:''"

definition bridge_name_for_subnet :: "int \<Rightarrow> string" where
  "bridge_name_for_subnet index = linux_bridge_name index"

definition bridge_alias_for_subnet :: "int \<Rightarrow> string" where
  "bridge_alias_for_subnet index = linux_bridge_alias index"

definition tap_alias_for_subnet :: "int \<Rightarrow> string" where
  "tap_alias_for_subnet index = linuxLinkAliasPrefix @ ''tap:'' @ itoa index"

definition tap_name_for_node :: "int \<Rightarrow> string \<Rightarrow> string \<Rightarrow> string" where
  "tap_name_for_node index clusterName node =
     ''tbx'' @ itoa index @ ''-''
       @ pad_zero 8 (format_nat 16 (unat (fnv32a (map of_char clusterName @ [0] @ map of_char node))))"

definition subnet_index_from_tap_name :: "string \<Rightarrow> int option" where
  "subnet_index_from_tap_name name =
     (if \<not> has_prefix name ''tbx'' then None
      else case cut (trim_prefix name ''tbx'') CHR ''-'' of (indexText, hash, ok) \<Rightarrow>
        if \<not> ok \<or> length hash \<noteq> 8 then None
        else case atoi indexText of None \<Rightarrow> None
          | Some index \<Rightarrow>
              if index < 0 \<or> index > MaxSubnetIndex then None
              else if parse_uint 16 32 hash = None then None else Some index)"

definition subnet_index_from_bridge_name :: "string \<Rightarrow> int option" where
  "subnet_index_from_bridge_name name =
     (if \<not> has_prefix name linuxBridgePrefix then None
      else case atoi (trim_prefix name linuxBridgePrefix) of None \<Rightarrow> None
        | Some index \<Rightarrow> if index < 0 \<or> index > MaxSubnetIndex then None else Some index)"

definition owned_bridge :: "link_state \<Rightarrow> int option" where
  "owned_bridge link = (case subnet_index_from_bridge_name (ln_name link) of
      Some index \<Rightarrow> if ln_alias link = bridge_alias_for_subnet index then Some index else None | None \<Rightarrow> None)"

definition owned_tap :: "link_state \<Rightarrow> int option" where
  "owned_tap link = (case subnet_index_from_tap_name (ln_name link) of
      Some index \<Rightarrow> if ln_alias link = tap_alias_for_subnet index then Some index else None | None \<Rightarrow> None)"

definition managed_index :: "link_state \<Rightarrow> int option" where
  "managed_index link = (case owned_bridge link of Some index \<Rightarrow> Some index | None \<Rightarrow> owned_tap link)"

definition managed_subnet_indexes :: "link_state list \<Rightarrow> int list" where
  "managed_subnet_indexes links = remdups_adj (sort (List.map_filter managed_index links))"

definition normalize_subnet_indexes :: "int list \<Rightarrow> int list" where
  "normalize_subnet_indexes indexes = remdups_adj (sort (filter (\<lambda>i. 0 \<le> i \<and> i \<le> MaxSubnetIndex) indexes))"

subsection \<open>Preflight\<close>

definition vmnet_name :: "int \<Rightarrow> string" where
  "vmnet_name index = ''bridge'' @ itoa (100 + index)"

definition owned_bridges :: "link_state list \<Rightarrow> string \<Rightarrow> int option" where
  "owned_bridges links = foldl (\<lambda>m link. case owned_bridge link of Some i \<Rightarrow> m(ln_name link \<mapsto> i) | None \<Rightarrow> m) Map.empty links"

definition host_interface_of :: "link_state \<Rightarrow> host_interface" where
  "host_interface_of link = \<lparr>if_name = (case owned_bridge link of Some i \<Rightarrow> vmnet_name i | None \<Rightarrow> ln_name link), if_addrs = ln_addrs link\<rparr>"

definition renamed_route :: "link_state list \<Rightarrow> host_route \<Rightarrow> host_route" where
  "renamed_route links route =
     (case owned_bridges links (route_interface route) of
        Some index \<Rightarrow> route\<lparr>route_interface := vmnet_name index\<rparr>
      | None \<Rightarrow>
          if subnet_index_from_bridge_name (route_interface route) \<noteq> None
          then route\<lparr>route_interface := ''foreign:'' @ route_interface route\<rparr> else route)"

definition linux_cluster_sources :: "'e subnet_inspector \<Rightarrow> 'e subnet_sources" where
  "linux_cluster_sources insp =
     \<lparr>src_interfaces = Some (case li_interfaces insp of Inl e \<Rightarrow> Inl e | Inr links \<Rightarrow> Inr (map host_interface_of links)),
      src_route = Some (\<lambda>destination. case li_route insp destination of Inl e \<Rightarrow> Inl e
        | Inr route \<Rightarrow> Inr (renamed_route (case li_interfaces insp of Inr links \<Rightarrow> links | Inl _ \<Rightarrow> []) route))\<rparr>"

datatype 'e preflight_conflict = SubnetCheckFailed "'e subnet_error" | NotSafeToAttach int warning

definition lowest_safe_linux_subnet :: "'e subnet_inspector \<Rightarrow> int list \<Rightarrow> 'e option + int" where
  "lowest_safe_linux_subnet insp reserved =
     (case li_interfaces insp of Inl e \<Rightarrow> Inl (Some e)
      | Inr links \<Rightarrow>
          let managed = set (normalize_subnet_indexes reserved) \<union> set (managed_subnet_indexes links);
              sources = linux_cluster_sources insp
          in case find (\<lambda>i. i \<notin> managed \<and> check_subnet_index i sources = Inr None) [0..MaxSubnetIndex] of
               Some index \<Rightarrow> Inr index
             | None \<Rightarrow> Inl None)"

definition preflight_linux_subnet ::
    "int \<Rightarrow> 'e subnet_inspector \<Rightarrow> int list \<Rightarrow> ('e preflight_conflict \<times> int option) option" where
  "preflight_linux_subnet index insp reserved =
     (let sources = linux_cluster_sources insp;
          hint = (case lowest_safe_linux_subnet insp reserved of
              Inr h \<Rightarrow> if h = index then None else Some h | Inl _ \<Rightarrow> None)
      in case check_subnet_index index sources of
           Inr None \<Rightarrow> None
         | Inr (Some w) \<Rightarrow> Some (NotSafeToAttach index w, hint)
         | Inl e \<Rightarrow> Some (SubnetCheckFailed e, hint))"

subsection \<open>Convergence\<close>

type_synonym ('w, 'e) host_op = "'w \<Rightarrow> 'w \<times> 'e option"

record ('w, 'e) net_ops =
  no_list_links :: "'w \<Rightarrow> 'e + link_state list"
  no_route_to :: "'w \<Rightarrow> ip \<Rightarrow> 'e + host_route"
  no_ipv4_forwarding :: "('w, 'e) host_op"
  no_interface_forwarding :: "string \<Rightarrow> ('w, 'e) host_op"
  no_managed_taps :: "int list \<Rightarrow> ('w, 'e) host_op"
  no_bridge :: "string \<Rightarrow> ('w, 'e) host_op"
  no_delete_bridge :: "string \<Rightarrow> 'w \<Rightarrow> 'w \<times> ('e + bool)"
  no_bridge_stp :: "string \<Rightarrow> bool \<Rightarrow> ('w, 'e) host_op"
  no_bridge_address :: "string \<Rightarrow> string \<Rightarrow> ('w, 'e) host_op"
  no_link_up :: "string \<Rightarrow> ('w, 'e) host_op"
  no_create_tap :: "string \<Rightarrow> string \<Rightarrow> 'w \<Rightarrow> 'w \<times> ('e + int)"

text \<open>Operations one after the other, up to the first that fails.\<close>

fun seq_ops :: "('w, 'e) host_op list \<Rightarrow> ('w, 'e) host_op" where
  "seq_ops [] w = (w, None)"
| "seq_ops (f # fs) w = (case f w of (w, Some e) \<Rightarrow> (w, Some e) | (w, None) \<Rightarrow> seq_ops fs w)"

definition ensure_linux_bridge :: "('w, 'e) net_ops \<Rightarrow> int \<Rightarrow> ('w, 'e) host_op" where
  "ensure_linux_bridge ops index =
     (let name = bridge_name_for_subnet index in
      seq_ops [no_bridge ops name, no_bridge_stp ops name False, no_bridge_address ops name (gateway index @ ''/24''),
               no_link_up ops name, no_interface_forwarding ops name])"

definition converge_linux_subnets ::
    "('w, 'e) net_ops \<Rightarrow> (int list \<Rightarrow> ('w, 'e) host_op) \<Rightarrow> int list \<Rightarrow> ('w, 'e) host_op" where
  "converge_linux_subnets ops nft desired =
     seq_ops (no_ipv4_forwarding ops # map (ensure_linux_bridge ops) desired @ [no_managed_taps ops desired, nft desired])"

datatype 'e converge_error =
    HostError 'e
  | SubnetsSkipped "int list" "('e preflight_conflict \<times> int option) list"

definition inspector_of :: "('w, 'e) net_ops \<Rightarrow> 'w \<Rightarrow> 'e subnet_inspector" where
  "inspector_of ops w = \<lparr>li_interfaces = no_list_links ops w, li_route = no_route_to ops w\<rparr>"

text \<open>The loop over the reserved subnets: wanted, skipped, and why.\<close>

fun select_subnets ::
    "int list \<Rightarrow> (int \<Rightarrow> 'c option) \<Rightarrow> int list \<times> int list \<times> 'c list \<Rightarrow> int list \<Rightarrow> int list \<times> int list \<times> 'c list" where
  "select_subnets owned preflight acc [] = acc"
| "select_subnets owned preflight (desired, skipped, errs) (index # rest) =
     (if index \<in> set owned then select_subnets owned preflight (desired @ [index], skipped, errs) rest
      else case preflight index of
          Some err \<Rightarrow> select_subnets owned preflight (desired, skipped @ [index], errs @ [err]) rest
        | None \<Rightarrow> select_subnets owned preflight (desired @ [index], skipped, errs) rest)"

definition converge_linux_managed_state ::
    "('w, 'e) net_ops \<Rightarrow> (int list \<Rightarrow> ('w, 'e) host_op) \<Rightarrow> int list \<Rightarrow> 'w \<Rightarrow> 'w \<times> 'e converge_error option" where
  "converge_linux_managed_state ops nft configured w =
     (let reserved = normalize_subnet_indexes configured;
          insp = inspector_of ops w
      in case no_list_links ops w of
           Inl e \<Rightarrow> (w, Some (HostError e))
         | Inr links \<Rightarrow>
             (case select_subnets (managed_subnet_indexes links) (\<lambda>index. preflight_linux_subnet index insp reserved)
                     ([], [], []) reserved of
                (desired, skipped, errs) \<Rightarrow>
                  (case converge_linux_subnets ops nft desired w of
                     (w, Some e) \<Rightarrow> (w, Some (HostError e))
                   | (w, None) \<Rightarrow> (w, if skipped \<noteq> [] then Some (SubnetsSkipped skipped errs) else None))))"

datatype 'e attach_error = AttachPreflight "'e preflight_conflict" "int option" | AttachHost 'e

definition start_linux_attachment ::
    "('w, 'e) net_ops \<Rightarrow> (int list \<Rightarrow> ('w, 'e) host_op) \<Rightarrow> int list \<Rightarrow> int \<Rightarrow> string \<Rightarrow> string \<Rightarrow> 'w
      \<Rightarrow> 'w \<times> ('e attach_error + int)" where
  "start_linux_attachment ops nft configured index clusterName node w =
     (case preflight_linux_subnet index (inspector_of ops w) configured of
        Some (c, hint) \<Rightarrow> (w, Inl (AttachPreflight c hint))
      | None \<Rightarrow>
          (let desired = normalize_subnet_indexes configured;
               desired = (if index \<in> set desired then desired else sort (desired @ [index]))
           in case seq_ops [no_ipv4_forwarding ops, ensure_linux_bridge ops index, nft desired] w of
                (w, Some e) \<Rightarrow> (w, Inl (AttachHost e))
              | (w, None) \<Rightarrow>
                  (case no_create_tap ops (tap_name_for_node index clusterName node) (bridge_name_for_subnet index) w of
                     (w, Inl e) \<Rightarrow> (w, Inl (AttachHost e))
                   | (w, Inr file) \<Rightarrow> (w, Inr file))))"

datatype 'e teardown_error = TeardownRange int | TeardownHost 'e

definition teardown_linux_bridge :: "('w, 'e) net_ops \<Rightarrow> int \<Rightarrow> 'w \<Rightarrow> 'w \<times> ('e teardown_error + bool)" where
  "teardown_linux_bridge ops index w =
     (if index < 0 \<or> index > MaxSubnetIndex then (w, Inl (TeardownRange index))
      else case no_delete_bridge ops (bridge_name_for_subnet index) w of
          (w, Inl e) \<Rightarrow> (w, Inl (TeardownHost e)) | (w, Inr removed) \<Rightarrow> (w, Inr removed))"

subsection \<open>Firewall rules\<close>

datatype nft_rule_kind = Masquerade | ForwardIn | ForwardOut

record nft_rule =
  nr_kind :: nft_rule_kind
  nr_chain :: string
  nr_bridge :: string
  nr_source :: string

record nft_plan =
  np_family :: string
  np_table :: string
  np_indexes :: "int list"
  np_rules :: "nft_rule list"

definition nft_rules_for :: "int \<Rightarrow> nft_rule list" where
  "nft_rules_for index =
     (let bridge = bridge_name_for_subnet index in
      [\<lparr>nr_kind = Masquerade, nr_chain = ''postrouting'', nr_bridge = bridge, nr_source = subnet_cidr index\<rparr>,
       \<lparr>nr_kind = ForwardIn, nr_chain = ''forward'', nr_bridge = bridge, nr_source = []\<rparr>,
       \<lparr>nr_kind = ForwardOut, nr_chain = ''forward'', nr_bridge = bridge, nr_source = []\<rparr>])"

definition build_linux_nft_plan :: "int list \<Rightarrow> nft_plan" where
  "build_linux_nft_plan indexes =
     (let normalized = remdups_adj (sort (filter (\<lambda>i. 0 \<le> i \<and> i \<le> MaxSubnetIndex) indexes)) in
      \<lparr>np_family = ''inet'', np_table = ''tbx'', np_indexes = normalized, np_rules = concat (map nft_rules_for normalized)\<rparr>)"

subsection \<open>Names\<close>

lemma format_nat_length: "2 \<le> b \<Longrightarrow> n < b ^ k \<Longrightarrow> 0 < k \<Longrightarrow> length (format_nat b n) \<le> k"
proof (induction b n arbitrary: k rule: format_nat.induct)
  case (1 b n)
  show ?case
  proof (cases "n < b")
    case True
    with 1 show ?thesis by (simp add: format_nat.simps [of b n])
  next
    case False
    with 1(3,4) have "k \<noteq> 1" by auto
    then obtain j where k: "k = Suc j" "0 < j" using 1(4) by (cases k) auto
    have "n div b < b ^ j" using 1(2,3) by (simp add: k less_mult_imp_div_less mult.commute)
    with 1 False k show ?thesis by (simp add: format_nat.simps [of b n])
  qed
qed

lemma digits_value_zeros: "0 < b \<Longrightarrow> digits_value b 0 (replicate n (CHR ''0'') @ s) = digits_value b 0 s"
  by (induction n) (simp_all add: digit_val_def)

lemma hash_text:
  fixes h :: u32
  shows "length (pad_zero 8 (format_nat 16 (unat h))) = 8 \<and> parse_uint 16 32 (pad_zero 8 (format_nat 16 (unat h))) = Some (unat h)"
proof -
  have n: "unat h < 16 ^ 8" "unat h < 2 ^ 32" using unsigned_less [of h] by simp_all
  have "length (format_nat 16 (unat h)) \<le> 8" by (rule format_nat_length) (use n in simp_all)
  then show ?thesis using n
    by (simp add: pad_zero_def parse_uint_def digits_value_zeros digits_value_format_nat)
qed

lemma tap_name_index:
  assumes "0 \<le> i" "i \<le> MaxSubnetIndex"
  shows "subnet_index_from_tap_name (tap_name_for_node i c n) = Some i"
proof -
  let ?h = "pad_zero 8 (format_nat 16 (unat (fnv32a (map of_char c @ [0] @ map of_char n))))"
  have "has_prefix (tap_name_for_node i c n) ''tbx''" by (simp only: tap_name_for_node_def has_prefix_append)
  moreover have "trim_prefix (tap_name_for_node i c n) ''tbx'' = itoa i @ ''-'' @ ?h"
    by (simp only: tap_name_for_node_def trim_prefix_append)
  ultimately have p: "has_prefix (tap_name_for_node i c n) ''tbx''"
    "trim_prefix (tap_name_for_node i c n) ''tbx'' = itoa i @ CHR ''-'' # ?h" by simp_all
  have "CHR ''-'' \<notin> set (itoa i)" using itoa_nat_digits [OF assms(1), of "CHR ''-''"] by auto
  then have "cut (itoa i @ CHR ''-'' # ?h) (CHR ''-'') = (itoa i, ?h, True)" by (rule cut_append)
  moreover have "in_i64 i" using assms by (simp add: in_i64_def host_consts)
  ultimately show ?thesis using assms hash_text by (simp add: subnet_index_from_tap_name_def p atoi_itoa)
qed

lemma bridge_name_index:
  assumes "0 \<le> i" "i \<le> MaxSubnetIndex"
  shows "subnet_index_from_bridge_name (bridge_name_for_subnet i) = Some i"
proof -
  have "in_i64 i" using assms by (simp add: in_i64_def host_consts)
  then show ?thesis using assms
    by (simp add: subnet_index_from_bridge_name_def bridge_name_for_subnet_def linux_bridge_name_def linuxBridgePrefix_def
        has_prefix_append [of "''br-tbx''", simplified] trim_prefix_append [of "''br-tbx''", simplified] atoi_itoa)
qed

lemma itoa_small_length: "0 \<le> i \<Longrightarrow> i \<le> MaxSubnetIndex \<Longrightarrow> length (itoa i) \<le> 3"
  using format_nat_length [of 10 "nat i" 3] by (simp add: itoa_def host_consts)

text \<open>The name of a node's tap device tells its subnet, whatever the cluster and node are called, is
  never taken for a bridge, and fits the kernel's limit of fifteen bytes for interface names; the
  name of a bridge tells its subnet and is never taken for a tap.\<close>

lemma link_names_identify_subnet:
  assumes "0 \<le> i" "i \<le> MaxSubnetIndex"
  shows "subnet_index_from_tap_name (tap_name_for_node i c n) = Some i
    \<and> subnet_index_from_bridge_name (tap_name_for_node i c n) = None
    \<and> length (tap_name_for_node i c n) \<le> 15
    \<and> subnet_index_from_bridge_name (bridge_name_for_subnet i) = Some i
    \<and> subnet_index_from_tap_name (bridge_name_for_subnet i) = None
    \<and> length (bridge_name_for_subnet i) \<le> 15"
proof -
  let ?h = "fnv32a (map of_char c @ [0] @ map of_char n)"
  have "length (tap_name_for_node i c n) = 3 + length (itoa i) + 1 + 8"
    using hash_text [of ?h] by (simp add: tap_name_for_node_def)
  moreover have "length (bridge_name_for_subnet i) = 6 + length (itoa i)"
    by (simp add: bridge_name_for_subnet_def linux_bridge_name_def)
  moreover have "\<not> has_prefix (tap_name_for_node i c n) linuxBridgePrefix" "\<not> has_prefix (bridge_name_for_subnet i) ''tbx''"
    by (auto simp: has_prefix_iff tap_name_for_node_def linuxBridgePrefix_def bridge_name_for_subnet_def linux_bridge_name_def)
  ultimately show ?thesis using itoa_small_length [OF assms] tap_name_index [OF assms] bridge_name_index [OF assms]
    by (simp add: subnet_index_from_bridge_name_def subnet_index_from_tap_name_def)
qed

subsection \<open>Sorted index lists\<close>

lemma remdups_adj_sorted: "sorted xs \<Longrightarrow> sorted (remdups_adj xs) \<and> distinct (remdups_adj xs)"
proof (induction xs rule: remdups_adj.induct)
  case (3 x y xs)
  show ?case
  proof (cases "x = y")
    case True
    with 3 show ?thesis by simp
  next
    case False
    with 3 have "\<forall>z\<in>set (remdups_adj (y # xs)). x < z" by (auto simp: less_le)
    with 3 False show ?thesis by (auto simp: less_imp_le)
  qed
qed simp_all

lemma sorted_dedup: "remdups_adj (sort xs) = sorted_list_of_set (set xs)"
  using remdups_adj_sorted [of "sort xs"]
  by (intro sorted_distinct_set_unique) simp_all

lemma normalize_set: "set (normalize_subnet_indexes xs) = {i \<in> set xs. 0 \<le> i \<and> i \<le> MaxSubnetIndex}"
  by (auto simp: normalize_subnet_indexes_def)

text \<open>The firewall plan depends on the set of valid indexes only, and planning for its own indexes
  changes nothing.\<close>

lemma nft_plan_canonical:
  "build_linux_nft_plan xs = build_linux_nft_plan ys \<longleftrightarrow>
     {i \<in> set xs. 0 \<le> i \<and> i \<le> MaxSubnetIndex} = {i \<in> set ys. 0 \<le> i \<and> i \<le> MaxSubnetIndex}"
proof -
  have "np_indexes (build_linux_nft_plan zs) = sorted_list_of_set {i \<in> set zs. 0 \<le> i \<and> i \<le> MaxSubnetIndex}" for zs
    by (simp add: build_linux_nft_plan_def sorted_dedup Let_def)
  moreover have "build_linux_nft_plan zs = \<lparr>np_family = ''inet'', np_table = ''tbx'', np_indexes = np_indexes (build_linux_nft_plan zs),
      np_rules = concat (map nft_rules_for (np_indexes (build_linux_nft_plan zs)))\<rparr>" for zs
    by (simp add: build_linux_nft_plan_def Let_def)
  moreover have "finite {i \<in> set zs. 0 \<le> i \<and> i \<le> MaxSubnetIndex}" for zs by simp
  ultimately show ?thesis by (metis (no_types, lifting) sorted_list_of_set_inject)
qed

subsection \<open>Convergence\<close>

lemma select_subnets_eq:
  "select_subnets owned preflight (d, s, e) xs =
     (d @ filter (\<lambda>i. i \<in> set owned \<or> preflight i = None) xs,
      s @ filter (\<lambda>i. \<not> (i \<in> set owned \<or> preflight i = None)) xs,
      e @ map (the \<circ> preflight) (filter (\<lambda>i. \<not> (i \<in> set owned \<or> preflight i = None)) xs))"
  by (induction xs arbitrary: d s e) (auto split: option.split)

lemma preflight_None: "preflight_linux_subnet i insp reserved = None \<longleftrightarrow> check_subnet_index i (linux_cluster_sources insp) = Inr None"
  by (auto simp: preflight_linux_subnet_def Let_def split: sum.split option.split)

text \<open>C17: Convergence works on the configured subnets that are valid, in ascending order without
  repetition, and splits them: kept are those the helper already owns, whatever the routing table
  says, and those whose preflight is clear; exactly the others are skipped and reported. An owned
  subnet is never dropped.\<close>

theorem converge_splits_subnets:
  assumes "no_list_links ops w = Inr links"
  shows "\<exists>desired skipped errs.
      converge_linux_managed_state ops nft configured w =
        (case converge_linux_subnets ops nft desired w of
           (w', Some e) \<Rightarrow> (w', Some (HostError e))
         | (w', None) \<Rightarrow> (w', if skipped = [] then None else Some (SubnetsSkipped skipped errs)))
    \<and> sorted desired \<and> distinct desired \<and> length errs = length skipped
    \<and> set desired = {i \<in> set configured. 0 \<le> i \<and> i \<le> MaxSubnetIndex
         \<and> (i \<in> set (managed_subnet_indexes links)
            \<or> check_subnet_index i (linux_cluster_sources (inspector_of ops w)) = Inr None)}
    \<and> set skipped = {i \<in> set configured. 0 \<le> i \<and> i \<le> MaxSubnetIndex} - set desired"
proof -
  let ?r = "normalize_subnet_indexes configured"
  let ?keep = "\<lambda>i. i \<in> set (managed_subnet_indexes links) \<or> preflight_linux_subnet i (inspector_of ops w) ?r = None"
  have r: "sorted ?r" "distinct ?r"
    using remdups_adj_sorted [OF sorted_sort] by (auto simp: normalize_subnet_indexes_def)
  define desired where "desired = filter ?keep ?r"
  define skipped where "skipped = filter (\<lambda>i. \<not> ?keep i) ?r"
  define errs where "errs = map (the \<circ> (\<lambda>i. preflight_linux_subnet i (inspector_of ops w) ?r)) skipped"
  have sel: "select_subnets (managed_subnet_indexes links) (\<lambda>i. preflight_linux_subnet i (inspector_of ops w) ?r) ([], [], []) ?r =
      (desired, skipped, errs)"
    unfolding select_subnets_eq by (simp add: desired_def skipped_def errs_def)
  have "converge_linux_managed_state ops nft configured w =
        (case converge_linux_subnets ops nft desired w of
           (w', Some e) \<Rightarrow> (w', Some (HostError e))
         | (w', None) \<Rightarrow> (w', if skipped = [] then None else Some (SubnetsSkipped skipped errs)))"
    unfolding converge_linux_managed_state_def Let_def assms sum.case sel by (simp split: prod.split option.split)
  moreover have "sorted desired" "distinct desired" "length errs = length skipped"
    using r by (simp_all add: desired_def errs_def sorted_filter [of id, simplified])
  moreover have "set desired = {i \<in> set configured. 0 \<le> i \<and> i \<le> MaxSubnetIndex \<and> (i \<in> set (managed_subnet_indexes links)
      \<or> check_subnet_index i (linux_cluster_sources (inspector_of ops w)) = Inr None)}"
    by (auto simp: desired_def normalize_set preflight_None)
  moreover have "set skipped = {i \<in> set configured. 0 \<le> i \<and> i \<le> MaxSubnetIndex} - set desired"
    by (auto simp: desired_def skipped_def normalize_set)
  ultimately show ?thesis by blast
qed

text \<open>A host that owns the bridge of subnet 3 and answers every operation.\<close>

definition sample_links :: "link_state list" where
  "sample_links = [\<lparr>ln_name = ''br-tbx3'', ln_alias = bridge_alias_for_subnet 3, ln_addrs = []\<rparr>]"

definition sample_ops :: "(unit, string) net_ops" where
  "sample_ops = \<lparr>no_list_links = (\<lambda>_. Inr sample_links), no_route_to = (\<lambda>_ _. Inr no_route),
     no_ipv4_forwarding = (\<lambda>w. (w, None)), no_interface_forwarding = (\<lambda>_ w. (w, None)),
     no_managed_taps = (\<lambda>_ w. (w, None)), no_bridge = (\<lambda>_ w. (w, None)), no_delete_bridge = (\<lambda>_ w. (w, Inr True)),
     no_bridge_stp = (\<lambda>_ _ w. (w, None)), no_bridge_address = (\<lambda>_ _ w. (w, None)), no_link_up = (\<lambda>_ w. (w, None)),
     no_create_tap = (\<lambda>_ _ w. (w, Inr 3))\<rparr>"

theorem converge_splits_subnets_witness:
  "\<exists>desired skipped errs.
      converge_linux_managed_state sample_ops (\<lambda>_ w. (w, None)) [3, 300] () =
        (case converge_linux_subnets sample_ops (\<lambda>_ w. (w, None)) desired () of
           (w', Some e) \<Rightarrow> (w', Some (HostError e))
         | (w', None) \<Rightarrow> (w', if skipped = [] then None else Some (SubnetsSkipped skipped errs)))
    \<and> set desired = {3} \<and> skipped = []"
proof -
  have l: "no_list_links sample_ops () = Inr sample_links" by (simp add: sample_ops_def)
  have m: "managed_subnet_indexes sample_links = [3]" by code_simp
  have "set [3, 300] \<inter> {i. 0 \<le> i \<and> i \<le> MaxSubnetIndex} = {3}" by (auto simp: host_consts)
  then have s: "{i \<in> set [3, 300]. 0 \<le> i \<and> i \<le> MaxSubnetIndex \<and> (i \<in> set (managed_subnet_indexes sample_links) \<or> Q i)} = {3}"
    "{i \<in> set [3, 300]. 0 \<le> i \<and> i \<le> MaxSubnetIndex} = {3}" for Q
    unfolding m by auto
  from converge_splits_subnets [of sample_ops "()" sample_links "\<lambda>_ w. (w, None)" "[3, 300]", OF l, unfolded s]
  obtain desired skipped errs where c: "converge_linux_managed_state sample_ops (\<lambda>_ w. (w, None)) [3, 300] () =
        (case converge_linux_subnets sample_ops (\<lambda>_ w. (w, None)) desired () of
           (w', Some e) \<Rightarrow> (w', Some (HostError e))
         | (w', None) \<Rightarrow> (w', if skipped = [] then None else Some (SubnetsSkipped skipped errs)))"
    and d: "set desired = {3}" "set skipped = {3} - set desired" by blast
  then have "skipped = []" by simp
  with c d(1) show ?thesis by blast
qed

end
