(* ===== verification/Console.thy ===== *)
theory Console
  imports Go_Binary "HOL-Library.Sublist"
begin

text \<open>
  The serial console of a guest: the scrollback buffer of \<^verbatim>\<open>src/internal/hypervisor/ring.go\<close> and the
  console proxy of \<^verbatim>\<open>src/internal/hypervisor/console.go\<close>. The proxy runs an accept loop, a loop that
  copies the guest's output, and one goroutine per client; what each of them does while it holds a
  lock is one step, and the steps interleave freely. Indices into the buffer stay below twice its
  capacity, so the model keeps them as natural numbers.
\<close>

subsection \<open>The scrollback buffer\<close>

record ring =
  rb_data :: "byte list"
  rb_start :: nat
  rb_size :: nat

definition new_ring_buffer :: "nat \<Rightarrow> ring" where
  "new_ring_buffer capacity = \<lparr>rb_data = replicate capacity 0, rb_start = 0, rb_size = 0\<rparr>"

definition ring_put :: "ring \<Rightarrow> byte \<Rightarrow> ring" where
  "ring_put r b =
     (let capacity = length (rb_data r);
          index = (rb_start r + rb_size r) mod capacity;
          r = r\<lparr>rb_data := (rb_data r)[index := b]\<rparr>
      in if rb_size r < capacity then r\<lparr>rb_size := rb_size r + 1\<rparr>
         else r\<lparr>rb_start := (rb_start r + 1) mod capacity\<rparr>)"

definition ring_write :: "ring \<Rightarrow> byte list \<Rightarrow> ring" where
  "ring_write r p =
     (let capacity = length (rb_data r) in
      if length p \<ge> capacity
      then r\<lparr>rb_data := drop (length p - capacity) p, rb_start := 0, rb_size := capacity\<rparr>
      else foldl ring_put r p)"

definition ring_snapshot :: "ring \<Rightarrow> byte list" where
  "ring_snapshot r = map (\<lambda>i. rb_data r ! ((rb_start r + i) mod length (rb_data r))) [0..<rb_size r]"

text \<open>What the buffer promises: the last bytes written, as many as it has room for.\<close>

definition lastn :: "nat \<Rightarrow> 'a list \<Rightarrow> 'a list" where
  "lastn n xs = drop (length xs - n) xs"

definition ring_ok :: "nat \<Rightarrow> ring \<Rightarrow> bool" where
  "ring_ok capacity r \<longleftrightarrow> length (rb_data r) = capacity \<and> rb_size r \<le> capacity
     \<and> (rb_start r < capacity \<or> rb_start r = 0)"

lemma lastn_append: "lastn n (lastn n xs @ ys) = lastn n (xs @ ys)"
  by (cases "length xs \<le> n") (simp_all add: lastn_def add.commute)

lemma lastn_all: "length xs \<le> n \<Longrightarrow> lastn n xs = xs"
  by (simp add: lastn_def)

lemma length_lastn [simp]: "length (lastn n xs) = min n (length xs)"
  by (simp add: lastn_def)

lemma mod_index_le:
  assumes "(s + i) mod c = (s + j) mod c" "j \<le> i" "i < (c :: nat)"
  shows "i = j"
proof -
  from mod_eq_nat1E [OF assms(1)] assms(2) obtain q where "s + i = s + j + c * q" by auto
  with assms(3) show ?thesis by (cases q) auto
qed

lemma mod_index_eq: "(s + i) mod c = (s + j) mod c \<Longrightarrow> i < c \<Longrightarrow> j < (c :: nat) \<Longrightarrow> i = j"
  using mod_index_le [of s i c j] mod_index_le [of s j c i] by (cases "j \<le> i") auto

lemma snapshot_put:
  assumes ok: "ring_ok c r" and c: "0 < c"
  shows "ring_ok c (ring_put r b) \<and> ring_snapshot (ring_put r b) = lastn c (ring_snapshot r @ [b])"
proof -
  have len: "length (rb_data r) = c" "rb_size r \<le> c" "rb_start r < c" using ok c by (auto simp: ring_ok_def)
  let ?k = "(rb_start r + rb_size r) mod c"
  have k: "?k < c" using c by simp
  show ?thesis
  proof (cases "rb_size r < c")
    case True
    have other: "(rb_start r + i) mod c \<noteq> ?k" if "i < rb_size r" for i
      using mod_index_eq [of "rb_start r" i c "rb_size r"] that True by auto
    have upd: "(rb_data r)[?k := b] ! ((rb_start r + i) mod c) = rb_data r ! ((rb_start r + i) mod c)" if "i < rb_size r" for i
      using other [OF that] by (metis nth_list_update_neq)
    have "ring_snapshot (ring_put r b) = ring_snapshot r @ [b]"
      using len True k upd by (simp add: ring_snapshot_def ring_put_def Let_def)
    then show ?thesis using len True by (simp add: lastn_all ring_snapshot_def ring_ok_def ring_put_def Let_def)
  next
    case False
    then have full: "rb_size r = c" using len by simp
    have k0: "?k = rb_start r" using len full by simp
    have nth: "(rb_data r)[rb_start r := b] ! ((Suc (rb_start r) + i) mod c) =
        (if i = c - 1 then b else rb_data r ! ((rb_start r + Suc i) mod c))" if "i < c" for i
    proof (cases "i = c - 1")
      case True
      then have "Suc (rb_start r) + i = rb_start r + c" using c by simp
      then show ?thesis using True len by simp
    next
      case False
      with that have "Suc i < c" by linarith
      then have "(rb_start r + Suc i) mod c \<noteq> (rb_start r + 0) mod c"
        using mod_index_eq [of "rb_start r" "Suc i" c 0] by auto
      then show ?thesis using False len by simp
    qed
    have "ring_snapshot (ring_put r b) = map (\<lambda>i. if i = c - 1 then b else rb_data r ! ((rb_start r + Suc i) mod c)) [0..<c]"
      using len full k0 nth by (simp add: ring_snapshot_def ring_put_def Let_def mod_add_left_eq)
    also have "\<dots> = drop 1 (ring_snapshot r) @ [b]"
      by (rule nth_equalityI) (use c full len in \<open>auto simp: ring_snapshot_def nth_append\<close>)
    also have "\<dots> = lastn c (ring_snapshot r @ [b])"
      using full len c by (simp add: lastn_def ring_snapshot_def)
    finally show ?thesis using len full c by (simp add: ring_ok_def ring_put_def Let_def)
  qed
qed

lemma snapshot_foldl:
  "ring_ok c r \<Longrightarrow> 0 < c \<Longrightarrow> ring_ok c (foldl ring_put r p) \<and> ring_snapshot (foldl ring_put r p) = lastn c (ring_snapshot r @ p)"
proof (induction p arbitrary: r)
  case Nil
  then show ?case by (simp add: lastn_all ring_snapshot_def ring_ok_def)
next
  case (Cons b p)
  then show ?case using snapshot_put [of c r b] lastn_append [of c "ring_snapshot r @ [b]" p] by auto
qed

lemma ring_write_ok:
  assumes "ring_ok c r"
  shows "ring_ok c (ring_write r p)" "ring_snapshot (ring_write r p) = lastn c (ring_snapshot r @ p)"
proof -
  have "ring_ok c (ring_write r p) \<and> ring_snapshot (ring_write r p) = lastn c (ring_snapshot r @ p)"
  proof (cases "length p \<ge> c")
    case True
    have len: "length (rb_data r) = c" "length (ring_snapshot r) = rb_size r" using assms by (auto simp: ring_ok_def ring_snapshot_def)
    let ?d = "drop (length p - c) p"
    have "map (\<lambda>i. ?d ! (i mod length ?d)) [0..<c] = ?d"
      by (rule nth_equalityI) (use True in auto)
    then have "ring_snapshot (ring_write r p) = ?d" using True len by (simp add: ring_write_def Let_def ring_snapshot_def)
    then show ?thesis using True len by (simp add: ring_write_def Let_def ring_ok_def lastn_def)
  next
    case False
    then show ?thesis using snapshot_foldl [OF assms, of p] assms by (simp add: ring_write_def Let_def ring_ok_def)
  qed
  then show "ring_ok c (ring_write r p)" "ring_snapshot (ring_write r p) = lastn c (ring_snapshot r @ p)" by simp_all
qed

interpretation ring_buffer: refined_system ring_write "ring_ok c" "new_ring_buffer c" ring_snapshot
    "\<lambda>seen p. lastn c (seen @ p)" for c
  by unfold_locales (simp_all add: ring_write_ok, simp add: ring_ok_def new_ring_buffer_def)

lemma lastn_foldl: "foldl (\<lambda>seen p. lastn n (seen @ p)) (lastn n xs) ps = lastn n (xs @ concat ps)"
  by (induction ps arbitrary: xs) (simp_all add: lastn_append)

lemma scrollback_first: "ring_snapshot (ring_write (new_ring_buffer (64 * 1024)) [b]) = [b]"
proof -
  have "ring_ok (64 * 1024) (new_ring_buffer (64 * 1024))" by (rule ring_buffer.inv_init)
  from ring_write_ok(2) [OF this, of "[b]"] show ?thesis by (simp add: ring_snapshot_def new_ring_buffer_def lastn_def)
qed

text \<open>C18: The scrollback refines a bounded log: after any writes, of any lengths, the buffer reads back
  as exactly the last bytes written, as many as its capacity.\<close>

theorem scrollback_refines_log:
  "ring_snapshot (foldl ring_write (new_ring_buffer capacity) ps) = lastn capacity (concat ps)"
  using ring_buffer.view_run [of capacity ps] lastn_foldl [of capacity "[]" ps]
  by (simp add: ring_snapshot_def new_ring_buffer_def lastn_def)

subsection \<open>Client connections\<close>

text \<open>
  A connection is the kernel's: which writes come up short or fail, and which deadlines cannot be
  set, is a script fixed when it is accepted. An exhausted script succeeds.
\<close>

record connection =
  cn_sent :: "byte list"
  cn_script :: "(nat \<times> bool) list"
  cn_deadlines :: "bool list"
  cn_open :: bool

definition conn_write :: "connection \<Rightarrow> byte list \<Rightarrow> connection \<times> nat \<times> bool" where
  "conn_write x data =
     (if \<not> cn_open x then (x, 0, True)
      else case cn_script x of
          [] \<Rightarrow> (x\<lparr>cn_sent := cn_sent x @ data\<rparr>, length data, False)
        | (n, err) # script \<Rightarrow> (x\<lparr>cn_sent := cn_sent x @ take n data, cn_script := script\<rparr>, min n (length data), err))"

definition set_write_deadline :: "connection \<Rightarrow> connection \<times> bool" where
  "set_write_deadline x =
     (if \<not> cn_open x then (x, False)
      else case cn_deadlines x of [] \<Rightarrow> (x, True) | ok # rest \<Rightarrow> (x\<lparr>cn_deadlines := rest\<rparr>, ok))"

datatype write_error = WriteFailed | NoProgress

function write_all :: "connection \<Rightarrow> byte list \<Rightarrow> connection \<times> write_error option" where
  "write_all x data =
     (if data = [] then (x, None)
      else case conn_write x data of (x, n, err) \<Rightarrow>
        if err then (x, Some WriteFailed)
        else if n = 0 then (x, Some NoProgress)
        else write_all x (drop n data))"
  by pat_completeness auto
termination
  by (relation "measure (\<lambda>(_, data). length data)") auto

declare write_all.simps [simp del]

lemma write_all_sent: "write_all x data = (y, None) \<Longrightarrow> cn_sent y = cn_sent x @ data"
proof (induction x data rule: write_all.induct)
  case (1 x data)
  show ?case
  proof (cases "data = []")
    case False
    obtain z n err where w: "conn_write x data = (z, n, err)" by (cases "conn_write x data") auto
    then have r: "\<not> err" "n \<noteq> 0" "write_all z (drop n data) = (y, None)"
      using 1(2) False by (auto simp: write_all.simps [of x data] split: if_split_asm)
    have "cn_sent z = cn_sent x @ take n data"
      using w r(1) by (auto simp: conn_write_def min_def split: if_split_asm list.split_asm)
    with 1(1) [OF False w [symmetric] refl r(1,2)] r(3) show ?thesis by simp
  qed (use 1 in \<open>simp add: write_all.simps\<close>)
qed

subsection \<open>The proxy\<close>

text \<open>
  The state: the buffer, the attached client, the connections, the output read but not yet offered
  to the client, the connection the accept loop is replaying to (it holds the write lock), the
  connections whose input is being copied, and whether the listener is open. The last field is all
  the output the guest has produced.
\<close>

record console =
  cs_ring :: ring
  cs_client :: "nat option"
  cs_conns :: "nat \<Rightarrow> connection option"
  cs_inflight :: "byte list option"
  cs_attaching :: "nat option"
  cs_copying :: "nat list"
  cs_listening :: bool
  cs_read :: "byte list"

definition consoleScrollback :: nat where
  "consoleScrollback = 64 * 1024"

definition start_console_proxy :: console where
  "start_console_proxy = \<lparr>cs_ring = new_ring_buffer consoleScrollback, cs_client = None, cs_conns = (\<lambda>_. None),
     cs_inflight = None, cs_attaching = None, cs_copying = [], cs_listening = True, cs_read = []\<rparr>"

definition close_conn :: "nat \<Rightarrow> console \<Rightarrow> console" where
  "close_conn c s = s\<lparr>cs_conns := (cs_conns s)(c := map_option (\<lambda>x. x\<lparr>cn_open := False\<rparr>) (cs_conns s c))\<rparr>"

definition clear_client :: "nat \<Rightarrow> console \<Rightarrow> console" where
  "clear_client c s = (if cs_client s = Some c then close_conn c (s\<lparr>cs_client := None\<rparr>) else s)"

definition write_client :: "nat \<Rightarrow> byte list \<Rightarrow> console \<Rightarrow> console \<times> bool" where
  "write_client c data s =
     (case cs_conns s c of
        None \<Rightarrow> (s, False)
      | Some x \<Rightarrow>
          (case set_write_deadline x of (x, ok) \<Rightarrow>
             if \<not> ok then (clear_client c (s\<lparr>cs_conns := (cs_conns s)(c \<mapsto> x)\<rparr>), False)
             else case write_all x data of
                 (x, None) \<Rightarrow> (s\<lparr>cs_conns := (cs_conns s)(c \<mapsto> x)\<rparr>, True)
               | (x, Some _) \<Rightarrow> (clear_client c (s\<lparr>cs_conns := (cs_conns s)(c \<mapsto> x)\<rparr>), False)))"

definition set_client :: "nat \<Rightarrow> connection \<Rightarrow> console \<Rightarrow> console \<times> bool" where
  "set_client c x s =
     (let s = s\<lparr>cs_conns := (cs_conns s)(c \<mapsto> x)\<rparr> in
      if cs_client s \<noteq> None then (s, False) else (s\<lparr>cs_client := Some c\<rparr>, True))"

definition busy_reply :: "byte list" where
  "busy_reply = map of_char ''console busy: another client is attached'' @ [10]"

definition refuse :: "nat \<Rightarrow> console \<Rightarrow> console" where
  "refuse c s =
     close_conn c (case cs_conns s c of None \<Rightarrow> s
       | Some x \<Rightarrow> s\<lparr>cs_conns := (cs_conns s)(c \<mapsto> fst (conn_write (fst (set_write_deadline x)) busy_reply))\<rparr>)"

definition replay :: "nat \<Rightarrow> console \<Rightarrow> console" where
  "replay c s =
     (let scrollback = ring_snapshot (cs_ring s);
          (s, ok) = (if length scrollback > 0 then write_client c scrollback s else (s, True))
      in s\<lparr>cs_attaching := None, cs_copying := (if ok then c # cs_copying s else cs_copying s)\<rparr>)"

definition write_live_output :: "byte list \<Rightarrow> console \<Rightarrow> console" where
  "write_live_output data s =
     (case cs_client s of Some c \<Rightarrow> fst (write_client c data s) | None \<Rightarrow> s)"

definition close_console :: "console \<Rightarrow> console" where
  "close_console s =
     (let s = s\<lparr>cs_listening := False\<rparr> in
      case cs_client s of Some c \<Rightarrow> (close_conn c s)\<lparr>cs_client := None\<rparr> | None \<Rightarrow> s)"

text \<open>
  Steps. The accept loop takes the write lock and claims the client slot (or refuses), and replays
  the scrollback before it gives the lock back. The output loop stores what it read, and then, with
  the write lock, offers it to the client. A client's input ends at any time, and the proxy closes.
\<close>

inductive console_step :: "console \<Rightarrow> console \<Rightarrow> bool" where
  accept_claim: "cs_listening s \<Longrightarrow> cs_attaching s = None \<Longrightarrow> cs_conns s c = None \<Longrightarrow> cn_sent x = [] \<Longrightarrow> cn_open x
    \<Longrightarrow> set_client c x s = (s', True) \<Longrightarrow> console_step s (s'\<lparr>cs_attaching := Some c\<rparr>)"
| accept_refuse: "cs_listening s \<Longrightarrow> cs_attaching s = None \<Longrightarrow> cs_conns s c = None \<Longrightarrow> cn_sent x = [] \<Longrightarrow> cn_open x
    \<Longrightarrow> set_client c x s = (s', False) \<Longrightarrow> console_step s (refuse c s')"
| accept_replay: "cs_attaching s = Some c \<Longrightarrow> console_step s (replay c s)"
| output_read: "cs_inflight s = None \<Longrightarrow> length data \<le> 32 * 1024
    \<Longrightarrow> console_step s (s\<lparr>cs_ring := ring_write (cs_ring s) data, cs_inflight := Some data, cs_read := cs_read s @ data\<rparr>)"
| output_live: "cs_inflight s = Some data \<Longrightarrow> cs_attaching s = None
    \<Longrightarrow> console_step s ((write_live_output data s)\<lparr>cs_inflight := None\<rparr>)"
| input_end: "c \<in> set (cs_copying s)
    \<Longrightarrow> console_step s ((clear_client c s)\<lparr>cs_copying := removeAll c (cs_copying s)\<rparr>)"
| close: "console_step s (close_console s)"

inductive_cases console_stepE: "console_step s t"

abbreviation console_reached :: "console \<Rightarrow> bool" where
  "console_reached \<equiv> rtranclp console_step start_console_proxy"

subsection \<open>What a client receives\<close>

text \<open>
  The bytes sent to a client are the scrollback up to some point of the guest's output, then a
  possibly repeated end of it, then everything that followed.
\<close>

definition stream_ok :: "byte list \<Rightarrow> byte list \<Rightarrow> bool" where
  "stream_ok out sent \<longleftrightarrow>
     (\<exists>before again after. out = before @ after \<and> suffix again before
        \<and> sent = lastn consoleScrollback before @ again @ after)"

definition client_ok :: "byte list \<Rightarrow> byte list option \<Rightarrow> byte list \<Rightarrow> bool" where
  "client_ok out inflight sent \<longleftrightarrow>
     (case inflight of
        None \<Rightarrow> stream_ok out sent
      | Some data \<Rightarrow> sent = lastn consoleScrollback out \<or> (\<exists>shown. out = shown @ data \<and> stream_ok shown sent))"

definition console_inv :: "console \<Rightarrow> bool" where
  "console_inv s \<longleftrightarrow>
     ring_ok consoleScrollback (cs_ring s) \<and> ring_snapshot (cs_ring s) = lastn consoleScrollback (cs_read s)
   \<and> (\<forall>data. cs_inflight s = Some data \<longrightarrow> suffix data (cs_read s))
   \<and> (\<forall>c. cs_client s = Some c \<longrightarrow> (\<exists>x. cs_conns s c = Some x
        \<and> (if cs_attaching s = Some c then cn_sent x = [] else client_ok (cs_read s) (cs_inflight s) (cn_sent x))))"

lemma stream_start: "stream_ok out (lastn consoleScrollback out)"
  unfolding stream_ok_def by (rule exI [of _ out], rule exI [of _ "[]"], rule exI [of _ "[]"]) simp

lemma stream_again: "suffix data out \<Longrightarrow> stream_ok out (lastn consoleScrollback out @ data)"
  unfolding stream_ok_def by (rule exI [of _ out], rule exI [of _ data], rule exI [of _ "[]"]) simp

lemma stream_more: "stream_ok out sent \<Longrightarrow> stream_ok (out @ data) (sent @ data)"
  unfolding stream_ok_def by (metis append.assoc)

lemma client_read: "client_ok out None sent \<Longrightarrow> client_ok (out @ data) (Some data) sent"
  by (auto simp: client_ok_def)

lemma client_live: "suffix data out \<Longrightarrow> client_ok out (Some data) sent \<Longrightarrow> client_ok out None (sent @ data)"
  by (auto simp: client_ok_def stream_again stream_more)

lemma client_replayed: "client_ok out inflight (lastn consoleScrollback out)"
  by (simp add: client_ok_def stream_start split: option.split)

lemma clear_client_simps [simp]:
  "cs_client (clear_client c s) = (if cs_client s = Some c then None else cs_client s)"
  "cs_ring (clear_client c s) = cs_ring s" "cs_read (clear_client c s) = cs_read s"
  "cs_inflight (clear_client c s) = cs_inflight s" "cs_attaching (clear_client c s) = cs_attaching s"
  "cs_copying (clear_client c s) = cs_copying s"
  "d \<noteq> c \<Longrightarrow> cs_conns (clear_client c s) d = cs_conns s d"
  by (simp_all add: clear_client_def close_conn_def)

lemma write_client_frame:
  assumes "write_client c data s = (t, ok)"
  shows "cs_ring t = cs_ring s" "cs_read t = cs_read s" "cs_inflight t = cs_inflight s" "cs_attaching t = cs_attaching s"
    "cs_copying t = cs_copying s" "cs_client t = cs_client s \<or> cs_client s = Some c \<and> cs_client t = None"
    "\<And>d. d \<noteq> c \<Longrightarrow> cs_conns t d = cs_conns s d"
  using assms by (auto simp: write_client_def split: option.split_asm prod.split_asm if_split_asm)

lemma write_client_sent:
  assumes w: "write_client c data s = (t, ok)" and x: "cs_conns s c = Some x" and t: "cs_client t = Some c"
  shows "\<exists>y. cs_conns t c = Some y \<and> cn_sent y = cn_sent x @ data"
proof -
  obtain y b where d: "set_write_deadline x = (y, b)" by fastforce
  have sent: "cn_sent y = cn_sent x" using d by (auto simp: set_write_deadline_def split: if_split_asm list.split_asm)
  obtain z e where z: "write_all y data = (z, e)" by fastforce
  have "b \<and> e = None" using w t by (auto simp: write_client_def x d z split: if_split_asm option.split_asm)
  with w have "t = s\<lparr>cs_conns := (cs_conns s)(c \<mapsto> z)\<rparr>" by (auto simp: write_client_def x d z)
  with write_all_sent z \<open>b \<and> e = None\<close> sent show ?thesis by auto
qed

lemma console_invI:
  assumes "console_inv s" "cs_ring t = cs_ring s" "cs_read t = cs_read s" "cs_inflight t = cs_inflight s"
    and "\<And>c. cs_client t = Some c \<Longrightarrow> (\<exists>x. cs_conns t c = Some x
        \<and> (if cs_attaching t = Some c then cn_sent x = [] else client_ok (cs_read s) (cs_inflight s) (cn_sent x)))"
  shows "console_inv t"
  using assms(1,5) unfolding console_inv_def assms(2-4) by blast

lemma clear_client_inv: "console_inv s \<Longrightarrow> console_inv (clear_client c s)"
  by (rule console_invI) (auto simp: console_inv_def split: if_split_asm)

lemma copying_inv [simp]: "console_inv (s\<lparr>cs_copying := cs\<rparr>) = console_inv s"
  by (simp add: console_inv_def cong: if_cong)

lemma replay_inv:
  assumes inv: "console_inv s" and at: "cs_attaching s = Some c"
  shows "console_inv (replay c s)"
proof -
  let ?sb = "ring_snapshot (cs_ring s)"
  obtain t ok where t: "(if length ?sb > 0 then write_client c ?sb s else (s, True)) = (t, ok)" by fastforce
  have sb: "?sb = lastn consoleScrollback (cs_read s)" using inv by (simp add: console_inv_def)
  have r: "replay c s = t\<lparr>cs_attaching := None, cs_copying := (if ok then c # cs_copying t else cs_copying t)\<rparr>"
    unfolding replay_def Let_def t by simp
  have keep: "cs_ring t = cs_ring s" "cs_read t = cs_read s" "cs_inflight t = cs_inflight s"
      "cs_client t = cs_client s \<or> cs_client t = None" "\<And>d. d \<noteq> c \<Longrightarrow> cs_conns t d = cs_conns s d"
    using t write_client_frame [of c ?sb s t ok] by (auto split: if_split_asm)
  have sent: "\<exists>y. cs_conns t c = Some y \<and> cn_sent y = ?sb" if "cs_client t = Some c"
  proof -
    have "cs_client s = Some c" using that keep(4) by auto
    then obtain x where x: "cs_conns s c = Some x" "cn_sent x = []" using inv at by (auto simp: console_inv_def)
    show ?thesis using t write_client_sent [of c ?sb s t ok x, OF _ x(1) that] x by (auto split: if_split_asm)
  qed
  show ?thesis unfolding r
  proof (rule console_invI [OF inv])
    fix d
    assume "cs_client (t\<lparr>cs_attaching := None, cs_copying := (if ok then c # cs_copying t else cs_copying t)\<rparr>) = Some d"
    then have d: "cs_client t = Some d" "cs_client s = Some d" using keep(4) by auto
    show "\<exists>x. cs_conns (t\<lparr>cs_attaching := None, cs_copying := (if ok then c # cs_copying t else cs_copying t)\<rparr>) d = Some x
      \<and> (if cs_attaching (t\<lparr>cs_attaching := None, cs_copying := (if ok then c # cs_copying t else cs_copying t)\<rparr>) = Some d
         then cn_sent x = [] else client_ok (cs_read s) (cs_inflight s) (cn_sent x))"
    proof (cases "d = c")
      case True
      with sent d show ?thesis by (auto simp: sb client_replayed)
    next
      case False
      with inv d at keep(5) [OF False] show ?thesis by (auto simp: console_inv_def)
    qed
  qed (simp_all add: keep)
qed

lemma live_inv:
  assumes inv: "console_inv s" and i: "cs_inflight s = Some data" and at: "cs_attaching s = None"
  shows "console_inv ((write_live_output data s)\<lparr>cs_inflight := None\<rparr>)"
proof (cases "cs_client s")
  case (Some c)
  obtain t ok where t: "write_client c data s = (t, ok)" by fastforce
  note keep = write_client_frame [OF t]
  from inv Some at i obtain x where x: "cs_conns s c = Some x" "client_ok (cs_read s) (Some data) (cn_sent x)"
    and suf: "suffix data (cs_read s)" by (auto simp: console_inv_def)
  have "\<exists>y. cs_conns t c = Some y \<and> client_ok (cs_read s) None (cn_sent y)" if "cs_client t = Some c"
    using write_client_sent [OF t x(1) that] client_live [OF suf x(2)] by auto
  then show ?thesis using inv keep Some at by (auto simp: write_live_output_def t console_inv_def)
qed (use inv in \<open>simp add: write_live_output_def console_inv_def\<close>)

lemma console_step_inv: "console_step s t \<Longrightarrow> console_inv s \<Longrightarrow> console_inv t"
proof (induction rule: console_step.induct)
  case (accept_claim s c x s')
  then show ?case by (auto simp: set_client_def Let_def console_inv_def split: if_split_asm)
next
  case (accept_refuse s c x s')
  then have s': "s' = s\<lparr>cs_conns := (cs_conns s)(c \<mapsto> x)\<rparr>" by (auto simp: set_client_def Let_def split: if_split_asm)
  show ?case
    by (rule console_invI [OF accept_refuse(7)])
      (use accept_refuse in \<open>auto simp: s' refuse_def close_conn_def console_inv_def\<close>)
next
  case (output_read s data)
  then have ring: "ring_ok consoleScrollback (ring_write (cs_ring s) data)"
      "ring_snapshot (ring_write (cs_ring s) data) = lastn consoleScrollback (cs_read s @ data)"
    by (simp_all add: console_inv_def ring_write_ok(1) ring_write_ok(2) [of consoleScrollback] lastn_append)
  have client: "\<exists>x. cs_conns s c = Some x \<and> (if cs_attaching s = Some c then cn_sent x = []
      else client_ok (cs_read s @ data) (Some data) (cn_sent x))" if c: "cs_client s = Some c" for c
  proof -
    obtain x where "cs_conns s c = Some x"
      "if cs_attaching s = Some c then cn_sent x = [] else client_ok (cs_read s) None (cn_sent x)"
      using output_read(3) c unfolding console_inv_def output_read(1) by blast
    then show ?thesis by (cases "cs_attaching s = Some c") (simp_all add: client_read)
  qed
  show ?case unfolding console_inv_def
  proof (intro conjI allI impI, goal_cases)
    case (4 c)
    then have "cs_client s = Some c" by simp
    from client [OF this] show ?case by (cases "cs_attaching s = Some c") simp_all
  qed (use ring in \<open>simp_all add: suffix_def\<close>)
next
  case (input_end c s)
  then show ?case by (simp add: clear_client_inv)
next
  case (close s)
  then show ?case by (auto simp: close_console_def close_conn_def Let_def console_inv_def split: option.split)
qed (simp_all add: replay_inv live_inv)

lemma console_reached_inv: "console_reached s \<Longrightarrow> console_inv s"
proof (induction rule: rtranclp_induct)
  case base
  have "ring_ok consoleScrollback (new_ring_buffer consoleScrollback)" by (simp add: ring_ok_def new_ring_buffer_def)
  then show ?case by (simp add: console_inv_def start_console_proxy_def ring_snapshot_def new_ring_buffer_def lastn_def)
qed (rule console_step_inv)

text \<open>C8: An attached client misses nothing. Whatever the guest wrote, whichever writes failed and
  however the loops interleaved, once the replay is done and no output is in flight, the client has
  received the last 64 KiB of the output before some point and all of the output after it; at most
  the end of the first part was sent twice.\<close>

theorem console_client_complete:
  assumes "console_reached s" "cs_client s = Some c" "cs_attaching s = None" "cs_inflight s = None"
  shows "\<exists>x before again after. cs_conns s c = Some x \<and> cs_read s = before @ after \<and> suffix again before
    \<and> cn_sent x = lastn consoleScrollback before @ again @ after"
  using console_reached_inv [OF assms(1)] assms(2-4) by (auto simp: console_inv_def client_ok_def stream_ok_def)

subsection \<open>Repeated output\<close>

definition fresh_connection :: connection where
  "fresh_connection = \<lparr>cn_sent = [], cn_script = [], cn_deadlines = [], cn_open = True\<rparr>"

text \<open>A byte is read, a client attaches and is replayed it, and the output loop offers it again.\<close>

definition repeated_console :: console where
  "repeated_console =
     (let s = start_console_proxy;
          s = s\<lparr>cs_ring := ring_write (cs_ring s) [65], cs_inflight := Some [65], cs_read := cs_read s @ [65]\<rparr>;
          s = (fst (set_client 0 fresh_connection s))\<lparr>cs_attaching := Some 0\<rparr>;
          s = replay 0 s
      in (write_live_output [65] s)\<lparr>cs_inflight := None\<rparr>)"

lemma first_byte_snapshot: "ring_snapshot (ring_write (new_ring_buffer consoleScrollback) [b]) = [b]"
  unfolding consoleScrollback_def by (rule scrollback_first)

lemma repeated_console_state:
  "cs_client repeated_console = Some 0 \<and> cs_attaching repeated_console = None \<and> cs_inflight repeated_console = None
   \<and> cs_read repeated_console = [65] \<and> cs_conns repeated_console 0 = Some (fresh_connection\<lparr>cn_sent := [65, 65]\<rparr>)"
  by (simp add: repeated_console_def Let_def start_console_proxy_def set_client_def replay_def first_byte_snapshot
      write_client_def set_write_deadline_def fresh_connection_def write_all.simps conn_write_def write_live_output_def)

lemma repeated_console_reached: "console_reached repeated_console"
proof -
  let ?a = "start_console_proxy"
  let ?b = "?a\<lparr>cs_ring := ring_write (cs_ring ?a) [65], cs_inflight := Some [65], cs_read := cs_read ?a @ [65]\<rparr>"
  let ?c = "(fst (set_client 0 fresh_connection ?b))\<lparr>cs_attaching := Some 0\<rparr>"
  let ?d = "replay 0 ?c"
  let ?e = "(write_live_output [65] ?d)\<lparr>cs_inflight := None\<rparr>"
  have 1: "console_step ?a ?b" by (rule output_read) (simp_all add: start_console_proxy_def)
  have 2: "console_step ?b ?c"
    by (rule accept_claim [of _ 0 fresh_connection])
      (simp_all add: start_console_proxy_def fresh_connection_def set_client_def)
  have 3: "console_step ?c ?d" by (rule accept_replay) simp
  have 4: "console_step ?d ?e"
    by (rule output_live)
      (simp_all add: start_console_proxy_def set_client_def replay_def first_byte_snapshot
        write_client_def set_write_deadline_def fresh_connection_def write_all.simps conn_write_def Let_def)
  note run = rtranclp.rtrancl_into_rtrancl [of console_step ?a]
  show ?thesis unfolding repeated_console_def Let_def by (rule run [OF run [OF run [OF r_into_rtranclp [of console_step, OF 1] 2] 3] 4])
qed

theorem console_client_complete_witness:
  "\<exists>x before again after. cs_conns repeated_console 0 = Some x \<and> cs_read repeated_console = before @ after
    \<and> suffix again before \<and> cn_sent x = lastn consoleScrollback before @ again @ after"
  using console_client_complete [OF repeated_console_reached] repeated_console_state by simp


subsection \<open>The console socket\<close>

text \<open>
  Binding the socket: a path that is taken is reclaimed when it is a socket nobody answers on. The
  system calls are parameters over a state of the host.
\<close>

datatype listen_error = ListenFailed | SocketInUse | RemoveStaleFailed

definition listen_unix ::
    "('w \<Rightarrow> 'w \<times> bool) \<Rightarrow> ('w \<Rightarrow> bool) \<Rightarrow> ('w \<Rightarrow> bool) \<Rightarrow> ('w \<Rightarrow> 'w \<times> bool) \<Rightarrow> 'w \<Rightarrow> 'w \<times> (listen_error + unit)" where
  "listen_unix listen is_socket dial remove' w =
     (case listen w of
        (w, True) \<Rightarrow> (w, Inr ())
      | (w, False) \<Rightarrow>
          if \<not> is_socket w then (w, Inl ListenFailed)
          else if dial w then (w, Inl SocketInUse)
          else case remove' w of
              (w, False) \<Rightarrow> (w, Inl RemoveStaleFailed)
            | (w, True) \<Rightarrow>
                (case listen w of (w, True) \<Rightarrow> (w, Inr ()) | (w, False) \<Rightarrow> (w, Inl ListenFailed)))"

text \<open>A socket that answers is never removed.\<close>

lemma listen_unix_keeps_live:
  "listen w = (v, False) \<Longrightarrow> dial v \<Longrightarrow> fst (listen_unix listen is_socket dial remove' w) = v"
  by (simp add: listen_unix_def)

end
