(* ===== verification/Preemption.thy ===== *)
theory Preemption
  imports Go_Strings
begin

text \<open>
  The handover between an operation that holds a cluster's lock and those queued behind it,
  \<^verbatim>\<open>src/internal/daemon/preempt.go\<close>. A queued operation announces itself; the holder registers work
  it is willing to abandon. Interrupts are values of a type of their own, and the ones taken out of
  the table but not yet called are part of the state, because they are called after the lock is
  released. Counts stay below the number of operations of the daemon and are kept as integers; the
  sequence number wraps.
\<close>

subsection \<open>The table\<close>

record 'i preemptions =
  pr_sequence :: int
  pr_pending :: "string \<rightharpoonup> int"
  pr_interrupts :: "string \<rightharpoonup> (int, 'i) gomap"

definition cluster_key :: "(string \<Rightarrow> string) \<Rightarrow> string \<Rightarrow> string" where
  "cluster_key U name = to_lower U name"

definition pending_of :: "'i preemptions \<Rightarrow> string \<Rightarrow> int" where
  "pending_of p key = (case pr_pending p key of Some n \<Rightarrow> n | None \<Rightarrow> 0)"

definition interrupts_of :: "'i preemptions \<Rightarrow> string \<Rightarrow> (int, 'i) gomap" where
  "interrupts_of p key = (case pr_interrupts p key of Some m \<Rightarrow> m | None \<Rightarrow> [])"

text \<open>Announcing: the updated table and the interrupts to call.\<close>

definition request :: "string \<Rightarrow> 'i preemptions \<Rightarrow> 'i preemptions \<times> 'i list" where
  "request key p =
     (p\<lparr>pr_pending := (pr_pending p)(key \<mapsto> pending_of p key + 1)\<rparr>, map snd (interrupts_of p key))"

definition release :: "string \<Rightarrow> 'i preemptions \<Rightarrow> 'i preemptions" where
  "release key p =
     (let n = pending_of p key - 1;
          p = p\<lparr>pr_pending := (pr_pending p)(key \<mapsto> n)\<rparr>
      in if n \<le> 0 then p\<lparr>pr_pending := (pr_pending p)(key := None)\<rparr> else p)"

text \<open>Registering: the table, the number of the registration, and whether to call the interrupt now.\<close>

definition register :: "string \<Rightarrow> 'i \<Rightarrow> 'i preemptions \<Rightarrow> 'i preemptions \<times> int \<times> bool" where
  "register key interrupt p =
     (let n = (pr_sequence p + 1) mod 2 ^ 64
      in (p\<lparr>pr_sequence := n,
            pr_interrupts := (pr_interrupts p)(key \<mapsto> AList.update n interrupt (interrupts_of p key))\<rparr>,
          n, pending_of p key > 0))"

definition remove_interrupt :: "string \<Rightarrow> int \<Rightarrow> 'i preemptions \<Rightarrow> 'i preemptions" where
  "remove_interrupt key n p =
     (let rest = AList.delete n (interrupts_of p key) in
      if rest = [] then p\<lparr>pr_interrupts := (pr_interrupts p)(key := None)\<rparr>
      else p\<lparr>pr_interrupts := (pr_interrupts p)(key \<mapsto> rest)\<rparr>)"

subsection \<open>Operations of the daemon\<close>

text \<open>
  Each announcement and each registration returns a function that works once. The state keeps those
  not used up: announcements by number, registrations by number with their key and table entry, the
  interrupts waiting to be called, and the ones that were called.
\<close>

record 'i handover =
  ho_table :: "'i preemptions"
  ho_waiting :: "(nat, string) gomap"
  ho_registered :: "(nat, string \<times> int) gomap"
  ho_next :: nat
  ho_due :: "'i list"
  ho_called :: "'i list"

definition new_handover :: "'i handover" where
  "new_handover = \<lparr>ho_table = \<lparr>pr_sequence = 0, pr_pending = (\<lambda>_. None), pr_interrupts = (\<lambda>_. None)\<rparr>,
     ho_waiting = [], ho_registered = [], ho_next = 0, ho_due = [], ho_called = []\<rparr>"

datatype 'i handover_event = Request string | Release nat | Register string 'i | Remove nat | Call 'i

fun handover_step :: "(string \<Rightarrow> string) \<Rightarrow> 'i handover \<Rightarrow> 'i handover_event \<Rightarrow> 'i handover" where
  "handover_step U h (Request name) =
     (case request (cluster_key U name) (ho_table h) of (p, due) \<Rightarrow>
        h\<lparr>ho_table := p, ho_waiting := (ho_next h, cluster_key U name) # ho_waiting h, ho_next := Suc (ho_next h),
          ho_due := ho_due h @ due\<rparr>)"
| "handover_step U h (Release w) =
     (case map_of (ho_waiting h) w of None \<Rightarrow> h
      | Some key \<Rightarrow> h\<lparr>ho_table := release key (ho_table h), ho_waiting := AList.delete w (ho_waiting h)\<rparr>)"
| "handover_step U h (Register name i) =
     (case register (cluster_key U name) i (ho_table h) of (p, n, queued) \<Rightarrow>
        h\<lparr>ho_table := p, ho_registered := (ho_next h, cluster_key U name, n) # ho_registered h, ho_next := Suc (ho_next h),
          ho_due := ho_due h @ (if queued then [i] else [])\<rparr>)"
| "handover_step U h (Remove r) =
     (case map_of (ho_registered h) r of None \<Rightarrow> h
      | Some (key, n) \<Rightarrow> h\<lparr>ho_table := remove_interrupt key n (ho_table h), ho_registered := AList.delete r (ho_registered h)\<rparr>)"
| "handover_step U h (Call i) =
     (if i \<in> set (ho_due h) then h\<lparr>ho_due := remove1 i (ho_due h), ho_called := i # ho_called h\<rparr> else h)"

subsection \<open>The invariant\<close>

definition waiters :: "'i handover \<Rightarrow> string \<Rightarrow> int" where
  "waiters h key = int (length (filter (\<lambda>e. snd e = key) (ho_waiting h)))"

text \<open>The counts are those of the operations still queued, and every interrupt in the table of a
  cluster with one queued has been called or is due.\<close>

definition handover_inv :: "'i handover \<Rightarrow> bool" where
  "handover_inv h \<longleftrightarrow>
     gomap_ok (ho_waiting h) \<and> (\<forall>w\<in>set (keys (ho_waiting h)). w < ho_next h)
   \<and> (\<forall>key. pr_pending (ho_table h) key = (if waiters h key = 0 then None else Some (waiters h key)))
   \<and> (\<forall>key. waiters h key \<noteq> 0 \<longrightarrow> snd ` set (interrupts_of (ho_table h) key) \<subseteq> set (ho_due h) \<union> set (ho_called h))"

lemma pending_waiters: "handover_inv h \<Longrightarrow> pending_of (ho_table h) key = waiters h key"
  by (simp add: handover_inv_def pending_of_def)

lemma due_or_called:
  "handover_inv h \<Longrightarrow> waiters h key \<noteq> 0 \<Longrightarrow> snd ` set (interrupts_of (ho_table h) key) \<subseteq> set (ho_due h) \<union> set (ho_called h)"
  by (simp add: handover_inv_def)

lemma waiters_nonneg [simp]: "0 \<le> waiters h key"
  by (simp add: waiters_def)

lemma count_delete:
  "gomap_ok m \<Longrightarrow> map_of m w = Some k \<Longrightarrow>
   length (filter (\<lambda>e. snd e = key) (AList.delete w m)) + (if key = k then 1 else 0) = length (filter (\<lambda>e. snd e = key) m)"
proof (induction m)
  case (Cons e m)
  have ok: "gomap_ok m" using Cons(2) by (simp add: gomap_ok_def keys_def)
  show ?case
  proof (cases "fst e = w")
    case True
    then have "map_of m w = None" "snd e = k" using Cons(2,3) by (auto simp: gomap_ok_def keys_def map_of_eq_None_iff)
    then have "AList.delete w m = m" by (simp add: delete_id map_of_eq_None_iff)
    with True \<open>snd e = k\<close> show ?thesis by auto
  next
    case False
    then have "map_of m w = Some k" using Cons(3) by (cases e) simp
    from Cons(1) [OF ok this] False show ?thesis by (cases e) (auto split: if_split_asm)
  qed
qed simp

lemma interrupts_of_upd [simp]:
  "interrupts_of (p\<lparr>pr_pending := f\<rparr>) key = interrupts_of p key"
  "interrupts_of (p\<lparr>pr_sequence := n, pr_interrupts := (pr_interrupts p)(k \<mapsto> m)\<rparr>) key = (if key = k then m else interrupts_of p key)"
  by (simp_all add: interrupts_of_def)

lemma interrupts_removed: "set (interrupts_of (remove_interrupt k n p) key) \<subseteq> set (interrupts_of p key)"
proof -
  have "set (AList.delete n m) \<subseteq> set m" for m :: "(int, 'a) gomap" by (auto simp: AList.delete_eq)
  then show ?thesis by (auto simp: remove_interrupt_def interrupts_of_def Let_def split: option.splits)
qed

lemma removed_pending [simp]: "pr_pending (remove_interrupt k n p) = pr_pending p"
  by (simp add: remove_interrupt_def Let_def)

lemma released_interrupts [simp]: "interrupts_of (release k p) = interrupts_of p"
  by (rule ext) (simp add: release_def Let_def)

lemma request_inv:
  assumes inv: "handover_inv h"
  shows "handover_inv (handover_step U h (Request name))"
proof -
  let ?k = "cluster_key U name" and ?h = "handover_step U h (Request name)"
  have w: "waiters ?h key = waiters h key + (if key = ?k then 1 else 0)" for key
    by (simp add: waiters_def request_def)
  have n: "waiters h ?k + 1 \<noteq> 0" using waiters_nonneg [of h ?k] by linarith
  have "ho_next h \<notin> set (keys (ho_waiting h))" using inv by (auto simp: handover_inv_def)
  then have "gomap_ok (ho_waiting ?h)" "\<forall>w\<in>set (keys (ho_waiting ?h)). w < ho_next ?h"
    using inv by (auto simp: handover_inv_def gomap_ok_def keys_def request_def)
  moreover have "pr_pending (ho_table ?h) key = (if waiters ?h key = 0 then None else Some (waiters ?h key))" for key
    unfolding w using inv n by (simp add: request_def pending_waiters [OF inv]) (simp add: handover_inv_def)
  moreover have "snd ` set (interrupts_of (ho_table ?h) key) \<subseteq> set (ho_due ?h) \<union> set (ho_called ?h)"
    if "waiters ?h key \<noteq> 0" for key
  proof (cases "key = ?k")
    case False
    with that w have "waiters h key \<noteq> 0" by simp
    from due_or_called [OF inv this] False show ?thesis by (simp add: request_def) blast
  qed (auto simp: request_def)
  ultimately show ?thesis unfolding handover_inv_def by blast
qed

lemma release_inv:
  assumes inv: "handover_inv h"
  shows "handover_inv (handover_step U h (Release v))"
proof (cases "map_of (ho_waiting h) v")
  case (Some k)
  let ?h = "handover_step U h (Release v)"
  have ok: "gomap_ok (ho_waiting h)" using inv by (simp add: handover_inv_def)
  have w: "waiters ?h key = waiters h key - (if key = k then 1 else 0)" for key
    using count_delete [OF ok Some, of key] by (auto simp: waiters_def Some)
  have "set (keys (ho_waiting ?h)) \<subseteq> set (keys (ho_waiting h))" by (auto simp: Some set_keys split: if_split_asm)
  then have "gomap_ok (ho_waiting ?h)" "\<forall>w\<in>set (keys (ho_waiting ?h)). w < ho_next ?h"
    using inv by (auto simp: handover_inv_def Some)
  moreover have "pr_pending (ho_table ?h) key = (if waiters ?h key = 0 then None else Some (waiters ?h key))" for key
  proof -
    have "0 \<le> waiters h k - 1" using w [of k] waiters_nonneg [of ?h k] by simp
    then have "waiters h k - 1 \<le> 0 \<longleftrightarrow> waiters h k - 1 = 0" by linarith
    then show ?thesis unfolding w using inv
      by (simp add: Some release_def Let_def pending_waiters [OF inv]) (simp add: handover_inv_def)
  qed
  moreover have "snd ` set (interrupts_of (ho_table ?h) key) \<subseteq> set (ho_due ?h) \<union> set (ho_called ?h)"
    if "waiters ?h key \<noteq> 0" for key
  proof -
    have "waiters h key \<noteq> 0" using that w [of key] waiters_nonneg [of ?h key] by (auto split: if_split_asm)
    with inv show ?thesis by (simp add: handover_inv_def Some)
  qed
  ultimately show ?thesis unfolding handover_inv_def by blast
qed (use inv in simp)

lemma register_inv:
  assumes inv: "handover_inv h"
  shows "handover_inv (handover_step U h (Register name i))"
proof -
  let ?h = "handover_step U h (Register name i)"
  have w: "waiters ?h key = waiters h key" for key by (simp add: waiters_def register_def Let_def)
  have p: "pending_of (ho_table h) (cluster_key U name) > 0 \<longleftrightarrow> waiters h (cluster_key U name) \<noteq> 0"
    using waiters_nonneg [of h "cluster_key U name"] by (simp add: pending_waiters [OF inv] less_le)
  have sub: "snd ` set (AList.update n i m) \<subseteq> insert i (snd ` set m)" for n m
    by (induction m) auto
  have "snd ` set (interrupts_of (ho_table ?h) key) \<subseteq> set (ho_due ?h) \<union> set (ho_called ?h)"
    if "waiters ?h key \<noteq> 0" for key
  proof -
    have h: "waiters h key \<noteq> 0" using that w by simp
    note old = due_or_called [OF inv h]
    show ?thesis
    proof (cases "key = cluster_key U name")
      case True
      have "snd ` set (AList.update n i (interrupts_of (ho_table h) key)) \<subseteq> insert i (set (ho_due h) \<union> set (ho_called h))" for n
        using sub [of n "interrupts_of (ho_table h) key"] old by blast
      then show ?thesis using p h True by (simp add: register_def Let_def insert_commute Un_commute)
    qed (use old in \<open>simp add: register_def Let_def, blast\<close>)
  qed
  then show ?thesis using inv w by (simp add: handover_inv_def) (auto simp: register_def Let_def)
qed

lemma handover_step_inv: "handover_inv h \<Longrightarrow> handover_inv (handover_step U h e)"
proof (cases e)
  case (Remove r)
  assume inv: "handover_inv h"
  then show ?thesis using interrupts_removed
    by (cases "map_of (ho_registered h) r") (fastforce simp: Remove handover_inv_def waiters_def)+
next
  case (Call i)
  assume inv: "handover_inv h"
  have "set (ho_due h) \<subseteq> insert i (set (remove1 i (ho_due h)))" by (metis in_set_remove1 insert_iff subsetI)
  with inv show ?thesis by (fastforce simp: Call handover_inv_def waiters_def)
qed (simp_all add: request_inv release_inv register_inv del: handover_step.simps)

subsection \<open>Properties\<close>

lemma new_handover_inv: "handover_inv new_handover"
  by (simp add: handover_inv_def new_handover_def keys_def waiters_def)

interpretation handover: started_system "handover_step U" handover_inv new_handover for U
  by unfold_locales (auto intro: handover_step_inv new_handover_inv simp del: handover_step.simps)

text \<open>C9: No announcement is lost, and none outlives its operation. However announcements,
  registrations, their removals and the calls interleave: while an operation is queued for a cluster,
  every interrupt registered for it, before or after the announcement and under any spelling of the
  name, has been called or is about to be; and when none is queued, a registration is not
  interrupted.\<close>

theorem preemption_reaches_holder:
  fixes U :: "string \<Rightarrow> string" and evs :: "'i handover_event list"
  defines "h \<equiv> foldl (handover_step U) new_handover evs"
  shows "(\<forall>w name n i. map_of (ho_waiting h) w = Some (cluster_key U name)
        \<and> map_of (interrupts_of (ho_table h) (cluster_key U name)) n = Some i \<longrightarrow> i \<in> set (ho_due h) \<union> set (ho_called h))
    \<and> (\<forall>name i. cluster_key U name \<notin> snd ` set (ho_waiting h) \<longrightarrow>
        ho_due (handover_step U h (Register name i)) = ho_due h)"
proof -
  have inv: "handover_inv h" unfolding h_def by (rule handover.inv_run)
  have "waiters h (cluster_key U name) \<noteq> 0" if "map_of (ho_waiting h) w = Some (cluster_key U name)" for w name
    using map_of_SomeD [OF that] by (force simp: waiters_def filter_empty_conv)
  moreover have "ho_due (handover_step U h (Register name i)) = ho_due h"
    if "cluster_key U name \<notin> snd ` set (ho_waiting h)" for name i
  proof -
    have "filter (\<lambda>e. snd e = cluster_key U name) (ho_waiting h) = []" using that by (force simp: filter_empty_conv)
    then have "waiters h (cluster_key U name) = 0" unfolding waiters_def by simp
    then have "pending_of (ho_table h) (cluster_key U name) = 0" by (simp add: pending_waiters [OF inv])
    then show ?thesis by (simp add: register_def Let_def)
  qed
  moreover have "i \<in> set (ho_due h) \<union> set (ho_called h)"
    if "waiters h key \<noteq> 0" "map_of (interrupts_of (ho_table h) key) n = Some i" for key n i
    using due_or_called [OF inv that(1)] map_of_SomeD [OF that(2)] by force
  ultimately show ?thesis by blast
qed

theorem preemption_reaches_holder_witness:
  "let h = foldl (handover_step id) new_handover [Request ''Demo'', Register ''demo'' True] in
     map_of (ho_waiting h) 0 = Some (cluster_key id ''demo'') \<and> True \<in> set (ho_due h) \<union> set (ho_called h)"
proof -
  let ?h = "foldl (handover_step id) new_handover [Request ''Demo'', Register ''demo'' True]"
  have "map_of (ho_waiting ?h) 0 = Some (cluster_key id ''demo'')" by code_simp
  moreover have "map_of (interrupts_of (ho_table ?h) (cluster_key id ''demo'')) 1 = Some True" by code_simp
  ultimately show ?thesis
    using preemption_reaches_holder [of id "[Request ''Demo'', Register ''demo'' True]"] unfolding Let_def by blast
qed

end
