(* ===== verification/Shell_Quote.thy ===== *)
theory Shell_Quote
  imports Go_Strings
begin

text \<open>
  \<^verbatim>\<open>src/internal/shellquote/shellquote.go\<close>: untrusted values as words of a POSIX shell, for the
  commands the daemon prints to be pasted. The contract is the shell's own reading of a word:
  \<open>shell_words\<close> is the quoting and splitting part of it, and it refuses whatever would start an
  expansion, an operator or a comment.
\<close>

subsection \<open>The code\<close>

definition is_safe :: "char \<Rightarrow> bool" where
  "is_safe r \<longleftrightarrow>
     CHR ''a'' \<le> r \<and> r \<le> CHR ''z'' \<or> CHR ''A'' \<le> r \<and> r \<le> CHR ''Z'' \<or>
     CHR ''0'' \<le> r \<and> r \<le> CHR ''9'' \<or> r \<in> set ''_@%+=:,./-''"

text \<open>Replacing a one-character string replaces each occurrence of the character.\<close>

definition replace_char :: "char \<Rightarrow> string \<Rightarrow> string \<Rightarrow> string" where
  "replace_char c new s = concat (map (\<lambda>d. if d = c then new else [d]) s)"

definition squote :: char where "squote = CHR 0x27"
definition dquote :: char where "dquote = CHR 0x22"

definition quote :: "string \<Rightarrow> string" where
  "quote value =
     (if value \<noteq> [] \<and> list_all is_safe value then value
      else [squote] @ replace_char squote [squote, dquote, squote, dquote, squote] value @ [squote])"

subsection \<open>What a shell reads\<close>

datatype quoting = Bare | Single | Double

text \<open>The words of a simple command. The accumulator is the word being read, absent between
  words. Outside quotes only safe characters and blanks are literal; inside double quotes a
  dollar, a backquote, a backslash or an exclamation mark is not. Anything else is no literal
  command and reads as nothing.\<close>

fun shell_words :: "quoting \<Rightarrow> string option \<Rightarrow> string \<Rightarrow> string list option" where
  "shell_words Bare w [] = Some (case w of None \<Rightarrow> [] | Some v \<Rightarrow> [v])"
| "shell_words Single w [] = None"
| "shell_words Double w [] = None"
| "shell_words Bare w (c # cs) =
     (let v = (case w of None \<Rightarrow> [] | Some v \<Rightarrow> v)
      in if c = squote then shell_words Single (Some v) cs
         else if c = dquote then shell_words Double (Some v) cs
         else if c = CHR '' '' then
           map_option (\<lambda>ws. (case w of None \<Rightarrow> ws | Some v \<Rightarrow> v # ws)) (shell_words Bare None cs)
         else if is_safe c then shell_words Bare (Some (v @ [c])) cs
         else None)"
| "shell_words Single w (c # cs) =
     (if c = squote then shell_words Bare w cs
      else shell_words Single (map_option (\<lambda>v. v @ [c]) w) cs)"
| "shell_words Double w (c # cs) =
     (if c = dquote then shell_words Bare w cs
      else if c \<in> {CHR 0x24, CHR 0x60, CHR 0x5C, CHR 0x21} then None
      else shell_words Double (map_option (\<lambda>v. v @ [c]) w) cs)"

lemma quotes_unsafe [simp]: "\<not> is_safe squote" "\<not> is_safe dquote" "\<not> is_safe (CHR '' '')"
  "squote \<noteq> dquote" "dquote \<noteq> squote" "squote \<noteq> CHR '' ''"
  by (simp_all add: is_safe_def squote_def dquote_def less_eq_char_def)

lemma safe_not_blank: "is_safe c \<Longrightarrow> c \<noteq> squote \<and> c \<noteq> dquote \<and> c \<noteq> CHR '' ''"
  by (auto simp: quotes_unsafe)

lemma shell_words_safe:
  "list_all is_safe v \<Longrightarrow> v \<noteq> [] \<Longrightarrow>
   shell_words Bare w (v @ rest) = shell_words Bare (Some ((case w of None \<Rightarrow> [] | Some u \<Rightarrow> u) @ v)) rest"
proof (induction v arbitrary: w)
  case (Cons c v)
  have "shell_words Bare w (c # v @ rest) =
      shell_words Bare (Some ((case w of None \<Rightarrow> [] | Some u \<Rightarrow> u) @ [c])) (v @ rest)"
    using Cons.prems safe_not_blank [of c] by (simp add: Let_def)
  then show ?case using Cons by (cases "v = []") simp_all
qed simp

lemma shell_words_replaced:
  "shell_words Single (Some w)
     (replace_char squote [squote, dquote, squote, dquote, squote] v @ squote # rest) =
   shell_words Bare (Some (w @ v)) rest"
  by (induction v arbitrary: w) (simp_all add: replace_char_def squote_def dquote_def)

lemma shell_words_quote_word:
  "shell_words Bare None (quote v @ rest) = shell_words Bare (Some v) rest"
  using shell_words_safe [of v None rest] shell_words_replaced [of "[]" v rest]
  by (simp add: quote_def)

lemma shell_words_command:
  "shell_words Bare None (join '' '' (map quote vs)) = Some vs"
proof (induction vs rule: induct_list012)
  case (2 v)
  then show ?case using shell_words_quote_word [of v "[]"] by simp
next
  case (3 v u vs)
  then show ?case by (simp add: shell_words_quote_word dquote_def squote_def)
qed simp


end
