(* ===== verification/Reboot_Log.thy ===== *)
theory Reboot_Log
  imports Go_Time
begin

text \<open>
  The log of guest reboots, \<^verbatim>\<open>src/internal/daemon/reboot.go\<close>. A probe has two halves, since the
  machine API is asked between them; status rounds run concurrently, so anything may happen to the
  log in between. Each half, and each way to forget a node, runs under the log's lock and is one step.
  The counters are 64-bit words and wrap. A missing entry and an empty map behave alike in Go, hence
  the log is just its entries.
\<close>

subsection \<open>Reboots inside the guest\<close>

record reboot_observation =
  ro_boot_time :: "64 word"
  ro_rebooted_at :: "int option"

definition no_reboot :: reboot_observation where
  "no_reboot = \<lparr>ro_boot_time = 0, ro_rebooted_at = None\<rparr>"

record reboot_probe =
  rp_key :: string
  rp_generation :: "64 word"
  rp_seq :: "64 word"

record reboot_state =
  rs_observation :: reboot_observation
  rs_generation :: "64 word"
  rs_next_seq :: "64 word"
  rs_applied_seq :: "64 word"

definition new_reboot_state :: reboot_state where
  "new_reboot_state = \<lparr>rs_observation = no_reboot, rs_generation = 0, rs_next_seq = 0, rs_applied_seq = 0\<rparr>"

type_synonym reboot_log = "(string, reboot_state) gomap"

text \<open>Reading an absent key gives the zero state.\<close>

definition reboot_entry :: "reboot_log \<Rightarrow> string \<Rightarrow> reboot_state" where
  "reboot_entry l key = (case map_of l key of Some s \<Rightarrow> s | None \<Rightarrow> new_reboot_state)"

definition begin_observe :: "reboot_log \<Rightarrow> string \<Rightarrow> reboot_log \<times> reboot_probe" where
  "begin_observe l key =
     (let s = reboot_entry l key; s = s\<lparr>rs_next_seq := rs_next_seq s + 1\<rparr>
      in (AList.update key s l,
          \<lparr>rp_key = key, rp_generation = rs_generation s, rp_seq = rs_next_seq s\<rparr>))"

text \<open>The result has the observation, the previous boot time, whether it changed, and whether the
  probe was applied at all.\<close>

definition complete_observe ::
    "reboot_log \<Rightarrow> reboot_probe \<Rightarrow> 64 word \<Rightarrow> int \<Rightarrow> reboot_log \<times> reboot_observation \<times> 64 word \<times> bool \<times> bool" where
  "complete_observe l p bootTime now =
     (case map_of l (rp_key p) of
        None \<Rightarrow> (l, no_reboot, 0, False, False)
      | Some s \<Rightarrow>
          if rp_generation p \<noteq> rs_generation s \<or> rp_seq p < rs_applied_seq s \<or> bootTime = 0
          then (l, no_reboot, 0, False, False)
          else
            (let previous = rs_observation s; s = s\<lparr>rs_applied_seq := rp_seq p\<rparr>
             in if ro_boot_time previous = 0 then
                  (let s = s\<lparr>rs_observation := \<lparr>ro_boot_time = bootTime, ro_rebooted_at = None\<rparr>\<rparr>
                   in (AList.update (rp_key p) s l, rs_observation s, 0, False, True))
                else if ro_boot_time previous = bootTime then
                  (AList.update (rp_key p) s l, previous, ro_boot_time previous, False, True)
                else
                  (let s = s\<lparr>rs_observation := \<lparr>ro_boot_time = bootTime, ro_rebooted_at = Some now\<rparr>\<rparr>
                   in (AList.update (rp_key p) s l, rs_observation s, ro_boot_time previous, True, True))))"

definition rebootNoticeTTL :: int where "rebootNoticeTTL = 15 * Minute"

definition reboot_current :: "reboot_log \<Rightarrow> string \<Rightarrow> int \<Rightarrow> reboot_observation option" where
  "reboot_current l key now =
     (case map_of l key of
        None \<Rightarrow> None
      | Some s \<Rightarrow> (case ro_rebooted_at (rs_observation s) of
          None \<Rightarrow> None
        | Some t \<Rightarrow> if time_sub now t \<ge> rebootNoticeTTL then None else Some (rs_observation s)))"

definition reset_reboot :: "reboot_state \<Rightarrow> reboot_state" where
  "reset_reboot s = s\<lparr>rs_generation := rs_generation s + 1, rs_observation := no_reboot, rs_applied_seq := 0\<rparr>"

definition reboot_forget :: "reboot_log \<Rightarrow> string \<Rightarrow> reboot_log" where
  "reboot_forget l key = AList.update key (reset_reboot (reboot_entry l key)) l"

definition reboot_forget_prefix :: "reboot_log \<Rightarrow> string \<Rightarrow> reboot_log" where
  "reboot_forget_prefix l p = map (\<lambda>(k, s). (k, if has_prefix k p then reset_reboot s else s)) l"

definition reboot_forget_all :: "reboot_log \<Rightarrow> reboot_log" where
  "reboot_forget_all l = map (\<lambda>(k, s). (k, reset_reboot s)) l"

subsection \<open>Reboot probes in flight\<close>

text \<open>What can happen to the log between the two halves of a probe, in any order.\<close>

datatype reboot_op =
    BeginProbe string
  | CompleteProbe reboot_probe "64 word" int
  | ForgetKey string
  | ForgetPrefix string
  | ForgetEverything

fun reboot_step :: "reboot_log \<Rightarrow> reboot_op \<Rightarrow> reboot_log" where
  "reboot_step l (BeginProbe k) = fst (begin_observe l k)"
| "reboot_step l (CompleteProbe p bt now) = fst (complete_observe l p bt now)"
| "reboot_step l (ForgetKey k) = reboot_forget l k"
| "reboot_step l (ForgetPrefix p) = reboot_forget_prefix l p"
| "reboot_step l ForgetEverything = reboot_forget_all l"

definition refused :: "reboot_log \<Rightarrow> reboot_probe \<Rightarrow> bool" where
  "refused l p \<longleftrightarrow> (\<forall>bt now. complete_observe l p bt now = (l, no_reboot, 0, False, False))"

text \<open>The effect of a step on one key: its sequence, generation and applied sequence.\<close>

fun entry_step :: "string \<Rightarrow> reboot_state \<Rightarrow> reboot_op \<Rightarrow> reboot_state" where
  "entry_step k s (BeginProbe k') = (if k' = k then s\<lparr>rs_next_seq := rs_next_seq s + 1\<rparr> else s)"
| "entry_step k s (CompleteProbe p bt now) =
     (if rp_key p = k \<and> rp_generation p = rs_generation s \<and> \<not> rp_seq p < rs_applied_seq s \<and> bt \<noteq> 0
      then s\<lparr>rs_applied_seq := rp_seq p,
             rs_observation := (let b = ro_boot_time (rs_observation s)
                in if b = 0 then \<lparr>ro_boot_time = bt, ro_rebooted_at = None\<rparr>
                   else if b = bt then rs_observation s
                   else \<lparr>ro_boot_time = bt, ro_rebooted_at = Some now\<rparr>)\<rparr>
      else s)"
| "entry_step k s (ForgetKey k') = (if k' = k then reset_reboot s else s)"
| "entry_step k s (ForgetPrefix p) = (if has_prefix k p then reset_reboot s else s)"
| "entry_step k s ForgetEverything = reset_reboot s"

lemma map_of_reset:
  "map_of (map (\<lambda>(k, s). (k, if P k then f s else s)) l) k = map_option (\<lambda>s. if P k then f s else s) (map_of l k)"
  by (induction l) auto

lemma map_of_reset_all: "map_of (map (\<lambda>(k, s). (k, f s)) l) k = map_option f (map_of l k)"
  by (induction l) auto

lemma reboot_state_same: "s\<lparr>rs_observation := rs_observation s\<rparr> = s"
  by simp

lemma map_of_reboot_step:
  assumes "map_of l k = Some s"
  shows "map_of (reboot_step l op) k = Some (entry_step k s op)"
proof (cases op)
  case (CompleteProbe p bt now)
  show ?thesis
  proof (cases "rp_key p = k")
    case True
    with assms show ?thesis
      by (simp add: CompleteProbe complete_observe_def update_conv' Let_def)
  next
    case False
    then show ?thesis
      using assms by (simp add: CompleteProbe complete_observe_def update_conv' Let_def split: option.split)
  qed
qed (use assms in \<open>auto simp: begin_observe_def reboot_forget_def reboot_forget_prefix_def
       reboot_forget_all_def map_of_reset map_of_reset_all update_conv' reboot_entry_def Let_def\<close>)

lemma map_of_reboot_run:
  "map_of l k = Some s \<Longrightarrow> map_of (foldl reboot_step l ops) k = Some (foldl (entry_step k) s ops)"
  by (induction ops arbitrary: l s) (simp_all add: map_of_reboot_step)

text \<open>A probe is stale for a state of its key when the node was forgotten since it began, or a
  probe that began after it has been applied. Staleness lasts as long as the counters do not wrap.\<close>

definition stale :: "reboot_state \<Rightarrow> reboot_probe \<Rightarrow> bool" where
  "stale s p \<longleftrightarrow> rp_generation p < rs_generation s \<or>
     rp_generation p = rs_generation s \<and> rp_seq p < rs_applied_seq s"

lemma stale_refused: "map_of l (rp_key p) = Some s \<Longrightarrow> stale s p \<Longrightarrow> refused l p"
  by (auto simp: refused_def complete_observe_def stale_def)

lemma entry_step_bounds:
  "unat (rs_generation (entry_step k s op)) \<le> unat (rs_generation s) + 1"
  "unat (rs_next_seq (entry_step k s op)) \<le> unat (rs_next_seq s) + 1"
proof -
  show "unat (rs_generation (entry_step k s op)) \<le> unat (rs_generation s) + 1"
    using unat_succ [of "rs_generation s"] by (cases op) (simp_all add: reset_reboot_def)
  show "unat (rs_next_seq (entry_step k s op)) \<le> unat (rs_next_seq s) + 1"
    using unat_succ [of "rs_next_seq s"] by (cases op) (simp_all add: reset_reboot_def)
qed

lemma entry_step_mono:
  "unat (rs_generation s) + 1 < 2 ^ 64 \<Longrightarrow> rs_generation s \<le> rs_generation (entry_step k s op)"
  "unat (rs_next_seq s) + 1 < 2 ^ 64 \<Longrightarrow> rs_next_seq s \<le> rs_next_seq (entry_step k s op)"
proof -
  assume "unat (rs_generation s) + 1 < 2 ^ 64"
  from word_less_succ [OF this] show "rs_generation s \<le> rs_generation (entry_step k s op)"
    by (cases op) (simp_all add: reset_reboot_def order_less_imp_le)
next
  assume "unat (rs_next_seq s) + 1 < 2 ^ 64"
  from word_less_succ [OF this] show "rs_next_seq s \<le> rs_next_seq (entry_step k s op)"
    by (cases op) (simp_all add: reset_reboot_def order_less_imp_le)
qed

lemma entry_step_stale:
  assumes "unat (rs_generation s) + 1 < 2 ^ 64" "stale s p"
  shows "stale (entry_step k s op) p"
  using assms(2) word_less_succ [OF assms(1)]
  by (cases op) (auto simp: stale_def reset_reboot_def intro: order.strict_trans)

lemma entry_run_bounds:
  "unat (rs_generation (foldl (entry_step k) s ops)) \<le> unat (rs_generation s) + length ops"
  "unat (rs_next_seq (foldl (entry_step k) s ops)) \<le> unat (rs_next_seq s) + length ops"
proof (induction ops arbitrary: s)
  case (Cons op ops)
  { case 1
    show ?case
      using Cons.IH(1) [of "entry_step k s op"] entry_step_bounds(1) [of k s op] by simp
  next
    case 2
    show ?case
      using Cons.IH(2) [of "entry_step k s op"] entry_step_bounds(2) [of k s op] by simp }
qed simp_all

lemma entry_step_room:
  "unat (rs_generation s) + length (op # ops) < N \<Longrightarrow>
   unat (rs_generation (entry_step k s op)) + length ops < N \<and> unat (rs_generation s) + 1 < N"
  "unat (rs_next_seq s) + length (op # ops) < N \<Longrightarrow>
   unat (rs_next_seq (entry_step k s op)) + length ops < N \<and> unat (rs_next_seq s) + 1 < N"
  using entry_step_bounds [of k s op] by (cases ops; force)+

lemma entry_run_mono:
  "unat (rs_generation s) + length ops < 2 ^ 64 \<Longrightarrow> rs_generation s \<le> rs_generation (foldl (entry_step k) s ops)"
  "unat (rs_next_seq s) + length ops < 2 ^ 64 \<Longrightarrow> rs_next_seq s \<le> rs_next_seq (foldl (entry_step k) s ops)"
proof (induction ops arbitrary: s)
  case (Cons op ops)
  note b = entry_step_bounds [of k s op]
  { case 1
    note n = entry_step_room(1) [OF 1]
    then show ?case
      using Cons.IH(1) [of "entry_step k s op"] entry_step_mono(1) [of s k op]
      by (auto intro: order_trans)
  next
    case 2
    note n = entry_step_room(2) [OF 2]
    then show ?case
      using Cons.IH(2) [of "entry_step k s op"] entry_step_mono(2) [of s k op]
      by (auto intro: order_trans) }
qed simp_all

lemma entry_run_stale:
  "unat (rs_generation s) + length ops < 2 ^ 64 \<Longrightarrow> stale s p \<Longrightarrow> stale (foldl (entry_step k) s ops) p"
proof (induction ops arbitrary: s)
  case (Cons op ops)
  note n = entry_step_room(1) [OF Cons.prems(1), of k]
  show ?case
    using Cons.IH [OF conjunct1 [OF n] entry_step_stale [OF conjunct2 [OF n] Cons.prems(2)]] by simp
qed simp

lemma reboot_entry_step:
  "unat (rs_generation (reboot_entry (reboot_step l op) k)) \<le> unat (rs_generation (reboot_entry l k)) + 1"
  "unat (rs_next_seq (reboot_entry (reboot_step l op) k)) \<le> unat (rs_next_seq (reboot_entry l k)) + 1"
proof -
  have "reboot_entry (reboot_step l op) k \<in> {reboot_entry l k, entry_step k (reboot_entry l k) op}"
  proof (cases "map_of l k")
    case None
    then show ?thesis
      by (cases op) (auto simp: reboot_entry_def begin_observe_def complete_observe_def reboot_forget_def
          reboot_forget_prefix_def reboot_forget_all_def map_of_reset map_of_reset_all update_conv' Let_def
          split: option.split)
  next
    case (Some s)
    then show ?thesis by (simp add: reboot_entry_def map_of_reboot_step)
  qed
  then show "unat (rs_generation (reboot_entry (reboot_step l op) k)) \<le> unat (rs_generation (reboot_entry l k)) + 1"
    "unat (rs_next_seq (reboot_entry (reboot_step l op) k)) \<le> unat (rs_next_seq (reboot_entry l k)) + 1"
    using entry_step_bounds [of k "reboot_entry l k" op] by auto
qed

lemma reboot_entry_run:
  "unat (rs_generation (reboot_entry (foldl reboot_step [] ops) k)) \<le> length ops"
  "unat (rs_next_seq (reboot_entry (foldl reboot_step [] ops) k)) \<le> length ops"
proof (induction ops rule: rev_induct)
  case Nil
  { case 1 show ?case by (simp add: reboot_entry_def new_reboot_state_def)
  next case 2 show ?case by (simp add: reboot_entry_def new_reboot_state_def) }
next
  case (snoc op ops)
  { case 1 show ?case
      using snoc.IH(1) reboot_entry_step(1) [of "foldl reboot_step [] ops" op k] by simp
  next case 2 show ?case
      using snoc.IH(2) reboot_entry_step(2) [of "foldl reboot_step [] ops" op k] by simp }
qed

lemma begin_observe_entry:
  assumes "begin_observe l k = (m, p)"
  obtains s where "map_of m k = Some s" "rp_key p = k" "rp_generation p = rs_generation s"
    "rp_seq p = rs_next_seq s" "s = (reboot_entry l k)\<lparr>rs_next_seq := rs_next_seq (reboot_entry l k) + 1\<rparr>"
  using assms that by (auto simp: begin_observe_def Let_def update_conv')

text \<open>The operations after which the daemon has forgotten a node.\<close>

fun forgets :: "string \<Rightarrow> reboot_op \<Rightarrow> bool" where
  "forgets k (ForgetKey k') = (k' = k)"
| "forgets k (ForgetPrefix p) = has_prefix k p"
| "forgets k ForgetEverything = True"
| "forgets k _ = False"

lemma forget_makes_stale:
  assumes "unat (rs_generation s) + 1 < 2 ^ 64" "rp_generation p \<le> rs_generation s" "forgets k op"
  shows "stale (entry_step k s op) p"
proof -
  from word_less_succ [OF assms(1)] assms(2) have "rp_generation p < rs_generation s + 1"
    by (rule le_less_trans [rotated])
  then show ?thesis using assms(3) by (cases op) (simp_all add: stale_def reset_reboot_def)
qed

lemma completion_makes_stale:
  assumes "rp_key q = k" "bt \<noteq> 0" "rp_generation p \<le> rp_generation q" "rp_generation q \<le> rs_generation s"
    and "rp_seq p < rp_seq q"
  shows "stale (entry_step k s (CompleteProbe q bt now)) p"
  using assms by (auto simp: stale_def not_less intro: order.strict_trans order_less_le_trans)

lemma stale_run_refused:
  assumes "map_of l (rp_key p) = Some s" "stale s p" "unat (rs_generation s) + length ops < 2 ^ 64"
  shows "refused (foldl reboot_step l ops) p"
  using stale_refused [OF map_of_reboot_run [OF assms(1)]] entry_run_stale [OF assms(3) assms(2)] by blast

lemma forgotten_probe_refused:
  assumes b: "begin_observe (foldl reboot_step [] before) k = (l, p)" and f: "forgets k op"
    and n: "length before + length mid + length after + 2 < (2 :: nat) ^ 64"
  shows "refused (foldl reboot_step l (mid @ op # after)) p"
proof -
  from b obtain s where s: "map_of l k = Some s" "rp_key p = k" "rp_generation p = rs_generation s"
    "s = (reboot_entry (foldl reboot_step [] before) k)
       \<lparr>rs_next_seq := rs_next_seq (reboot_entry (foldl reboot_step [] before) k) + 1\<rparr>"
    by (rule begin_observe_entry) blast
  define s1 where "s1 = foldl (entry_step k) s mid"
  have g: "unat (rs_generation s) \<le> length before"
    using reboot_entry_run(1) [of before k] by (simp add: s(4))
  have room: "unat (rs_generation s) + length mid < 2 ^ 64" using g n by linarith
  have g1: "unat (rs_generation s1) \<le> length before + length mid"
    using entry_run_bounds(1) [of k s mid] g unfolding s1_def by linarith
  have le: "rp_generation p \<le> rs_generation s1"
    using entry_run_mono(1) [OF room, of k] by (simp add: s(3) s1_def)
  have room1: "unat (rs_generation s1) + 1 < 2 ^ 64" using g1 n by linarith
  have st: "stale (entry_step k s1 op) p" by (rule forget_makes_stale [OF room1 le f])
  have room2: "unat (rs_generation (entry_step k s1 op)) + length after < 2 ^ 64"
    using entry_step_bounds(1) [of k s1 op] g1 n by linarith
  have "map_of (reboot_step (foldl reboot_step l mid) op) (rp_key p) = Some (entry_step k s1 op)"
    unfolding s1_def s(2) by (rule map_of_reboot_step [OF map_of_reboot_run [OF s(1)]])
  from stale_run_refused [OF this st room2] show ?thesis by simp
qed

lemma later_probe_follows:
  assumes b: "begin_observe (foldl reboot_step [] before) k = (l, p)"
    and q: "begin_observe (foldl reboot_step l mid) k = (m, q)"
    and n: "length before + length mid + 2 < (2 :: nat) ^ 64"
  obtains t where "map_of m k = Some t" "rp_generation q = rs_generation t"
    "unat (rs_generation t) \<le> length before + 1 + length mid"
    "rp_generation p \<le> rp_generation q" "rp_seq p < rp_seq q"
proof -
  from b obtain s where s: "map_of l k = Some s" "rp_generation p = rs_generation s" "rp_seq p = rs_next_seq s"
    by (rule begin_observe_entry) blast
  from q obtain t where t: "map_of m k = Some t" "rp_generation q = rs_generation t" "rp_seq q = rs_next_seq t"
    "t = (reboot_entry (foldl reboot_step l mid) k)
       \<lparr>rs_next_seq := rs_next_seq (reboot_entry (foldl reboot_step l mid) k) + 1\<rparr>"
    by (rule begin_observe_entry) blast
  have "s = reboot_entry (foldl reboot_step [] (before @ [BeginProbe k])) k"
    using s(1) b by (simp add: reboot_entry_def)
  then have sb: "unat (rs_generation s) \<le> length before + 1" "unat (rs_next_seq s) \<le> length before + 1"
    using reboot_entry_run [of "before @ [BeginProbe k]" k] by simp_all
  define s1 where "s1 = foldl (entry_step k) s mid"
  have "reboot_entry (foldl reboot_step l mid) k = s1"
    using map_of_reboot_run [OF s(1), of mid] by (simp add: reboot_entry_def s1_def)
  then have t': "rs_generation t = rs_generation s1" "rs_next_seq t = rs_next_seq s1 + 1"
    by (simp_all add: t(4))
  have s1b: "unat (rs_generation s1) \<le> length before + 1 + length mid"
    "unat (rs_next_seq s1) \<le> length before + 1 + length mid"
    using entry_run_bounds [of k s mid] sb unfolding s1_def by linarith+
  have "rp_generation p \<le> rp_generation q"
    unfolding s(2) t(2) t' s1_def by (rule entry_run_mono(1)) (use sb n in linarith)
  moreover have "rs_next_seq s \<le> rs_next_seq s1"
    unfolding s1_def by (rule entry_run_mono(2)) (use sb n in linarith)
  then have "rp_seq p < rp_seq q"
    unfolding s(3) t(3) t' by (rule le_less_trans) (rule word_less_succ, use s1b n in linarith)
  ultimately show thesis using that [OF t(1) t(2)] s1b(1) t'(1) by simp
qed

lemma overtaken_probe_refused:
  assumes b: "begin_observe (foldl reboot_step [] before) k = (l, p)"
    and q: "begin_observe (foldl reboot_step l mid) k = (m, q)" and bt: "bt \<noteq> 0"
    and n: "length before + length mid + length later + length after + 3 < (2 :: nat) ^ 64"
  shows "refused (foldl reboot_step m (later @ CompleteProbe q bt now # after)) p"
proof -
  have keys: "rp_key p = k" "rp_key q = k" using b q by (auto simp: begin_observe_def Let_def)
  have "length before + length mid + 2 < (2 :: nat) ^ 64" using n by linarith
  from later_probe_follows [OF b q this] obtain t where t: "map_of m k = Some t"
    "rp_generation q = rs_generation t" "unat (rs_generation t) \<le> length before + 1 + length mid"
    "rp_generation p \<le> rp_generation q" "rp_seq p < rp_seq q" .
  define u where "u = foldl (entry_step k) t later"
  have tu: "rp_generation q \<le> rs_generation u"
    unfolding u_def t(2) by (rule entry_run_mono(1)) (use t(3) n in linarith)
  have ub: "unat (rs_generation u) \<le> length before + 1 + length mid + length later"
    using entry_run_bounds(1) [of k t later] t(3) unfolding u_def by linarith
  have st: "stale (entry_step k u (CompleteProbe q bt now)) p"
    by (rule completion_makes_stale [OF keys(2) bt t(4) tu t(5)])
  have room: "unat (rs_generation (entry_step k u (CompleteProbe q bt now))) + length after < 2 ^ 64"
    using entry_step_bounds(1) [of k u "CompleteProbe q bt now"] ub n by linarith
  have "map_of (reboot_step (foldl reboot_step m later) (CompleteProbe q bt now)) (rp_key p) =
      Some (entry_step k u (CompleteProbe q bt now))"
    unfolding u_def keys(1) by (rule map_of_reboot_step [OF map_of_reboot_run [OF t(1)]])
  from stale_run_refused [OF this st room] show ?thesis by simp
qed

text \<open>C14: A boot time that arrives late is never taken for a reboot. Whatever else the concurrent
  status rounds do in between, a probe is refused - the log stays as it is and no reboot is reported -
  once the daemon has forgotten the node (a relaunch, a removal, a stop of the cluster), and once a
  probe of the same node that began after it has answered.\<close>

theorem late_reboot_probe_refused:
  assumes "begin_observe (foldl reboot_step [] before) k = (l, p)"
    and "length before + length mid + length later + length after + 3 < (2 :: nat) ^ 64"
  shows "(\<forall>op. forgets k op \<longrightarrow> refused (foldl reboot_step l (mid @ op # after)) p) \<and>
    (\<forall>m q bt now. begin_observe (foldl reboot_step l mid) k = (m, q) \<and> bt \<noteq> 0 \<longrightarrow>
       refused (foldl reboot_step m (later @ CompleteProbe q bt now # after)) p)"
proof -
  have "length before + length mid + length after + 2 < (2 :: nat) ^ 64" using assms(2) by linarith
  from forgotten_probe_refused [OF assms(1) _ this] overtaken_probe_refused [OF assms(1) _ _ assms(2)]
  show ?thesis by blast
qed

theorem late_reboot_probe_refused_witness:
  "refused (foldl reboot_step (fst (begin_observe [] ''dev/w1'')) [ForgetPrefix ''dev/'', BeginProbe ''dev/w1''])
     (snd (begin_observe [] ''dev/w1''))"
proof -
  have "begin_observe (foldl reboot_step [] []) ''dev/w1'' =
      (fst (begin_observe [] ''dev/w1''), snd (begin_observe [] ''dev/w1''))"
    by simp
  from late_reboot_probe_refused [OF this, of "[]" "[]" "[BeginProbe ''dev/w1'']"]
  have "\<forall>op. forgets ''dev/w1'' op \<longrightarrow>
      refused (foldl reboot_step (fst (begin_observe [] ''dev/w1'')) ([] @ op # [BeginProbe ''dev/w1'']))
        (snd (begin_observe [] ''dev/w1''))"
    by simp
  moreover have "forgets ''dev/w1'' (ForgetPrefix ''dev/'')" by (simp add: has_prefix_def)
  ultimately show ?thesis by fastforce
qed

end
