(* ===== verification/Readiness_Log.thy ===== *)
theory Readiness_Log
  imports Node_Status
begin

text \<open>
  How long a cluster's Kubernetes has been failing, \<^verbatim>\<open>src/internal/daemon/readiness_log.go\<close>. The log
  keeps one run per cluster; the reference is the whole history of observations.
\<close>

subsection \<open>How long Kubernetes has been failing\<close>

record unready_run =
  ur_since :: int
  ur_last :: int

type_synonym readiness_log = "(string, unready_run) gomap"

definition unreadyRunAbandonWindow :: int where "unreadyRunAbandonWindow = 10 * Minute"

definition readiness_observe ::
    "readiness_log \<Rightarrow> string \<Rightarrow> bool \<Rightarrow> int \<Rightarrow> readiness_log \<times> int option" where
  "readiness_observe l name ready now =
     (if ready then (AList.delete name l, None)
      else
        (let since = (case map_of l name of
               None \<Rightarrow> now
             | Some r \<Rightarrow> if time_sub now (ur_last r) > unreadyRunAbandonWindow \<or> now < ur_since r
                         then now else ur_since r)
         in (AList.update name \<lparr>ur_since = since, ur_last = now\<rparr> l, Some since)))"

definition readiness_forget :: "readiness_log \<Rightarrow> string \<Rightarrow> readiness_log" where
  "readiness_forget l name = AList.delete name l"

definition observe_readiness_one ::
    "int \<Rightarrow> cluster_status \<Rightarrow> readiness_log \<Rightarrow> readiness_log \<times> cluster_status" where
  "observe_readiness_one now c l =
     (if pi_cni (c_intent c) = [] \<or> \<not> c_running c then (readiness_forget l (c_name c), c)
      else (case readiness_observe l (c_name c) (c_kubernetes_ready c) now of
          (l', since) \<Rightarrow> (l', c\<lparr>c_not_ready_since := since\<rparr>)))"

definition observe_kubernetes_readiness ::
    "readiness_log \<Rightarrow> cluster_status list \<Rightarrow> int \<Rightarrow> readiness_log \<times> cluster_status list" where
  "observe_kubernetes_readiness l statuses now =
     foldl (\<lambda>(l, out) c. case observe_readiness_one now c l of (l', c') \<Rightarrow> (l', out @ [c'])) (l, []) statuses"

subsection \<open>The age of a readiness failure\<close>

text \<open>The readiness history of one cluster, newest first: a failure at a time, or anything that ends
  a run - a success, or the daemon forgetting the cluster.\<close>

datatype readiness_event = Failed int | Cleared

datatype readiness_op =
    ObserveReadiness string bool int
  | ForgetReadiness string
  | ForgetAllReadiness

fun readiness_step :: "readiness_log \<Rightarrow> readiness_op \<Rightarrow> readiness_log" where
  "readiness_step l (ObserveReadiness name ready now) = fst (readiness_observe l name ready now)"
| "readiness_step l (ForgetReadiness name) = readiness_forget l name"
| "readiness_step l ForgetAllReadiness = []"

fun readiness_history :: "string \<Rightarrow> readiness_op list \<Rightarrow> readiness_event list" where
  "readiness_history name [] = []"
| "readiness_history name (ObserveReadiness name' ready now # ops) =
     (if name' = name then (if ready then Cleared else Failed now) # readiness_history name ops
      else readiness_history name ops)"
| "readiness_history name (ForgetReadiness name' # ops) =
     (if name' = name then Cleared # readiness_history name ops else readiness_history name ops)"
| "readiness_history name (ForgetAllReadiness # ops) = Cleared # readiness_history name ops"

text \<open>When the current run of failures began, read off the history: a failure continues the one
  before it unless nobody looked for longer than the window.\<close>

fun run_start :: "readiness_event list \<Rightarrow> int option" where
  "run_start (Failed t # Failed u # h) =
     (if t - u \<le> unreadyRunAbandonWindow then run_start (Failed u # h) else Some t)"
| "run_start (Failed t # h) = Some t"
| "run_start h = None"

fun failure_times :: "readiness_event list \<Rightarrow> int list" where
  "failure_times [] = []"
| "failure_times (Failed t # h) = t # failure_times h"
| "failure_times (Cleared # h) = failure_times h"

definition run_of :: "readiness_event list \<Rightarrow> unready_run option" where
  "run_of h = (case h of
     Failed t # _ \<Rightarrow> map_option (\<lambda>s. \<lparr>ur_since = s, ur_last = t\<rparr>) (run_start h) | _ \<Rightarrow> None)"

lemma run_start_Failed: "\<exists>s. run_start (Failed t # h) = Some s"
proof (induction h arbitrary: t)
  case (Cons e h)
  then show ?case by (cases e) auto
qed simp

lemma run_start_le:
  "sorted_wrt (\<ge>) (failure_times (Failed t # h)) \<Longrightarrow> run_start (Failed t # h) = Some s \<Longrightarrow> s \<le> t"
proof (induction h arbitrary: t)
  case (Cons e h)
  then show ?case by (cases e) (force split: if_splits)+
qed simp

lemma observe_run_of:
  assumes "map_of l name = run_of h" "sorted_wrt (\<ge>) (failure_times (Failed now # h))"
  shows "map_of (fst (readiness_observe l name False now)) name = run_of (Failed now # h)"
    and "snd (readiness_observe l name False now) = run_start (Failed now # h)"
proof -
  have w: "unreadyRunAbandonWindow < time_sub now u \<longleftrightarrow> unreadyRunAbandonWindow < now - u" for u
    by (rule time_sub_greater) (simp_all add: unreadyRunAbandonWindow_def duration_consts)
  consider "h = [] \<or> hd h = Cleared" | u h' where "h = Failed u # h'"
    by (metis list.collapse readiness_event.exhaust)
  then have "map_of (fst (readiness_observe l name False now)) name = run_of (Failed now # h) \<and>
      snd (readiness_observe l name False now) = run_start (Failed now # h)"
  proof cases
    case 1
    then have n: "run_of h = None" "run_start (Failed now # h) = Some now"
      by (cases h; auto simp: run_of_def)+
    then show ?thesis
      using assms(1) by (simp add: readiness_observe_def run_of_def update_conv')
  next
    case 2
    then obtain s where s: "run_start (Failed u # h') = Some s" using run_start_Failed by blast
    have "s \<le> now"
      using run_start_le [of u h' s] s assms(2) 2 by fastforce
    then show ?thesis
      using assms(1) 2 s by (simp add: readiness_observe_def run_of_def update_conv' w)
  qed
  then show "map_of (fst (readiness_observe l name False now)) name = run_of (Failed now # h)"
    "snd (readiness_observe l name False now) = run_start (Failed now # h)" by simp_all
qed

lemma readiness_log_run:
  "sorted_wrt (\<ge>) (failure_times (readiness_history name (rev ops))) \<Longrightarrow>
   map_of (foldl readiness_step [] ops) name = run_of (readiness_history name (rev ops))"
proof (induction ops rule: rev_induct)
  case (snoc op ops)
  define h where "h = readiness_history name (rev ops)"
  have s: "sorted_wrt (\<ge>) (failure_times h)"
    using snoc.prems unfolding h_def by (cases op) (auto split: if_splits)
  with snoc.IH have IH: "map_of (foldl readiness_step [] ops) name = run_of h" by (simp add: h_def)
  show ?case
  proof (cases op)
    case (ObserveReadiness name' ready now)
    show ?thesis
    proof (cases "name' = name \<and> \<not> ready")
      case True
      with snoc.prems ObserveReadiness have "sorted_wrt (\<ge>) (failure_times (Failed now # h))"
        by (simp add: h_def)
      from observe_run_of(1) [OF IH this] True ObserveReadiness show ?thesis by (simp add: h_def)
    next
      case False
      then show ?thesis
        using IH ObserveReadiness
        by (auto simp: readiness_observe_def update_conv' delete_conv' run_of_def h_def Let_def)
    qed
  qed (use IH in \<open>auto simp: readiness_forget_def delete_conv' run_of_def h_def\<close>)
qed (simp add: run_of_def)

text \<open>What an age of a failure proves: the daemon saw the cluster fail at its start, now, and in
  between without ever looking away for longer than the window.\<close>

definition watched :: "readiness_event list \<Rightarrow> int \<Rightarrow> bool" where
  "watched h s \<longleftrightarrow> (\<exists>ts rest. h = map Failed ts @ rest \<and> ts \<noteq> [] \<and> last ts = s \<and>
     successively (\<lambda>t u. t - u \<le> unreadyRunAbandonWindow) ts)"

lemma watched_Cons:
  assumes "watched (Failed u # h) s" "t - u \<le> unreadyRunAbandonWindow"
  shows "watched (Failed t # Failed u # h) s"
proof -
  from assms(1) obtain ts rest where ts: "Failed u # h = map Failed ts @ rest" "ts \<noteq> []" "last ts = s"
    "successively (\<lambda>t u. t - u \<le> unreadyRunAbandonWindow) ts"
    by (auto simp: watched_def)
  then have "hd ts = u" by (cases ts) auto
  then have "successively (\<lambda>t u. t - u \<le> unreadyRunAbandonWindow) (t # ts)"
    using ts assms(2) by (cases ts) auto
  then show ?thesis
    unfolding watched_def using ts by (intro exI [of _ "t # ts"] exI [of _ rest]) simp
qed

lemma watched_single: "watched (Failed t # h) t"
  unfolding watched_def by (intro exI [of _ "[t]"] exI [of _ h]) simp

lemma run_start_watched: "run_start h = Some s \<Longrightarrow> watched h s"
  by (induction h rule: run_start.induct) (auto intro: watched_Cons watched_single split: if_splits)

text \<open>C37: The age the daemon gives a readiness failure is exact. Over any interleaving of observations
  of any clusters and of forgetting them, with a clock that does not go back, an observed failure is
  dated by the start of the current run in the history; that run is uninterrupted by a success and has
  no gap longer than ten minutes.\<close>

theorem readiness_age_exact:
  assumes "sorted_wrt (\<ge>) (now # failure_times (readiness_history name (rev ops)))"
  shows "snd (readiness_observe (foldl readiness_step [] ops) name False now) =
      run_start (Failed now # readiness_history name (rev ops)) \<and>
    (\<exists>s. run_start (Failed now # readiness_history name (rev ops)) = Some s \<and>
       watched (Failed now # readiness_history name (rev ops)) s)"
proof -
  have "sorted_wrt (\<ge>) (failure_times (readiness_history name (rev ops)))" using assms by simp
  from observe_run_of(2) [OF readiness_log_run [OF this]] assms
  show ?thesis using run_start_Failed run_start_watched by fastforce
qed

theorem readiness_age_exact_witness:
  "snd (readiness_observe (foldl readiness_step []
      [ObserveReadiness ''dev'' False 0, ObserveReadiness ''lab'' True 5,
       ObserveReadiness ''dev'' False Minute]) ''dev'' False (2 * Minute)) = Some 0"
  using readiness_age_exact [of "2 * Minute" "''dev''" "[ObserveReadiness ''dev'' False 0,
      ObserveReadiness ''lab'' True 5, ObserveReadiness ''dev'' False Minute]"]
  by (simp add: unreadyRunAbandonWindow_def duration_consts)

end
