(* ===== verification/Node_Tracking.thy ===== *)
theory Node_Tracking
  imports Reboot_Log Readiness_Log
begin

text \<open>
  What the daemon remembers of its nodes between status rounds, \<^verbatim>\<open>src/internal/daemon/node_stall.go\<close>:
  when each VM was started, when a node went silent, which stalls were already reported. Status rounds
  run concurrently, so each log has its own lock and every operation below is one step.
\<close>

subsection \<open>Keys\<close>

definition node_key :: "string \<Rightarrow> string \<Rightarrow> string" where
  "node_key cl nd = cl @ ''/'' @ nd"

definition forget_prefix :: "(string, 'v) gomap \<Rightarrow> string \<Rightarrow> (string, 'v) gomap" where
  "forget_prefix entries p = filter (\<lambda>(k, _). \<not> has_prefix k p) entries"

lemma map_of_forget_prefix:
  "map_of (forget_prefix m p) k = (if has_prefix k p then None else map_of m k)"
  by (induction m) (auto simp: forget_prefix_def)

text \<open>Dropping a cluster's keys drops no other cluster's, since a cluster name has no slash.\<close>

lemma node_key_prefix:
  assumes "CHR ''/'' \<notin> set c" "CHR ''/'' \<notin> set d"
  shows "has_prefix (node_key c n) (d @ ''/'') \<longleftrightarrow> c = d"
proof
  assume "has_prefix (node_key c n) (d @ ''/'')"
  then obtain t where "c @ ''/'' @ n = d @ ''/'' @ t"
    by (auto simp: node_key_def has_prefix_iff)
  then have "takeWhile (\<lambda>x. x \<noteq> CHR ''/'') (c @ ''/'' @ n) = takeWhile (\<lambda>x. x \<noteq> CHR ''/'') (d @ ''/'' @ t)"
    by simp
  moreover have "takeWhile (\<lambda>x. x \<noteq> CHR ''/'') (e @ ''/'' @ r) = e" if "CHR ''/'' \<notin> set e" for e r
    using that by (induction e) auto
  ultimately show "c = d" using assms by simp
qed (simp add: node_key_def has_prefix_iff)

lemma node_key_inj:
  "CHR ''/'' \<notin> set c \<Longrightarrow> CHR ''/'' \<notin> set d \<Longrightarrow> node_key c n = node_key d m \<longleftrightarrow> c = d \<and> n = m"
  using node_key_prefix [of c d n] by (auto simp: node_key_def has_prefix_iff)

subsection \<open>When a node went silent\<close>

record node_reachability =
  re_answered :: bool
  re_since :: "int option"

type_synonym reachability_log = "(string, node_reachability) gomap"

definition reachability_observe ::
    "reachability_log \<Rightarrow> string \<Rightarrow> phase \<Rightarrow> int \<Rightarrow> reachability_log \<times> int option" where
  "reachability_observe l key p now =
     (if p = PhaseStopped \<or> p = PhaseSuspended then (AList.delete key l, None)
      else if p = PhaseUnreachable then
        (case map_of l key of
           None \<Rightarrow> (l, None)
         | Some entry \<Rightarrow>
             if \<not> re_answered entry then (l, None)
             else (case re_since entry of
                 Some since \<Rightarrow> (l, Some since)
               | None \<Rightarrow> (AList.update key (entry\<lparr>re_since := Some now\<rparr>) l, Some now)))
      else (AList.update key \<lparr>re_answered = True, re_since = None\<rparr> l, None))"

definition reachability_forget :: "reachability_log \<Rightarrow> string \<Rightarrow> reachability_log" where
  "reachability_forget l key = AList.delete key l"

subsection \<open>Which stalls were reported\<close>

type_synonym stall_log = "(string, int) gomap"

definition stall_observe ::
    "stall_log \<Rightarrow> string \<Rightarrow> bool \<Rightarrow> int \<Rightarrow> stall_log \<times> bool \<times> int \<times> bool" where
  "stall_observe l key stalled age =
     (case map_of l key of
        None \<Rightarrow> if stalled then (AList.update key age l, True, 0, False) else (l, False, 0, False)
      | Some previous \<Rightarrow>
          if stalled then (AList.update key age l, False, 0, True)
          else (AList.delete key l, False, previous, True))"

definition stall_forget :: "stall_log \<Rightarrow> string \<Rightarrow> stall_log" where
  "stall_forget l key = AList.delete key l"

definition nodeBootWindow :: int where "nodeBootWindow = Minute"
definition nodeStallThreshold :: int where "nodeStallThreshold = 3 * nodeBootWindow"

datatype stall_line =
    StoppedAnswering string string int
  | NeverAnswered string string int
  | AnsweredAgain string string int phase

definition log_node_stall ::
    "string \<Rightarrow> int \<Rightarrow> node_status \<Rightarrow> stall_log \<times> stall_line list \<Rightarrow> stall_log \<times> stall_line list" where
  "log_node_stall cluster_name now n = (\<lambda>(l, out).
     let key = node_key cluster_name (n_name n) in
     if phase_stopped (n_phase n) then (stall_forget l key, out)
     else
       (let age = unreachable_for n now;
            stalled = (n_phase n = PhaseUnreachable \<and> age > nodeStallThreshold);
            (l, crossed, recoveredAfter, wasStalled) = stall_observe l key stalled age
        in (l, out @
              (if crossed \<and> answered_since_start n then [StoppedAnswering cluster_name (n_name n) age]
               else if crossed then [NeverAnswered cluster_name (n_name n) age]
               else if \<not> stalled \<and> wasStalled then
                 [AnsweredAgain cluster_name (n_name n) recoveredAfter (n_phase n)]
               else []))))"

definition log_node_stalls ::
    "stall_log \<Rightarrow> cluster_status list \<Rightarrow> int \<Rightarrow> stall_log \<times> stall_line list" where
  "log_node_stalls l statuses now =
     fold (\<lambda>c. fold (log_node_stall (c_name c) now) (c_nodes c)) statuses (l, [])"

subsection \<open>The daemon's trackers\<close>

record trackers =
  t_vm_starts :: "(string, (string, int) gomap) gomap"
  t_reachability :: reachability_log
  t_stalls :: stall_log
  t_readiness :: readiness_log
  t_reboots :: reboot_log

definition no_trackers :: trackers where
  "no_trackers = \<lparr>t_vm_starts = [], t_reachability = [], t_stalls = [], t_readiness = [], t_reboots = []\<rparr>"

definition vm_started_at :: "trackers \<Rightarrow> string \<Rightarrow> string \<Rightarrow> int option" where
  "vm_started_at t c n = (case map_of (t_vm_starts t) c of None \<Rightarrow> None | Some nodes \<Rightarrow> map_of nodes n)"

definition forget_observations :: "string \<Rightarrow> trackers \<Rightarrow> trackers" where
  "forget_observations key t =
     t\<lparr>t_reachability := reachability_forget (t_reachability t) key,
       t_stalls := stall_forget (t_stalls t) key,
       t_reboots := reboot_forget (t_reboots t) key\<rparr>"

definition record_vm_start :: "trackers \<Rightarrow> string \<Rightarrow> string \<Rightarrow> int \<Rightarrow> trackers" where
  "record_vm_start t c n now =
     (let nodes = (case map_of (t_vm_starts t) c of Some nodes \<Rightarrow> nodes | None \<Rightarrow> [])
      in forget_observations (node_key c n)
           (t\<lparr>t_vm_starts := AList.update c (AList.update n now nodes) (t_vm_starts t)\<rparr>))"

definition forget_node :: "trackers \<Rightarrow> string \<Rightarrow> string \<Rightarrow> trackers" where
  "forget_node t c n =
     forget_observations (node_key c n)
       (case map_of (t_vm_starts t) c of
          None \<Rightarrow> t
        | Some nodes \<Rightarrow>
            (let nodes = AList.delete n nodes
             in t\<lparr>t_vm_starts := (if nodes = [] then AList.delete c (t_vm_starts t)
                                  else AList.update c nodes (t_vm_starts t))\<rparr>))"

definition forget_cluster :: "trackers \<Rightarrow> string \<Rightarrow> trackers" where
  "forget_cluster t c =
     (let p = c @ ''/''
      in t\<lparr>t_vm_starts := AList.delete c (t_vm_starts t),
           t_readiness := readiness_forget (t_readiness t) c,
           t_reachability := forget_prefix (t_reachability t) p,
           t_stalls := forget_prefix (t_stalls t) p,
           t_reboots := reboot_forget_prefix (t_reboots t) p\<rparr>)"

definition forget_all_node_tracking :: "trackers \<Rightarrow> trackers" where
  "forget_all_node_tracking t =
     no_trackers\<lparr>t_reboots := reboot_forget_all (t_reboots t)\<rparr>"

subsection \<open>The lines about a stall\<close>

text \<open>The steps the stall log takes, at the grain of its lock: a look at one node of a status round,
  and the three ways to forget. Rounds of several connections interleave at this grain.\<close>

datatype stall_op =
    Look string int node_status
  | DropKey string
  | DropPrefix string
  | DropAll

fun stall_step :: "stall_log \<times> stall_line list \<Rightarrow> stall_op \<Rightarrow> stall_log \<times> stall_line list" where
  "stall_step s (Look c now n) = log_node_stall c now n s"
| "stall_step (l, out) (DropKey k) = (stall_forget l k, out)"
| "stall_step (l, out) (DropPrefix p) = (forget_prefix l p, out)"
| "stall_step (l, out) DropAll = ([], out)"

definition round_looks :: "cluster_status list \<Rightarrow> int \<Rightarrow> stall_op list" where
  "round_looks statuses now = concat (map (\<lambda>c. map (Look (c_name c) now) (c_nodes c)) statuses)"

lemma fold_looks: "fold (log_node_stall c now) ns s = foldl stall_step s (map (Look c now) ns)"
  by (induction ns arbitrary: s) simp_all

lemma log_node_stalls_steps:
  "log_node_stalls l statuses now = foldl stall_step (l, []) (round_looks statuses now)"
proof -
  have "fold (\<lambda>c. fold (log_node_stall (c_name c) now) (c_nodes c)) statuses s =
      foldl stall_step s (round_looks statuses now)" for s
    by (induction statuses arbitrary: s) (simp_all add: round_looks_def fold_looks)
  then show ?thesis by (simp add: log_node_stalls_def)
qed

text \<open>What happens to one key: a look at a node that is up, with the line it printed, or the end of
  what was known of it.\<close>

datatype stall_event = Seen string int node_status "stall_line list" | Gone

fun event_of :: "string \<Rightarrow> stall_log \<Rightarrow> stall_op \<Rightarrow> stall_event list" where
  "event_of k l (Look c now n) =
     (if node_key c (n_name n) \<noteq> k then []
      else if phase_stopped (n_phase n) then [Gone]
      else [Seen c now n (snd (log_node_stall c now n (l, [])))])"
| "event_of k l (DropKey k') = (if k' = k then [Gone] else [])"
| "event_of k l (DropPrefix p) = (if has_prefix k p then [Gone] else [])"
| "event_of k l DropAll = [Gone]"

fun stall_trace :: "string \<Rightarrow> stall_log \<Rightarrow> stall_op list \<Rightarrow> stall_event list" where
  "stall_trace k l [] = []"
| "stall_trace k l (op # ops) = event_of k l op @ stall_trace k (fst (stall_step (l, []) op)) ops"

definition node_stalled :: "node_status \<Rightarrow> int \<Rightarrow> bool" where
  "node_stalled n now \<longleftrightarrow> n_phase n = PhaseUnreachable \<and> unreachable_for n now > nodeStallThreshold"

text \<open>The contract. The state is the last age of the stall that is under way, if there is one. The first
  look that finds the node stalled prints one line; further ones print nothing; the first look that
  finds it answering prints one line, with the age of the last stalled look.\<close>

fun well_reported :: "int option \<Rightarrow> stall_event list \<Rightarrow> bool" where
  "well_reported open [] = True"
| "well_reported open (Gone # es) = well_reported None es"
| "well_reported None (Seen c now n out # es) =
     (if node_stalled n now then
        out = [if answered_since_start n then StoppedAnswering c (n_name n) (unreachable_for n now)
               else NeverAnswered c (n_name n) (unreachable_for n now)] \<and>
        well_reported (Some (unreachable_for n now)) es
      else out = [] \<and> well_reported None es)"
| "well_reported (Some age) (Seen c now n out # es) =
     (if node_stalled n now then out = [] \<and> well_reported (Some (unreachable_for n now)) es
      else out = [AnsweredAgain c (n_name n) age (n_phase n)] \<and> well_reported None es)"

lemma stall_step_other:
  assumes "event_of k l op = []"
  shows "map_of (fst (stall_step (l, []) op)) k = map_of l k"
  using assms
  by (cases op) (auto simp: log_node_stall_def stall_observe_def stall_forget_def map_of_forget_prefix
      update_conv' delete_conv' Let_def split: if_splits option.split)

lemma stall_step_gone:
  assumes "event_of k l op = [Gone]"
  shows "map_of (fst (stall_step (l, []) op)) k = None"
  using assms
  by (cases op) (auto simp: log_node_stall_def stall_forget_def map_of_forget_prefix delete_conv' Let_def
      split: if_splits)

lemma log_node_stall_seen:
  assumes "\<not> phase_stopped (n_phase n)" "k = node_key c (n_name n)"
  shows "snd (log_node_stall c now n (l, [])) =
      (case map_of l k of
         None \<Rightarrow> if node_stalled n now then
             [if answered_since_start n then StoppedAnswering c (n_name n) (unreachable_for n now)
              else NeverAnswered c (n_name n) (unreachable_for n now)] else []
       | Some age \<Rightarrow> if node_stalled n now then [] else [AnsweredAgain c (n_name n) age (n_phase n)])"
    and "map_of (fst (log_node_stall c now n (l, []))) k =
      (if node_stalled n now then Some (unreachable_for n now) else None)"
  using assms
  by (auto simp: log_node_stall_def stall_observe_def node_stalled_def update_conv' delete_conv' Let_def
      split: option.split)

lemma event_of_cases:
  "event_of k l op = [] \<or> event_of k l op = [Gone] \<or>
   (\<exists>c now n. op = Look c now n \<and> k = node_key c (n_name n) \<and> \<not> phase_stopped (n_phase n))"
  by (cases op) auto

lemma stall_trace_well_reported: "well_reported (map_of l k) (stall_trace k l ops)"
proof (induction ops arbitrary: l)
  case (Cons op ops)
  define m where "m = fst (stall_step (l, []) op)"
  consider "event_of k l op = []" | "event_of k l op = [Gone]"
    | c now n where "op = Look c now n" "k = node_key c (n_name n)" "\<not> phase_stopped (n_phase n)"
    using event_of_cases [of k l op] by blast
  then show ?case
  proof cases
    case 1
    then show ?thesis using Cons.IH [of m] stall_step_other [OF 1] by (simp add: m_def)
  next
    case 2
    then show ?thesis using Cons.IH [of m] stall_step_gone [OF 2] by (simp add: m_def)
  next
    case 3
    note seen = log_node_stall_seen [OF 3(3) 3(2), of now l]
    show ?thesis
      using Cons.IH [of m] 3 seen
      by (cases "map_of l k"; cases "node_stalled n now") (auto simp: m_def)
  qed
qed simp

text \<open>C38: The daemon's log says once that a node stalled and once that it answered again. For every node
  and every interleaving of status rounds with starts, stops and removals, the lines about it follow
  the contract: one line at the crossing, of the right kind and age, none while the stall lasts, one
  at the recovery with the age last seen, and nothing carried over a restart.\<close>

theorem stall_lines_well_reported: "well_reported None (stall_trace k [] ops)"
  using stall_trace_well_reported [of "[]" k ops] by simp

end
