(* ===== verification/Status_Hints.thy ===== *)
theory Status_Hints
  imports Node_Tracking Shell_Quote
begin

text \<open>
  The hints of a status, \<^verbatim>\<open>hintsAt\<close> of \<^verbatim>\<open>src/internal/daemon/phase.go\<close> and the functions it calls. The code
  builds sentences; the model builds a value per sentence with what the format string inserts, and
  \<open>render_hint\<close> writes the sentence out, so that statements can speak of what a hint advises. The
  platform the hints are written for and the test for an installed trust certificate are variables of
  the source and arguments here.
\<close>

subsection \<open>Text\<close>

definition dash :: string where "dash = [CHR 0xE2, CHR 0x80, CHR 0x94]"

text \<open>\<^verbatim>\<open>strings.ReplaceAll\<close> of a non-empty string.\<close>

function replace_all :: "string \<Rightarrow> string \<Rightarrow> string \<Rightarrow> string" where
  "replace_all old new s =
     (if s = [] \<or> old = [] then s
      else if prefix old s then new @ replace_all old new (drop (length old) s)
      else hd s # replace_all old new (tl s))"
  by pat_completeness auto
termination by (relation "measure (\<lambda>(_, _, s). length s)") auto

declare replace_all.simps [simp del]

text \<open>The part of a string after the first occurrence of another, if it occurs.\<close>

fun after_first :: "string \<Rightarrow> string \<Rightarrow> string option" where
  "after_first sep [] = (if sep = [] then Some [] else None)"
| "after_first sep (c # cs) =
     (if prefix sep (c # cs) then Some (drop (length sep) (c # cs)) else after_first sep cs)"

text \<open>The verb \<^verbatim>\<open>%q\<close>; outside ASCII the Unicode tables decide, which are an argument.\<close>

definition hex_digit :: "nat \<Rightarrow> char" where "hex_digit n = digit_char n"

definition escape_char :: "char \<Rightarrow> string" where
  "escape_char c =
     (if c = CHR 0x22 then [CHR 0x5C, CHR 0x22]
      else if c = CHR 0x5C then [CHR 0x5C, CHR 0x5C]
      else if c = CHR 0x07 then [CHR 0x5C] @ ''a''
      else if c = CHR 0x08 then [CHR 0x5C] @ ''b''
      else if c = CHR 0x0C then [CHR 0x5C] @ ''f''
      else if c = CHR 0x0A then [CHR 0x5C] @ ''n''
      else if c = CHR 0x0D then [CHR 0x5C] @ ''r''
      else if c = CHR 0x09 then [CHR 0x5C] @ ''t''
      else if c = CHR 0x0B then [CHR 0x5C] @ ''v''
      else if c < CHR 0x20 \<or> c = CHR 0x7F then
        [CHR 0x5C] @ ''x'' @ [hex_digit (of_char c div 16), hex_digit (of_char c mod 16)]
      else [c])"

definition go_quote :: "(string \<Rightarrow> string) \<Rightarrow> string \<Rightarrow> string" where
  "go_quote U s =
     (if list_all is_ascii s then [CHR 0x22] @ concat (map escape_char s) @ [CHR 0x22] else U s)"

definition format_stall_duration :: "int \<Rightarrow> string" where
  "format_stall_duration d = duration_string (duration_round d Second)"

definition format_boot_window :: "int \<Rightarrow> string" where
  "format_boot_window window =
     (if window \<ge> Minute \<and> window smod Minute = 0 then
        (let minutes = window sdiv Minute
         in if minutes = 1 then ''1 minute'' else itoa minutes @ '' minutes'')
      else itoa (duration_round window Second sdiv Second) @ '' seconds'')"

definition credential_exports :: "string \<Rightarrow> string" where
  "credential_exports name =
     (let n = quote name
      in '' export TALOSCONFIG=~/.talosbox/clusters/'' @ n @ ''/talosconfig; export KUBECONFIG=~/.talosbox/clusters/''
         @ n @ ''/kubeconfig'')"

definition resolver_bypass_note :: "string \<Rightarrow> string \<Rightarrow> string" where
  "resolver_bypass_note goos host =
     (if goos \<noteq> ''darwin'' then []
      else '' (dig/nslookup bypass /etc/resolver on macOS; check that name with: dscacheutil -q host -a name ''
           @ quote host @ '', or ping)'')"

definition status_domain :: "cluster_status \<Rightarrow> string" where
  "status_domain c = (if c_domain c = [] then c_name c @ ''.'' @ DefaultDomainSuffix else c_domain c)"

definition node_host :: "cluster_status \<Rightarrow> node_status \<Rightarrow> string" where
  "node_host c n = n_name n @ ''.'' @ status_domain c"

subsection \<open>Storage\<close>

definition deadlineExceeded :: string where "deadlineExceeded = ''context deadline exceeded''"

definition parenthesised :: "string \<Rightarrow> string" where
  "parenthesised detail =
     (let rest = dropWhile (\<lambda>c. c \<noteq> CHR ''('') detail;
          inner = takeWhile (\<lambda>c. c \<noteq> CHR '')'') rest
      in if rest = [] \<or> length inner = length rest then detail else tl inner)"

definition storage_pending_detail :: "string \<Rightarrow> string" where
  "storage_pending_detail pending =
     (let detail = (case after_first ''still finishing: '' pending of Some a \<Rightarrow> a | None \<Rightarrow> pending);
          detail = parenthesised detail;
          detail = replace_all ''`'' [] detail;
          detail = replace_all ('': '' @ deadlineExceeded) [] detail;
          ls = filter (\<lambda>l. l \<noteq> [] \<and> l \<noteq> deadlineExceeded) (map trim_space (split_on (CHR 0x0A) detail));
          detail = join ''; '' ls;
          detail = (if length detail > 200 then take 200 detail @ ellipsis else detail)
      in if detail = [] \<or> contains detail ''still finishing'' \<or> contains detail ''tbx '' then [] else detail)"

definition storage_node_count :: "cluster_status \<Rightarrow> nat" where
  "storage_node_count c =
     (let workers = length (filter (\<lambda>n. n_role n = RoleWorker) (c_nodes c))
      in if workers = 0 then length (c_nodes c) else workers)"

datatype storage_note =
    StorageFailed string bool string
  | StorageGate string string
  | StorageProbeFailed string
  | StorageCleanup string
  | StorageWaiting
  | StorageLive

definition OriginImperative :: string where "OriginImperative = ''imperative''"

text \<open>A failed pass carries its error, and whether \<^verbatim>\<open>tbx up\<close> can re-run it.\<close>

definition storage_hint :: "cluster_status \<Rightarrow> storage_note option" where
  "storage_hint c =
     (if pi_csi (c_intent c) = [] then None
      else (case c_storage_phase c of
          StoragePhaseFailed \<Rightarrow>
            Some (StorageFailed (c_storage_error c) (c_config_origin c \<noteq> OriginImperative) (c_name c))
        | StoragePhaseProvisioning \<Rightarrow>
            Some (if c_storage_gate c \<noteq> [] then StorageGate (c_storage_gate c) (c_storage_error c)
                  else if c_storage_error c \<noteq> [] then StorageProbeFailed (c_storage_error c)
                  else if c_storage_pending c \<noteq> [] then
                    StorageCleanup (storage_pending_detail (c_storage_pending c))
                  else StorageWaiting)
        | StoragePhaseLive \<Rightarrow> Some StorageLive
        | StoragePhaseUnset \<Rightarrow> None))"

definition storage_recovery_hint :: "bool \<Rightarrow> string \<Rightarrow> string" where
  "storage_recovery_hint up name =
     (let n = quote name
      in if up then
           ''Re-run the storage pass with: tbx up (or tbx cluster stop '' @ n @ '' && tbx cluster start '' @ n @ '')''
         else ''Re-run the storage pass with: tbx cluster stop '' @ n @ '' && tbx cluster start '' @ n)"

fun render_storage :: "storage_note \<Rightarrow> string" where
  "render_storage (StorageFailed err up name) =
     (if err \<noteq> [] then ''storage provisioning failed: '' @ err @ ''. Nothing is retrying. ''
      else ''storage provisioning failed. Nothing is retrying. '') @ storage_recovery_hint up name"
| "render_storage (StorageGate gate err) =
     ''storage provisioning: waiting on the '' @ gate @ (if err \<noteq> [] then '' gate: '' @ err @ ''.'' else '' gate.'')"
| "render_storage (StorageProbeFailed err) =
     ''storage provisioning: CSI readiness probe failed: '' @ err @ ''; retrying after backoff.''"
| "render_storage (StorageCleanup detail) =
     ''storage provisioning: the storage probe'' @ [CHR 0x27] @ ''s cleanup from a previous pass is still finishing''
     @ (if detail \<noteq> [] then '' ('' @ detail @ '')'' else []) @ ''; the daemon retries automatically.''"
| "render_storage StorageWaiting = ''storage provisioning: waiting for the CSI readiness probe to pass.''"
| "render_storage StorageLive = ''storage live: the CSI readiness probe passed.''"

definition longhorn_single_node :: "cluster_status \<Rightarrow> bool" where
  "longhorn_single_node c \<longleftrightarrow> pi_csi (c_intent c) = CSILonghorn \<and> storage_node_count c = 1 \<and>
     c_running c \<and> c_storage_phase c = StoragePhaseLive"

subsection \<open>What is still settling\<close>

datatype reason = CsiNotReady string | VipSilent string | FreshBoot int

definition clusterSettleWindow :: int where "clusterSettleWindow = 3 * Minute"

fun render_reason :: "reason \<Rightarrow> string" where
  "render_reason (CsiNotReady csi) =
     ''the '' @ csi @ '' CSI drivers have not passed the readiness probe yet, so PVC mounts can fail''"
| "render_reason (VipSilent vip) = ''the LoadBalancer VIP '' @ vip @ '' is announced but not answering yet''"
| "render_reason (FreshBoot age) =
     ''a node booted '' @ format_stall_duration age
     @ '' ago, and kubelet serving certificates and CSI driver registrations can take ~''
     @ format_boot_window clusterSettleWindow
     @ '' to settle (kubectl exec and PVC mounts may fail until they do)''"

definition vip_converging_reason :: "cluster_status \<Rightarrow> reason option" where
  "vip_converging_reason c =
     (if \<not> pi_lb (c_intent c) \<or> c_vip c = [] \<or> c_vip_live c then None else Some (VipSilent (c_vip c)))"

definition youngest_step :: "int \<Rightarrow> int \<Rightarrow> node_status \<Rightarrow> int" where
  "youngest_step now youngest n =
     (case n_started_at n of
        None \<Rightarrow> youngest
      | Some t \<Rightarrow> let age = time_sub now t in if youngest < 0 \<or> age < youngest then age else youngest)"

definition youngest_node_age :: "cluster_status \<Rightarrow> int \<Rightarrow> int option" where
  "youngest_node_age c now =
     (let youngest = foldl (youngest_step now) (- 1) (c_nodes c)
      in if youngest < 0 \<or> youngest \<ge> clusterSettleWindow then None else Some youngest)"

definition converging_reasons :: "cluster_status \<Rightarrow> int \<Rightarrow> reason list" where
  "converging_reasons c now =
     (if \<not> c_running c \<or> \<not> c_kubernetes_ready c then []
      else
        (if pi_csi (c_intent c) \<noteq> [] \<and> c_storage_phase c \<noteq> StoragePhaseLive \<and>
            c_storage_phase c \<noteq> StoragePhaseFailed
         then [CsiNotReady (pi_csi (c_intent c))] else [])
        @ (case vip_converging_reason c of None \<Rightarrow> [] | Some r \<Rightarrow> [r])
        @ (case youngest_node_age c now of None \<Rightarrow> [] | Some age \<Rightarrow> [FreshBoot age]))"

text \<open>The code drops the reason whose sentence is the one already printed.\<close>

definition without_reason :: "reason list \<Rightarrow> reason option \<Rightarrow> reason list" where
  "without_reason reasons printed =
     (case printed of None \<Rightarrow> reasons | Some d \<Rightarrow> filter (\<lambda>r. render_reason r \<noteq> render_reason d) reasons)"

subsection \<open>Recovery\<close>

record crash_loop =
  cr_subjects :: "string list"
  cr_message :: string
  cr_role :: string

definition kubelet_crash_loop_hint :: "cluster_status \<Rightarrow> crash_loop option" where
  "kubelet_crash_loop_hint c =
     (let crashed = filter (\<lambda>n. case n_kubelet n of Some k \<Rightarrow> crash_looping k | None \<Rightarrow> False) (c_nodes c)
      in case crashed of
           [] \<Rightarrow> None
         | first # _ \<Rightarrow> Some \<lparr>cr_subjects = map n_name crashed,
             cr_message = (case n_kubelet first of Some k \<Rightarrow> sv_message k | None \<Rightarrow> []),
             cr_role = n_role first\<rparr>)"

definition recorded_intent_flags :: "cluster_status \<Rightarrow> string" where
  "recorded_intent_flags c =
     (let i = c_intent c;
          cps = length (filter (\<lambda>n. n_role n = RoleControlPlane) (c_nodes c));
          ws = length (filter (\<lambda>n. n_role n \<noteq> RoleControlPlane) (c_nodes c))
      in join '' ''
        ([''--cni '' @ pi_cni i]
         @ (if pi_csi i \<noteq> [] then [''--csi '' @ pi_csi i] else [])
         @ (if \<not> pi_lb i then [''--lb=false''] else [])
         @ (if c_bgp c then [''--bgp''] else [])
         @ (if pi_hubble i then [''--hubble''] else [])
         @ [''--cp '' @ itoa (int cps), ''--workers '' @ itoa (int ws)]
         @ (if c_domain c \<noteq> [] \<and> c_domain c \<noteq> c_name c @ ''.'' @ DefaultDomainSuffix then
              [''--domain '' @ c_domain c] @ (if c_allow_unsafe_domain c then [''--allow-unsafe-domain''] else [])
            else [])
         @ (if c_talos_version c \<noteq> [] then [''--talos-version '' @ c_talos_version c] else [])
         @ (if c_talos_extensions c \<noteq> [] then
              [''--extensions '' @ join '','' (c_talos_extensions c)]
              @ (if c_base_schematic c \<noteq> [] then [''--schematic '' @ c_base_schematic c] else [])
            else if c_schematic c \<noteq> [] then [''--schematic '' @ c_schematic c] else [])))"

datatype recovery =
    ReplaceNode string crash_loop
  | RerunUp
  | WaitForBlip string int
  | DestroyAndRecreate string string

definition provisioning_recovery_hint_at :: "cluster_status \<Rightarrow> int \<Rightarrow> recovery" where
  "provisioning_recovery_hint_at c now =
     (case kubelet_crash_loop_hint c of
        Some h \<Rightarrow> ReplaceNode (c_name c) h
      | None \<Rightarrow>
          if c_config_origin c \<noteq> OriginImperative then RerunUp
          else if kubernetes_unready_briefly c now then WaitForBlip (c_name c) (kubernetes_unready_for c now)
          else DestroyAndRecreate (c_name c) (recorded_intent_flags c))"

fun render_recovery :: "recovery \<Rightarrow> string" where
  "render_recovery (ReplaceNode name h) =
     (let n = quote name; first = hd (cr_subjects h); node = quote first
      in (if length (cr_subjects h) > 1
          then ''kubelet is crashlooping on '' @ itoa (int (length (cr_subjects h))) @ '' node(s): ''
               @ join '', '' (cr_subjects h)
          else first @ [CHR 0x27] @ ''s kubelet is crashlooping'')
         @ (if cr_message h \<noteq> [] then '' ('' @ cr_message h @ '')'' else [])
         @ '', so it will not join Kubernetes and rerunning tbx up cannot fix it: inspect it live with tbx console ''
         @ n @ '' '' @ node @ '', then replace it: tbx node remove '' @ n @ '' '' @ node
         @ '', tbx node add '' @ n @ '' '' @ node @ '' --role '' @ cr_role h)"
| "render_recovery RerunUp = ''Rerun: tbx up''"
| "render_recovery (WaitForBlip name age) =
     ''Kubernetes has been unreachable for '' @ format_stall_duration age
     @ '', which is short enough to be a transient control-plane blip: rerun tbx status '' @ quote name
     @ '' in a moment, and if it persists check tbx console '' @ quote name
     @ '' <node> or ~/.talosbox/tbxd.log before considering a destroy''"
| "render_recovery (DestroyAndRecreate name flags) =
     ''No talosbox.yaml backs this cluster, so tbx up cannot resume it; destroy it with: tbx cluster destroy ''
     @ quote name
     @ '' --force, then recreate it with the tbx cluster create flags you used originally (recorded intent: ''
     @ flags @ ''; node sizing is not recorded here)''"

subsection \<open>Hints\<close>

text \<open>A silent node: its name, whether it had answered, and for how long it has not.\<close>

type_synonym silent_node = "string \<times> bool \<times> int"

datatype hint =
    MissingCredentials string
  | ServiceStalled string stalled_service int string
  | NodeRebooted string int string
  | CapabilityMissing string string
  | SuspendedStale string
  | SuspendedHint string
  | StoppedHint string
  | StorageHint storage_note
  | LonghornSingleNode
  | ProvisioningHint string recovery string
  | ProbeReadOnly nat string
  | GenerateConfig string string
  | ApplyConfig string
  | FlannelLive string string
  | FlannelSettling string string
  | FlannelNoLB string
  | CiliumLive string bool string
  | CiliumSettling string string
  | CiliumNoLB string
  | ManualBootstrap string
  | Dashboard string
  | Settling "reason list"
  | BootingNodes nat
  | StalledNodes string "silent_node list"

definition vip_settling_note :: "string \<Rightarrow> string \<Rightarrow> string" where
  "vip_settling_note vip announcer =
     (if vip = [] then ''waiting for the '' @ announcer @ '' LoadBalancer VIP to be announced''
      else ''the '' @ announcer @ '' LoadBalancer VIP '' @ vip @ '' is announced but not answering yet'')"

fun describe_silent :: "silent_node \<Rightarrow> string" where
  "describe_silent (name, answered, age) =
     (if answered then name @ '' (stopped answering '' @ format_stall_duration age @ '' ago)''
      else name @ '' ('' @ format_stall_duration age @ '' since its VM started)'')"

text \<open>One silent node is named with its own command; several share one. The names stand as they are.\<close>

definition stalled_nodes_hint :: "string \<Rightarrow> silent_node list \<Rightarrow> string" where
  "stalled_nodes_hint cl stalled =
     (case stalled of
        [] \<Rightarrow> []
      | [(name, answered, age)] \<Rightarrow>
          if answered then
            name @ '' stopped answering '' @ format_stall_duration age @ '' ago '' @ dash
            @ '' inspect it live: tbx console '' @ cl @ '' '' @ name @ ''; then run: tbx doctor''
          else
            name @ '' has not answered for '' @ format_stall_duration age @ '' since its VM started '' @ dash
            @ '' watch it boot: tbx console '' @ cl @ '' '' @ name @ ''; then run: tbx doctor''
      | _ \<Rightarrow> itoa (int (length stalled)) @ '' node(s) are not answering: ''
             @ join '', '' (map describe_silent stalled) @ '' '' @ dash @ '' inspect one live: tbx console '' @ cl
             @ '' <node>; then run: tbx doctor'')"

fun render_hint :: "(string \<Rightarrow> string) \<Rightarrow> string \<Rightarrow> hint \<Rightarrow> string" where
  "render_hint U goos (MissingCredentials name) =
     ''Talos service state unavailable: configured nodes answer apid, but no talosconfig context ''
     @ go_quote U name @ '' was found. Run: talosctl config merge <path-to-talosconfig> and ensure `talosctl config contexts` lists exactly ''
     @ go_quote U name @ ''.''"
| "render_hint U goos (ServiceStalled node s age cl) =
     (let c = quote cl; n = quote node
      in node @ '': '' @ ss_service s @ '' has remained '' @ ss_state s @ '' for '' @ format_stall_duration age @ '' ''
         @ dash @ '' image pull may be stalled; inspect with: tbx console '' @ c @ '' '' @ n
         @ ''; cold-restart with: tbx node stop '' @ c @ '' '' @ n @ '' && tbx node start '' @ c @ '' '' @ n)"
| "render_hint U goos (NodeRebooted node at cl) =
     ''node '' @ node @ '' rebooted without a host VM restart at '' @ rfc3339_utc at
     @ ''; inspect the recovery with: tbx console '' @ quote cl @ '' '' @ quote node"
| "render_hint U goos (CapabilityMissing name reason) = name @ '' is unavailable on this host: '' @ reason"
| "render_hint U goos (SuspendedStale name) =
     ''cluster is suspended, but the daemon that saved its memory has been replaced '' @ dash
     @ '' the saved memory will not survive, so tbx cluster resume '' @ quote name
     @ '' will cold-boot the nodes (tbx cluster start '' @ quote name @ '' does the same)''"
| "render_hint U goos (SuspendedHint name) =
     ''cluster is suspended '' @ dash @ '' resume it with: tbx cluster resume '' @ quote name
     @ '' (tbx cluster start discards the saved memory)''"
| "render_hint U goos (StoppedHint name) =
     ''cluster is stopped '' @ dash @ '' start it with: tbx cluster start '' @ quote name"
| "render_hint U goos (StorageHint s) = render_storage s"
| "render_hint U goos LonghornSingleNode =
     ''Longhorn is running with a single replica on one node, so volumes have no redundancy.''"
| "render_hint U goos (ProvisioningHint cni r name) =
     cni @ '' provisioning is in progress; tbx will apply machine config, bootstrap, and reconcile the CNI. ''
     @ render_recovery r @ '';'' @ credential_exports name"
| "render_hint U goos (ProbeReadOnly k ip) =
     itoa (int k) @ '' node(s) await machine config. Probe one read-only (changes nothing): talosctl version --insecure --nodes ''
     @ ip"
| "render_hint U goos (GenerateConfig name host) =
     ''generate a machine config: talosctl gen config '' @ name @ '' https://'' @ host @ '':6443 --output-dir .''
     @ resolver_bypass_note goos host"
| "render_hint U goos (ApplyConfig ip) =
     ''then apply it: talosctl apply-config --insecure --nodes '' @ ip
     @ '' --file controlplane.yaml (workers get worker.yaml)''"
| "render_hint U goos (FlannelLive vip name) =
     ''Kubernetes is Ready; MetalLB L2 VIP is live at http://'' @ vip
     @ ''/. Flannel does not enforce NetworkPolicies; use cilium to exercise policies.'' @ credential_exports name"
| "render_hint U goos (FlannelSettling vip name) =
     ''Kubernetes is Ready; '' @ vip_settling_note vip ''MetalLB L2''
     @ ''. Flannel does not enforce NetworkPolicies; use cilium to exercise policies.'' @ credential_exports name"
| "render_hint U goos (FlannelNoLB name) =
     ''Kubernetes is Ready with Talos-managed flannel; LoadBalancer support is disabled by lb: false, so no VIP is provisioned.''
     @ credential_exports name"
| "render_hint U goos (CiliumLive domain trusted name) =
     ''Kubernetes is Ready; Cilium LB-IPAM ingress is live at https://probe.'' @ domain @ ''/.''
     @ (if trusted then [] else '' Install its browser-trust CA: tbx trust install '' @ quote name @ ''.'')
     @ credential_exports name"
| "render_hint U goos (CiliumSettling vip name) =
     ''Kubernetes is Ready; '' @ vip_settling_note vip ''Cilium LB-IPAM'' @ ''.'' @ credential_exports name"
| "render_hint U goos (CiliumNoLB name) =
     ''Kubernetes is Ready with Cilium; LoadBalancer support is disabled by lb: false, so no VIP is provisioned.''
     @ credential_exports name"
| "render_hint U goos (ManualBootstrap ip) =
     ''all nodes configured. If etcd is not yet bootstrapped: talosctl bootstrap --talosconfig ./talosconfig --nodes ''
     @ ip @ '' --endpoints '' @ ip @ '', then talosctl kubeconfig . --talosconfig ./talosconfig --nodes ''
     @ ip @ '' --endpoints '' @ ip"
| "render_hint U goos (Dashboard ip) =
     ''node TUI (the Talos dashboard): talosctl dashboard --talosconfig ./talosconfig --nodes '' @ ip @ '' --endpoints '' @ ip"
| "render_hint U goos (Settling reasons) =
     ''nodes are up but the cluster is still settling '' @ dash @ '' '' @ join ''; '' (map render_reason reasons)
     @ ''; a single sample of tbx status can read green while these are in flight''"
| "render_hint U goos (BootingNodes k) =
     itoa (int k) @ '' node(s) not answering yet '' @ dash @ '' boot takes ~'' @ format_boot_window nodeBootWindow
     @ ''; if it persists, run: tbx doctor''"
| "render_hint U goos (StalledNodes cl stalled) = stalled_nodes_hint cl stalled"

definition any_healthy_kubelet :: "node_status list \<Rightarrow> bool" where
  "any_healthy_kubelet nodes \<longleftrightarrow>
     list_ex (\<lambda>n. case n_kubelet n of Some k \<Rightarrow> sv_health k = ServiceHealthHealthy | None \<Rightarrow> False) nodes"

definition missing_talos_credentials :: "cluster_status \<Rightarrow> bool" where
  "missing_talos_credentials c \<longleftrightarrow>
     list_ex (\<lambda>n. case n_service_probe n of Some p \<Rightarrow> sp_status p = ServiceProbeMissingCredentials | None \<Rightarrow> False)
       (c_nodes c)"

definition service_stall_hints :: "cluster_status \<Rightarrow> int \<Rightarrow> hint list" where
  "service_stall_hints c now =
     [ServiceStalled (n_name n) s (time_sub now (ss_since s)) (c_name c).
        n \<leftarrow> c_nodes c, s \<leftarrow> n_stalled_services n, 0 \<le> time_sub now (ss_since s)]"

definition split_stalled_nodes :: "node_status list \<Rightarrow> int \<Rightarrow> node_status list \<times> node_status list" where
  "split_stalled_nodes unreachable now =
     (filter (\<lambda>n. \<not> unreachable_for n now > nodeStallThreshold) unreachable,
      filter (\<lambda>n. unreachable_for n now > nodeStallThreshold) unreachable)"

text \<open>The hints that hold whatever the cluster is doing.\<close>

definition standing_hints :: "cluster_status \<Rightarrow> int \<Rightarrow> hint list" where
  "standing_hints c now =
     (if missing_talos_credentials c then [MissingCredentials (c_name c)] else [])
     @ service_stall_hints c now
     @ [NodeRebooted (n_name n) at (c_name c).
          n \<leftarrow> c_nodes c, n_phase n = PhaseRebooted, at \<leftarrow> (case n_rebooted_at n of None \<Rightarrow> [] | Some t \<Rightarrow> [t])]
     @ [CapabilityMissing (cap_name k) (cap_reason k). k \<leftarrow> c_capabilities c, \<not> cap_supported k]"

definition stopped_hint :: "cluster_status \<Rightarrow> hint" where
  "stopped_hint c =
     (if c_suspended c then
        (if c_saved_state_stale c then SuspendedStale (c_name c) else SuspendedHint (c_name c))
      else StoppedHint (c_name c))"

definition maintenance_hints :: "cluster_status \<Rightarrow> node_status list \<Rightarrow> hint list" where
  "maintenance_hints c maintenance =
     (case maintenance of
        [] \<Rightarrow> []
      | first # _ \<Rightarrow>
          [ProbeReadOnly (length maintenance) (n_ip first),
           GenerateConfig (c_name c) (node_host c (control_plane_or c first)),
           ApplyConfig (n_ip first)])"

text \<open>The hints of a cluster whose nodes are all configured, and whether they name the silent VIP.\<close>

definition configured_hints :: "(string \<Rightarrow> bool) \<Rightarrow> cluster_status \<Rightarrow> bool \<Rightarrow> hint list \<times> bool" where
  "configured_hints trusted c provisioning =
     (let cp = control_plane_or c (hd (c_nodes c)); i = c_intent c; ready = c_kubernetes_ready c;
          flannel = (if pi_cni i = CNIFlannel \<and> pi_lb i \<and> ready then
                       (if c_vip_live c then [FlannelLive (c_vip c) (c_name c)]
                        else [FlannelSettling (c_vip c) (c_name c)]) else [])
                    @ (if pi_cni i = CNIFlannel \<and> \<not> pi_lb i \<and> ready then [FlannelNoLB (c_name c)] else []);
          cilium = (if pi_cni i = CNICilium \<and> pi_lb i \<and> ready then
                      (if c_vip_live c then [CiliumLive (status_domain c) (trusted (c_name c)) (c_name c)]
                       else [CiliumSettling (c_vip c) (c_name c)]) else [])
                   @ (if pi_cni i = CNICilium \<and> \<not> pi_lb i \<and> ready then [CiliumNoLB (c_name c)] else []);
          boot = (if \<not> ready then
                    (if \<not> provisioning \<and> \<not> any_healthy_kubelet (c_nodes c) then [ManualBootstrap (n_ip cp)] else [])
                    @ [Dashboard (n_ip cp)] else [])
      in (flannel @ cilium @ boot,
          (pi_cni i = CNIFlannel \<or> pi_cni i = CNICilium) \<and> pi_lb i \<and> ready \<and> \<not> c_vip_live c))"

definition settling_hints :: "cluster_status \<Rightarrow> int \<Rightarrow> bool \<Rightarrow> hint list" where
  "settling_hints c now vip_noted =
     (let reasons = converging_reasons c now;
          reasons = (if vip_noted then without_reason reasons (vip_converging_reason c) else reasons)
      in if reasons \<noteq> [] then [Settling reasons] else [])"

definition silent_hints :: "cluster_status \<Rightarrow> int \<Rightarrow> hint list" where
  "silent_hints c now =
     (let (booting, stalled) = split_stalled_nodes (filter (\<lambda>n. n_phase n = PhaseUnreachable) (c_nodes c)) now
      in (if booting \<noteq> [] then [BootingNodes (length booting)] else [])
         @ (if stalled \<noteq> [] then
              [StalledNodes (c_name c) (map (\<lambda>n. (n_name n, answered_since_start n, unreachable_for n now)) stalled)]
            else []))"

definition provisioning_pending :: "cluster_status \<Rightarrow> bool" where
  "provisioning_pending c \<longleftrightarrow> pi_cni (c_intent c) \<noteq> [] \<and> \<not> c_kubernetes_ready c"

definition provisioning_hints :: "cluster_status \<Rightarrow> int \<Rightarrow> hint list" where
  "provisioning_hints c now =
     (if provisioning_pending c
      then [ProvisioningHint (pi_cni (c_intent c)) (provisioning_recovery_hint_at c now) (c_name c)] else [])"

definition all_nodes :: "(phase \<Rightarrow> bool) \<Rightarrow> cluster_status \<Rightarrow> bool" where
  "all_nodes P c \<longleftrightarrow> c_nodes c \<noteq> [] \<and> list_all (\<lambda>n. P (n_phase n)) (c_nodes c)"

text \<open>The code sorts the nodes into four lists by phase and compares their lengths with that of all.\<close>

definition hints_at :: "(string \<Rightarrow> bool) \<Rightarrow> cluster_status \<Rightarrow> int \<Rightarrow> hint list" where
  "hints_at trusted c now =
     (if all_nodes phase_stopped c then standing_hints c now @ [stopped_hint c]
      else
        (let (ready, vip_noted) =
               (if all_nodes phase_configured c then configured_hints trusted c (provisioning_pending c)
                else ([], False))
         in standing_hints c now
            @ (case storage_hint c of None \<Rightarrow> [] | Some s \<Rightarrow> [StorageHint s])
            @ (if longhorn_single_node c then [LonghornSingleNode] else [])
            @ provisioning_hints c now
            @ maintenance_hints c (filter (\<lambda>n. n_phase n = PhaseMaintenance) (c_nodes c))
            @ ready
            @ settling_hints c now vip_noted
            @ silent_hints c now))"

subsection \<open>What the hints promise\<close>

lemma render_reason_vip: "render_reason r = render_reason (VipSilent v) \<longleftrightarrow> r = VipSilent v"
proof (cases r)
  case (CsiNotReady csi)
  have "last (render_reason r) \<noteq> last (render_reason (VipSilent v))" by (simp add: CsiNotReady)
  then show ?thesis using CsiNotReady by auto
next
  case (FreshBoot age)
  have "hd (render_reason r) \<noteq> hd (render_reason (VipSilent v))" by (simp add: FreshBoot)
  then show ?thesis using FreshBoot by auto
qed simp

text \<open>How often a hint says that an announced address does not answer.\<close>

fun is_vip_silent :: "reason \<Rightarrow> bool" where
  "is_vip_silent (VipSilent _) = True"
| "is_vip_silent _ = False"

fun silent_vip_mentions :: "hint \<Rightarrow> nat" where
  "silent_vip_mentions (FlannelSettling vip _) = (if vip \<noteq> [] then 1 else 0)"
| "silent_vip_mentions (CiliumSettling vip _) = (if vip \<noteq> [] then 1 else 0)"
| "silent_vip_mentions (Settling rs) = length (filter is_vip_silent rs)"
| "silent_vip_mentions _ = 0"

definition mentions :: "hint list \<Rightarrow> nat" where
  "mentions hs = sum_list (map silent_vip_mentions hs)"

lemma mentions_append [simp]: "mentions (xs @ ys) = mentions xs + mentions ys"
  by (simp add: mentions_def)

lemma mentions_none: "(\<And>h. h \<in> set hs \<Longrightarrow> silent_vip_mentions h = 0) \<Longrightarrow> mentions hs = 0"
  by (induction hs) (auto simp: mentions_def)

lemma mentions_standing: "mentions (standing_hints c now) = 0"
  by (rule mentions_none) (auto simp: standing_hints_def service_stall_hints_def split: if_splits)

lemma converging_vip:
  "filter is_vip_silent (converging_reasons c now) =
   (if c_running c \<and> c_kubernetes_ready c then (case vip_converging_reason c of None \<Rightarrow> [] | Some r \<Rightarrow> [r]) else [])"
  by (auto simp: converging_reasons_def vip_converging_reason_def split: option.split)

lemma without_vip_reason:
  "filter is_vip_silent (without_reason (converging_reasons c now) (vip_converging_reason c)) = []"
proof (cases "vip_converging_reason c")
  case None
  show ?thesis unfolding None without_reason_def option.case converging_vip by (simp only: if_cancel)
next
  case (Some r)
  have "q = r" if "q \<in> set (converging_reasons c now)" "is_vip_silent q" for q
  proof -
    have "q \<in> set (filter is_vip_silent (converging_reasons c now))" using that by simp
    then show ?thesis unfolding converging_vip Some option.case by (auto split: if_splits)
  qed
  then have "\<forall>q \<in> set (without_reason (converging_reasons c now) (Some r)). \<not> is_vip_silent q"
    unfolding without_reason_def by auto
  then show ?thesis unfolding Some by (simp only: filter_empty_conv)
qed

lemma configured_vip:
  assumes "configured_hints trusted c provisioning = (hs, noted)"
  shows "mentions hs \<le> (if noted then 1 else 0)"
  using assms by (auto simp: configured_hints_def Let_def mentions_def CNIFlannel_def CNICilium_def)

lemma mentions_settling:
  "mentions (settling_hints c now noted) \<le> (if noted then 0 else 1)"
proof -
  define rs where "rs = (if noted then without_reason (converging_reasons c now) (vip_converging_reason c)
    else converging_reasons c now)"
  have "length (filter is_vip_silent rs) \<le> (if noted then 0 else 1)"
    by (simp add: rs_def without_vip_reason converging_vip split: option.split)
  moreover have "mentions (settling_hints c now noted) = length (filter is_vip_silent rs)"
    by (simp add: settling_hints_def mentions_def rs_def [symmetric] Let_def)
  ultimately show ?thesis by simp
qed

lemma mentions_rest:
  "mentions (provisioning_hints c now) = 0" "mentions (maintenance_hints c ns) = 0"
  "mentions (silent_hints c now) = 0" "mentions [stopped_hint c] = 0"
  by (rule mentions_none; auto simp: provisioning_hints_def maintenance_hints_def silent_hints_def
      stopped_hint_def split_stalled_nodes_def Let_def split: if_splits list.splits)+

text \<open>No status says twice that the announced address does not answer yet.\<close>

lemma silent_vip_once: "mentions (hints_at trusted c now) \<le> 1"
proof (cases "all_nodes phase_stopped c")
  case True
  then show ?thesis by (simp add: hints_at_def mentions_standing mentions_rest)
next
  case False
  obtain ready noted where r: "(if all_nodes phase_configured c then
      configured_hints trusted c (provisioning_pending c) else ([], False)) = (ready, noted)"
    by (cases "if all_nodes phase_configured c then configured_hints trusted c (provisioning_pending c)
        else ([], False)") blast
  have "mentions ready \<le> (if noted then 1 else 0)"
    using r configured_vip by (fastforce simp: mentions_def split: if_splits)
  moreover have "mentions (case storage_hint c of None \<Rightarrow> [] | Some s \<Rightarrow> [StorageHint s]) = 0"
    "mentions (if longhorn_single_node c then [LonghornSingleNode] else []) = 0"
    by (cases "storage_hint c"; simp add: mentions_def)+
  ultimately show ?thesis
    using False mentions_settling [of c now noted]
    by (simp add: hints_at_def r mentions_standing mentions_rest split: if_splits)
qed

lemma configured_bootstrap:
  assumes "ManualBootstrap ip \<in> set (fst (configured_hints trusted c p))"
  shows "\<not> p \<and> \<not> any_healthy_kubelet (c_nodes c) \<and> \<not> c_kubernetes_ready c"
  using assms by (auto simp: configured_hints_def Let_def split: if_splits)

lemma no_provisioning_elsewhere:
  "ProvisioningHint a r b \<notin> set (standing_hints c now)"
  "ProvisioningHint a r b \<noteq> stopped_hint c"
  "ProvisioningHint a r b \<notin> set (maintenance_hints c ns)"
  "ProvisioningHint a r b \<notin> set (fst (configured_hints trusted c p))"
  "ProvisioningHint a r b \<notin> set (settling_hints c now noted)"
  "ProvisioningHint a r b \<notin> set (silent_hints c now)"
  by (auto simp: standing_hints_def service_stall_hints_def stopped_hint_def maintenance_hints_def
      configured_hints_def settling_hints_def silent_hints_def split_stalled_nodes_def Let_def
      split: if_splits list.splits)

lemma no_bootstrap_elsewhere:
  "ManualBootstrap ip \<notin> set (standing_hints c now)"
  "ManualBootstrap ip \<noteq> stopped_hint c"
  "ManualBootstrap ip \<notin> set (provisioning_hints c now)"
  "ManualBootstrap ip \<notin> set (maintenance_hints c ns)"
  "ManualBootstrap ip \<notin> set (settling_hints c now noted)"
  "ManualBootstrap ip \<notin> set (silent_hints c now)"
  by (auto simp: standing_hints_def service_stall_hints_def stopped_hint_def maintenance_hints_def
      provisioning_hints_def settling_hints_def silent_hints_def split_stalled_nodes_def Let_def
      split: if_splits list.splits)

lemma provisioning_hint_member:
  assumes "ProvisioningHint a r b \<in> set (hints_at trusted c now)"
  shows "provisioning_pending c \<and> \<not> all_nodes phase_stopped c \<and> r = provisioning_recovery_hint_at c now"
proof -
  have "ProvisioningHint a r b \<in> set (provisioning_hints c now) \<and> \<not> all_nodes phase_stopped c"
    using assms no_provisioning_elsewhere [of a r b]
    by (simp add: hints_at_def Let_def split_beta split: if_splits option.splits)
  then show ?thesis by (simp add: provisioning_hints_def split: if_splits)
qed

lemma bootstrap_hint_member:
  assumes "ManualBootstrap ip \<in> set (hints_at trusted c now)"
  shows "all_nodes phase_configured c \<and> \<not> provisioning_pending c \<and> \<not> any_healthy_kubelet (c_nodes c)
    \<and> \<not> c_kubernetes_ready c"
proof -
  have "all_nodes phase_configured c \<and>
      ManualBootstrap ip \<in> set (fst (configured_hints trusted c (provisioning_pending c)))"
    using assms no_bootstrap_elsewhere [of ip]
    by (simp add: hints_at_def Let_def split_beta split: if_splits option.splits)
  then show ?thesis using configured_bootstrap by blast
qed

text \<open>C16: The advice of a status is consistent. It never advises to bootstrap by hand while tbx is
  provisioning the cluster, nor while a kubelet already works; it never says twice that the address is
  silent; and it advises to destroy a cluster only if no configuration file backs it, it is not ready,
  no kubelet is crash looping, and it was not just seen to fail for less than two minutes.\<close>

theorem hints_consistent:
  "(ManualBootstrap ip \<in> set (hints_at trusted c now) \<longrightarrow>
     \<not> any_healthy_kubelet (c_nodes c) \<and> (\<forall>a r b. ProvisioningHint a r b \<notin> set (hints_at trusted c now))) \<and>
   mentions (hints_at trusted c now) \<le> 1 \<and>
   (ProvisioningHint a (DestroyAndRecreate n f) b \<in> set (hints_at trusted c now) \<longrightarrow>
     c_config_origin c = OriginImperative \<and> \<not> c_kubernetes_ready c \<and> kubelet_crash_loop_hint c = None \<and>
     \<not> kubernetes_unready_briefly c now)"
proof (intro conjI impI allI notI)
  assume "ProvisioningHint a (DestroyAndRecreate n f) b \<in> set (hints_at trusted c now)"
  from provisioning_hint_member [OF this]
  have d: "provisioning_pending c" "DestroyAndRecreate n f = provisioning_recovery_hint_at c now" by simp_all
  from d(1) show "c_kubernetes_ready c \<Longrightarrow> False" by (simp add: provisioning_pending_def)
  from d(2) show "c_config_origin c = OriginImperative" "kubelet_crash_loop_hint c = None"
    "kubernetes_unready_briefly c now \<Longrightarrow> False"
    by (simp_all add: provisioning_recovery_hint_at_def split: option.splits if_splits)
qed (use bootstrap_hint_member provisioning_hint_member silent_vip_once in blast)+

text \<open>Every silent node is counted, as booting or by name as stalled, and never as both.\<close>

lemma silent_nodes_accounted:
  assumes "split_stalled_nodes (filter (\<lambda>n. n_phase n = PhaseUnreachable) (c_nodes c)) now = (booting, stalled)"
  shows "length booting + length stalled = length (filter (\<lambda>n. n_phase n = PhaseUnreachable) (c_nodes c)) \<and>
    set booting \<inter> set stalled = {}"
  using assms sum_length_filter_compl
      [of "\<lambda>n. \<not> unreachable_for n now > nodeStallThreshold" "filter (\<lambda>n. n_phase n = PhaseUnreachable) (c_nodes c)"]
  by (auto simp: split_stalled_nodes_def)

definition sample_node :: node_status where
  "sample_node = \<lparr>n_name = ''dev-cp-1'', n_role = RoleControlPlane, n_mac = ''52:54:00:aa:bb:cc'',
     n_ip = ''172.30.0.2'', n_apid_reachable = True, n_phase = PhaseConfigured, n_suspended = False,
     n_kubelet = None, n_services = [], n_stalled_services = [], n_service_probe = None,
     n_started_at = None, n_unreachable_since = None, n_rebooted_at = None\<rparr>"

definition sample_status :: cluster_status where
  "sample_status = \<lparr>c_name = ''dev'', c_subnet = ''172.30.0.0/24'', c_hypervisor = ''qemu'', c_domain = [],
     c_allow_unsafe_domain = False, c_talos_version = [], c_schematic = [], c_base_schematic = [],
     c_talos_extensions = [], c_intent = no_intent\<lparr>pi_cni := CNICilium, pi_lb := True\<rparr>, c_bgp = False,
     c_running = True, c_suspended = False, c_saved_state_stale = False, c_kubernetes_ready = False,
     c_not_ready_since = Some 0, c_storage_phase = StoragePhaseUnset, c_storage_error = [],
     c_storage_pending = [], c_storage_gate = [], c_vip = [], c_vip_live = False, c_nodes = [sample_node],
     c_capabilities = [], c_config_origin = OriginImperative, c_subnet_index = 0\<rparr>"

lemmas sample_status_simps = sample_status_def sample_node_def no_intent_def CNICilium_def OriginImperative_def

lemma destroy_hintI:
  assumes "provisioning_pending c" "\<not> all_nodes phase_stopped c" "kubelet_crash_loop_hint c = None"
    "c_config_origin c = OriginImperative" "\<not> kubernetes_unready_briefly c now"
  shows "ProvisioningHint (pi_cni (c_intent c)) (DestroyAndRecreate (c_name c) (recorded_intent_flags c)) (c_name c)
    \<in> set (hints_at trusted c now)"
  using assms by (simp add: hints_at_def provisioning_hints_def provisioning_recovery_hint_at_def split_beta Let_def)

lemma sample_destroy_hint:
  "ProvisioningHint ''cilium'' (DestroyAndRecreate ''dev'' (recorded_intent_flags sample_status)) ''dev''
     \<in> set (hints_at (\<lambda>_. True) sample_status (3 * Minute))"
proof -
  have "provisioning_pending sample_status" "\<not> all_nodes phase_stopped sample_status"
    "kubelet_crash_loop_hint sample_status = None" "c_config_origin sample_status = OriginImperative"
    "\<not> kubernetes_unready_briefly sample_status (3 * Minute)"
    by (simp_all add: provisioning_pending_def all_nodes_def phase_stopped_def kubelet_crash_loop_hint_def
        kubernetes_unready_briefly_def kubernetes_unready_for_def unreadyEscalationWindow_def time_sub_def
        duration_consts sample_status_simps)
  from destroy_hintI [OF this] show ?thesis by (simp add: sample_status_def no_intent_def CNICilium_def)
qed

theorem hints_consistent_witness:
  "ProvisioningHint ''cilium'' (DestroyAndRecreate ''dev'' (recorded_intent_flags sample_status)) ''dev''
     \<in> set (hints_at (\<lambda>_. True) sample_status (3 * Minute)) \<and>
   \<not> kubernetes_unready_briefly sample_status (3 * Minute)"
  using hints_consistent [of "[]" "\<lambda>_. True" sample_status "3 * Minute" "''cilium''" "''dev''"
      "recorded_intent_flags sample_status" "''dev''"] sample_destroy_hint
  by blast


end
