(* ===== verification/Provision_Registry.thy ===== *)
theory Provision_Registry
  imports Node_Status
begin

text \<open>
  The daemon's registry of provisioning passes and storage probes, \<^verbatim>\<open>src/internal/daemon/provision.go\<close> with
  the scheduling of \<^verbatim>\<open>bgp.go\<close>: which pass of a cluster is current, what its gates wait on, what is known of
  the cluster's storage, and which background probe may still say something about it. Every function
  below runs under the daemon's operation lock and is one step; passes and probes run outside it and
  come back with the generation they were given. What a pass or a probe does to Kubernetes is not part
  of the registry: only its outcome is.
\<close>

subsection \<open>State\<close>

record active_provision =
  ap_generation :: "64 word"
  ap_skip_storage :: bool

record provision_blocker =
  pb_gate :: string
  pb_message :: string
  pb_at :: int

record probe_failure =
  pf_message :: string
  pf_at :: int
  pf_pending :: bool

text \<open>Cancelling a context cannot be undone; the last two fields are the generations whose context was
  cancelled.\<close>

record registry =
  rg_provisions :: "(string, active_provision) gomap"
  rg_sequence :: "64 word"
  rg_phases :: "(string, storage_phase) gomap"
  rg_probes :: "(string, 64 word) gomap"
  rg_probe_sequence :: "64 word"
  rg_probe_failures :: "(string, probe_failure) gomap"
  rg_blockers :: "(string, provision_blocker) gomap"
  rg_failures :: "(string, string) gomap"
  rg_cancelled :: "64 word list"
  rg_cancelled_probes :: "64 word list"

definition new_registry :: registry where
  "new_registry = \<lparr>rg_provisions = [], rg_sequence = 0, rg_phases = [], rg_probes = [], rg_probe_sequence = 0,
     rg_probe_failures = [], rg_blockers = [], rg_failures = [], rg_cancelled = [], rg_cancelled_probes = []\<rparr>"

definition is_current :: "registry \<Rightarrow> string \<Rightarrow> 64 word \<Rightarrow> bool" where
  "is_current s name g \<longleftrightarrow> (case map_of (rg_provisions s) name of Some a \<Rightarrow> ap_generation a = g | None \<Rightarrow> False)"

subsection \<open>Gates\<close>

definition blockerMessageMaxLen :: nat where "blockerMessageMaxLen = 200"

text \<open>The number of bytes of the first character of a string, one when they are no valid encoding.\<close>

definition continuation :: "char \<Rightarrow> bool" where
  "continuation c \<longleftrightarrow> 128 \<le> (of_char c :: nat) \<and> (of_char c :: nat) < 192"

definition second_byte :: "nat \<Rightarrow> nat \<Rightarrow> bool" where
  "second_byte n m \<longleftrightarrow>
     (if n = 224 then 160 \<le> m \<and> m < 192 else if n = 237 then 128 \<le> m \<and> m < 160
      else if n = 240 then 144 \<le> m \<and> m < 192 else if n = 244 then 128 \<le> m \<and> m < 144
      else 128 \<le> m \<and> m < 192)"

definition rune_width :: "string \<Rightarrow> nat" where
  "rune_width s = (case s of
     [] \<Rightarrow> 0
   | c # r \<Rightarrow>
       (let n = of_char c;
            k = (if 194 \<le> n \<and> n < 224 then 1 else if 224 \<le> n \<and> n < 240 then 2
                 else if 240 \<le> n \<and> n < 245 then 3 else 0)
        in if k \<le> length r \<and> list_all continuation (take k r) \<and> (k = 0 \<or> second_byte n (of_char (hd r)))
           then k + 1 else 1))"

lemma rune_width_pos: "s \<noteq> [] \<Longrightarrow> 0 < rune_width s"
  by (cases s) (simp_all add: rune_width_def Let_def)

function runes :: "string \<Rightarrow> string list" where
  "runes s = (if s = [] then [] else take (rune_width s) s # runes (drop (rune_width s) s))"
  by pat_completeness auto
termination by (relation "measure length") (auto simp: rune_width_pos)

declare runes.simps [simp del]

definition replacement_rune :: string where "replacement_rune = [CHR 0xEF, CHR 0xBF, CHR 0xBD]"

text \<open>Converting to runes and back replaces each invalid byte.\<close>

definition encode_rune :: "string \<Rightarrow> string" where
  "encode_rune r = (if length r = 1 \<and> \<not> is_ascii (hd r) then replacement_rune else r)"

definition blocker_message :: "string option \<Rightarrow> string" where
  "blocker_message blocker =
     (case blocker of
        None \<Rightarrow> []
      | Some err \<Rightarrow>
          (let ls = filter (\<lambda>l. l \<noteq> []) (map trim_space (split_on (CHR 0x0A) err));
               message = join ''; '' ls; rs = runes message
           in if length rs > blockerMessageMaxLen
              then concat (map encode_rune (take blockerMessageMaxLen rs)) @ ellipsis else message))"

definition observe_provision_gate :: "registry \<Rightarrow> string \<Rightarrow> 64 word \<Rightarrow> string \<Rightarrow> string option \<Rightarrow> int \<Rightarrow> registry" where
  "observe_provision_gate s name generation gate blocker now =
     (if \<not> is_current s name generation then s
      else s\<lparr>rg_blockers := AList.update name \<lparr>pb_gate = gate, pb_message = blocker_message blocker, pb_at = now\<rparr>
               (rg_blockers s)\<rparr>)"

subsection \<open>Storage records\<close>

definition cancel_probe :: "string \<Rightarrow> registry \<Rightarrow> registry" where
  "cancel_probe name s =
     (case map_of (rg_probes s) name of
        None \<Rightarrow> s
      | Some g \<Rightarrow> s\<lparr>rg_cancelled_probes := g # rg_cancelled_probes s, rg_probes := AList.delete name (rg_probes s)\<rparr>)"

definition invalidate_storage_phase :: "registry \<Rightarrow> string \<Rightarrow> registry" where
  "invalidate_storage_phase s name =
     cancel_probe name
       (s\<lparr>rg_phases := AList.delete name (rg_phases s), rg_probe_failures := AList.delete name (rg_probe_failures s),
          rg_failures := AList.delete name (rg_failures s), rg_blockers := AList.delete name (rg_blockers s)\<rparr>)"

definition record_storage_phase :: "registry \<Rightarrow> string \<Rightarrow> storage_phase \<Rightarrow> registry" where
  "record_storage_phase s name phase =
     (let phase = (if phase = StoragePhaseUnset then StoragePhaseProvisioning else phase);
          s = (if phase \<noteq> StoragePhaseFailed then s\<lparr>rg_failures := AList.delete name (rg_failures s)\<rparr> else s)
      in s\<lparr>rg_phases := AList.update name phase (rg_phases s)\<rparr>)"

definition record_storage_phase_if_current :: "registry \<Rightarrow> string \<Rightarrow> 64 word \<Rightarrow> storage_phase \<Rightarrow> registry" where
  "record_storage_phase_if_current s name generation phase =
     (if \<not> is_current s name generation then s else record_storage_phase s name phase)"

definition record_storage_failure_if_current :: "registry \<Rightarrow> string \<Rightarrow> 64 word \<Rightarrow> string \<Rightarrow> registry" where
  "record_storage_failure_if_current s name generation cause =
     (if \<not> is_current s name generation then s
      else
        (let s = cancel_probe name s;
             s = s\<lparr>rg_probe_failures := AList.delete name (rg_probe_failures s),
                   rg_blockers := AList.delete name (rg_blockers s),
                   rg_failures := AList.update name (blocker_message (Some cause)) (rg_failures s)\<rparr>
         in record_storage_phase s name StoragePhaseFailed))"

record provision_result =
  res_storage_phase :: storage_phase
  res_storage_live :: bool

definition storage_phase_from_provision_result :: "provision_result \<Rightarrow> storage_phase" where
  "storage_phase_from_provision_result r =
     (if res_storage_live r \<or> res_storage_phase r = StoragePhaseLive then StoragePhaseLive
      else if res_storage_phase r = StoragePhaseProvisioning then StoragePhaseProvisioning
      else StoragePhaseUnset)"

subsection \<open>Passes\<close>

record provision_task =
  pt_item :: cluster
  pt_generation :: "64 word"
  pt_force :: bool
  pt_skip_storage :: bool

definition cluster_is_provisioned :: "cluster \<Rightarrow> bool" where
  "cluster_is_provisioned item \<longleftrightarrow> pi_cni (cl_intent item) = CNIFlannel \<or> pi_cni (cl_intent item) = CNICilium"

definition cancel_pass :: "string \<Rightarrow> registry \<Rightarrow> registry" where
  "cancel_pass name s =
     (case map_of (rg_provisions s) name of
        None \<Rightarrow> s | Some a \<Rightarrow> s\<lparr>rg_cancelled := ap_generation a # rg_cancelled s\<rparr>)"

definition begin_provision_task :: "bool \<Rightarrow> registry \<times> provision_task list \<Rightarrow> cluster \<Rightarrow> registry \<times> provision_task list" where
  "begin_provision_task skipStorage = (\<lambda>(s, tasks) item.
     if \<not> cluster_is_provisioned item then (s, tasks)
     else
       (let name = cl_name item;
            s = (if pi_csi (cl_intent item) \<noteq> [] \<and> \<not> skipStorage then
                   (let s = invalidate_storage_phase s name
                    in s\<lparr>rg_phases := AList.update name StoragePhaseProvisioning (rg_phases s)\<rparr>) else s);
            s = cancel_pass name s;
            g = rg_sequence s + 1;
            s = s\<lparr>rg_sequence := g,
                  rg_provisions := AList.update name \<lparr>ap_generation = g, ap_skip_storage = skipStorage\<rparr> (rg_provisions s)\<rparr>
        in (s, tasks @ [\<lparr>pt_item = item, pt_generation = g, pt_force = False, pt_skip_storage = skipStorage\<rparr>])))"

definition begin_provision_tasks_scoped :: "registry \<Rightarrow> cluster list \<Rightarrow> bool \<Rightarrow> registry \<times> provision_task list" where
  "begin_provision_tasks_scoped s items skipStorage = foldl (begin_provision_task skipStorage) (s, []) items"

definition force_tasks :: "provision_task list \<Rightarrow> provision_task list" where
  "force_tasks tasks = map (\<lambda>t. t\<lparr>pt_force := True\<rparr>) tasks"

definition cluster_ready :: "cluster \<Rightarrow> (string \<Rightarrow> bool) \<Rightarrow> bool" where
  "cluster_ready item node_active \<longleftrightarrow> cl_nodes item \<noteq> [] \<and> list_all (\<lambda>n. node_active (node_name n)) (cl_nodes item)"

text \<open>The flag says that a reconcile was deferred.\<close>

definition begin_node_mutation_provision ::
    "(string \<Rightarrow> bool) \<Rightarrow> registry \<Rightarrow> cluster \<Rightarrow> registry \<times> provision_task list \<times> bool" where
  "begin_node_mutation_provision node_active s item =
     (if \<not> cluster_ready item node_active then
        (invalidate_storage_phase s (cl_name item), [], cluster_is_provisioned item \<and> cl_nodes item \<noteq> [])
      else (case begin_provision_tasks_scoped s [item] False of (s, tasks) \<Rightarrow> (s, force_tasks tasks, False)))"

definition begin_bgp_provision ::
    "(string \<Rightarrow> bool) \<Rightarrow> registry \<Rightarrow> cluster \<Rightarrow> registry \<times> provision_task list \<times> bool" where
  "begin_bgp_provision node_active s item =
     (if \<not> cluster_ready item node_active then (s, [], cluster_is_provisioned item \<and> cl_nodes item \<noteq> [])
      else
        (let skipStorage = (case map_of (rg_provisions s) (cl_name item) of
               None \<Rightarrow> True | Some a \<Rightarrow> ap_skip_storage a)
         in case begin_provision_tasks_scoped s [item] skipStorage of (s, tasks) \<Rightarrow> (s, force_tasks tasks, False)))"

definition retire_pass :: "string \<Rightarrow> registry \<Rightarrow> registry" where
  "retire_pass name s =
     (if map_of (rg_provisions s) name = None then s
      else (cancel_pass name s)\<lparr>rg_provisions := AList.delete name (rg_provisions s),
              rg_blockers := AList.delete name (rg_blockers s)\<rparr>)"

definition finish_provision :: "registry \<Rightarrow> string \<Rightarrow> 64 word \<Rightarrow> registry" where
  "finish_provision s name generation = (if is_current s name generation then retire_pass name s else s)"

text \<open>The part of a drain under the lock; the wait for the pass to end follows outside it.\<close>

definition drain_provision :: "registry \<Rightarrow> string \<Rightarrow> registry" where
  "drain_provision s name = retire_pass name s"

definition cancel_provision_for_handover :: "registry \<Rightarrow> string \<Rightarrow> registry" where
  "cancel_provision_for_handover s name = cancel_pass name s"

definition cancel_provision :: "registry \<Rightarrow> string \<Rightarrow> registry" where
  "cancel_provision s name = retire_pass name s"

definition cancel_all_provisions :: "registry \<Rightarrow> registry" where
  "cancel_all_provisions s = fold retire_pass (keys (rg_provisions s)) s"

subsection \<open>Storage probes\<close>

definition storageProbeRetryBackoff :: int where "storageProbeRetryBackoff = Minute"
definition provisionBlockerFreshness :: int where "provisionBlockerFreshness = 10 * Second"

definition backing_off :: "probe_failure option \<Rightarrow> int \<Rightarrow> bool" where
  "backing_off f now \<longleftrightarrow> (case f of Some f \<Rightarrow> time_sub now (pf_at f) < storageProbeRetryBackoff | None \<Rightarrow> False)"

text \<open>The result has the generation of the probe that was started, if one was.\<close>

definition begin_storage_status_probe ::
    "(string \<Rightarrow> bool) \<Rightarrow> registry \<Rightarrow> string \<Rightarrow> int \<Rightarrow> registry \<times> 64 word option" where
  "begin_storage_status_probe running s name now =
     (if \<not> running name \<or> backing_off (map_of (rg_probe_failures s) name) now \<or>
         map_of (rg_phases s) name = Some StoragePhaseLive \<or> map_of (rg_phases s) name = Some StoragePhaseFailed \<or>
         map_of (rg_probes s) name \<noteq> None
      then (s, None)
      else
        (let g = rg_probe_sequence s + 1
         in (s\<lparr>rg_probe_sequence := g, rg_probes := AList.update name g (rg_probes s)\<rparr>, Some g)))"

datatype probe_outcome = ProbePassed | ProbePending string | ProbeFailed string

definition run_storage_status_probe ::
    "(string \<Rightarrow> bool) \<Rightarrow> registry \<Rightarrow> string \<Rightarrow> 64 word \<Rightarrow> probe_outcome \<Rightarrow> int \<Rightarrow> registry" where
  "run_storage_status_probe running s name generation outcome now =
     (if map_of (rg_probes s) name \<noteq> Some generation then s
      else
        (let s = cancel_probe name s;
             record = (\<lambda>message pending.
               if running name then
                 s\<lparr>rg_probe_failures := AList.update name \<lparr>pf_message = message, pf_at = now, pf_pending = pending\<rparr>
                     (rg_probe_failures s)\<rparr>
               else s)
         in case outcome of
              ProbePending message \<Rightarrow> record message True
            | ProbePassed \<Rightarrow>
                if running name then
                  record_storage_phase (s\<lparr>rg_probe_failures := AList.delete name (rg_probe_failures s)\<rparr>)
                    name StoragePhaseLive
                else s
            | ProbeFailed message \<Rightarrow> record message False))"

text \<open>What a status says of the storage of one cluster, from a snapshot of the registry, and whether it
  asks for a probe.\<close>

definition refresh_storage_one :: "registry \<Rightarrow> int \<Rightarrow> cluster_status \<Rightarrow> cluster_status \<times> bool" where
  "refresh_storage_one s now c =
     (let name = c_name c;
          c = c\<lparr>c_storage_phase := StoragePhaseUnset, c_storage_error := [], c_storage_pending := [], c_storage_gate := []\<rparr>
      in if pi_csi (c_intent c) = [] \<or> \<not> c_running c then (c, False)
         else if map_of (rg_phases s) name = Some StoragePhaseLive then (c\<lparr>c_storage_phase := StoragePhaseLive\<rparr>, False)
         else if map_of (rg_phases s) name = Some StoragePhaseFailed then
           (c\<lparr>c_storage_phase := StoragePhaseFailed,
              c_storage_error := (case map_of (rg_failures s) name of Some m \<Rightarrow> m | None \<Rightarrow> [])\<rparr>, False)
         else if map_of (rg_provisions s) name \<noteq> None \<or> \<not> c_kubernetes_ready c then
           (let c = c\<lparr>c_storage_phase := StoragePhaseProvisioning\<rparr>
            in case map_of (rg_blockers s) name of
                 None \<Rightarrow> (c, False)
               | Some b \<Rightarrow>
                   if time_sub now (pb_at b) < provisionBlockerFreshness
                   then (c\<lparr>c_storage_gate := pb_gate b, c_storage_error := pb_message b\<rparr>, False) else (c, False))
         else
           (let c = c\<lparr>c_storage_phase := StoragePhaseProvisioning\<rparr>; f = map_of (rg_probe_failures s) name
            in if backing_off f now then
                 (case f of
                    Some f \<Rightarrow> if pf_pending f then (c\<lparr>c_storage_pending := pf_message f\<rparr>, False)
                              else (c\<lparr>c_storage_error := pf_message f\<rparr>, False)
                  | None \<Rightarrow> (c, False))
               else (c, True)))"

definition refresh_storage_step ::
    "(string \<Rightarrow> bool) \<Rightarrow> registry \<Rightarrow> int \<Rightarrow> registry \<times> cluster_status list \<Rightarrow> cluster_status
     \<Rightarrow> registry \<times> cluster_status list" where
  "refresh_storage_step running snapshot now = (\<lambda>(s, out) c.
     case refresh_storage_one snapshot now c of (c', probe) \<Rightarrow>
       (if probe then fst (begin_storage_status_probe running s (c_name c) now) else s, out @ [c']))"

definition refresh_storage_phases ::
    "(string \<Rightarrow> bool) \<Rightarrow> registry \<Rightarrow> int \<Rightarrow> cluster_status list \<Rightarrow> registry \<times> cluster_status list" where
  "refresh_storage_phases running s now statuses = foldl (refresh_storage_step running s now) (s, []) statuses"

subsection \<open>Runs of the registry\<close>

text \<open>What a pass comes back with: nothing was to be done, it converged, or it ended in an error of a stage
  before storage; an error of the storage stage is recorded separately.\<close>

datatype pass_result = FastNoop | Converged provision_result | Aborted

fun pass_phase :: "pass_result \<Rightarrow> storage_phase" where
  "pass_phase FastNoop = StoragePhaseLive"
| "pass_phase (Converged r) = storage_phase_from_provision_result r"
| "pass_phase Aborted = StoragePhaseUnset"

datatype registry_op =
    BeginPasses "cluster list" bool
  | NodeMutation "string \<Rightarrow> bool" cluster
  | BgpChange "string \<Rightarrow> bool" cluster
  | GateObserved string "64 word" string "string option" int
  | PassDone string "64 word" pass_result
  | StorageStageFailed string "64 word" string
  | FinishPass string "64 word"
  | DrainPass string
  | HandOver string
  | CancelPass string
  | CancelAll
  | Invalidate string
  | BeginProbe "string \<Rightarrow> bool" string int
  | ProbeDone "string \<Rightarrow> bool" string "64 word" probe_outcome int

fun registry_step :: "registry \<Rightarrow> registry_op \<Rightarrow> registry" where
  "registry_step s (BeginPasses items skip) = fst (begin_provision_tasks_scoped s items skip)"
| "registry_step s (NodeMutation active item) = fst (begin_node_mutation_provision active s item)"
| "registry_step s (BgpChange active item) = fst (begin_bgp_provision active s item)"
| "registry_step s (GateObserved name g gate msg now) = observe_provision_gate s name g gate msg now"
| "registry_step s (PassDone name g r) = record_storage_phase_if_current s name g (pass_phase r)"
| "registry_step s (StorageStageFailed name g cause) = record_storage_failure_if_current s name g cause"
| "registry_step s (FinishPass name g) = finish_provision s name g"
| "registry_step s (DrainPass name) = drain_provision s name"
| "registry_step s (HandOver name) = cancel_provision_for_handover s name"
| "registry_step s (CancelPass name) = cancel_provision s name"
| "registry_step s CancelAll = cancel_all_provisions s"
| "registry_step s (Invalidate name) = invalidate_storage_phase s name"
| "registry_step s (BeginProbe running name now) = fst (begin_storage_status_probe running s name now)"
| "registry_step s (ProbeDone running name g outcome now) = run_storage_status_probe running s name g outcome now"

subsection \<open>Storage records stay consistent\<close>

named_theorems registry_simps

lemma cancel_probe_simps [registry_simps]:
  "rg_phases (cancel_probe name s) = rg_phases s" "rg_failures (cancel_probe name s) = rg_failures s"
  "rg_probe_failures (cancel_probe name s) = rg_probe_failures s"
  "rg_blockers (cancel_probe name s) = rg_blockers s"
  "rg_provisions (cancel_probe name s) = rg_provisions s" "rg_sequence (cancel_probe name s) = rg_sequence s"
  "rg_cancelled (cancel_probe name s) = rg_cancelled s"
  "map_of (rg_probes (cancel_probe name s)) n = (if n = name then None else map_of (rg_probes s) n)"
  by (auto simp: cancel_probe_def delete_conv' split: option.split)

lemma cancel_pass_simps [registry_simps]:
  "rg_phases (cancel_pass name s) = rg_phases s" "rg_failures (cancel_pass name s) = rg_failures s"
  "rg_probe_failures (cancel_pass name s) = rg_probe_failures s" "rg_probes (cancel_pass name s) = rg_probes s"
  "rg_provisions (cancel_pass name s) = rg_provisions s" "rg_sequence (cancel_pass name s) = rg_sequence s"
  "rg_blockers (cancel_pass name s) = rg_blockers s"
  by (simp_all add: cancel_pass_def split: option.split)

lemma retire_pass_simps [registry_simps]:
  "rg_phases (retire_pass name s) = rg_phases s" "rg_failures (retire_pass name s) = rg_failures s"
  "rg_probe_failures (retire_pass name s) = rg_probe_failures s" "rg_probes (retire_pass name s) = rg_probes s"
  "rg_sequence (retire_pass name s) = rg_sequence s"
  "map_of (rg_provisions (retire_pass name s)) n = (if n = name then None else map_of (rg_provisions s) n)"
  by (auto simp: retire_pass_def cancel_pass_simps delete_conv')

text \<open>A cause is on record exactly for the clusters whose storage failed, and nothing that could still speak
  for such a cluster's storage is left.\<close>

definition storage_ok :: "registry \<Rightarrow> bool" where
  "storage_ok s \<longleftrightarrow> (\<forall>n. (map_of (rg_failures s) n \<noteq> None \<longleftrightarrow> map_of (rg_phases s) n = Some StoragePhaseFailed) \<and>
     (map_of (rg_phases s) n = Some StoragePhaseFailed \<longrightarrow>
       map_of (rg_probes s) n = None \<and> map_of (rg_probe_failures s) n = None))"

lemma storage_ok_cong:
  assumes "rg_phases s = rg_phases t" "rg_failures s = rg_failures t" "rg_probes s = rg_probes t"
    "rg_probe_failures s = rg_probe_failures t"
  shows "storage_ok s = storage_ok t"
  using assms by (simp add: storage_ok_def)

lemma storage_ok_retire: "storage_ok (retire_pass name s) = storage_ok s"
  by (rule storage_ok_cong) (simp_all add: retire_pass_simps)

lemma storage_ok_cancel_pass: "storage_ok (cancel_pass name s) = storage_ok s"
  by (rule storage_ok_cong) (simp_all add: cancel_pass_simps)

lemma storage_ok_invalidate: "storage_ok s \<Longrightarrow> storage_ok (invalidate_storage_phase s name)"
  by (simp add: storage_ok_def invalidate_storage_phase_def cancel_probe_simps delete_conv')

lemma storage_ok_record:
  "storage_ok s \<Longrightarrow> phase \<noteq> StoragePhaseFailed \<Longrightarrow> storage_ok (record_storage_phase s name phase)"
  by (auto simp: storage_ok_def record_storage_phase_def Let_def update_conv' delete_conv')

lemma storage_ok_failure: "storage_ok s \<Longrightarrow> storage_ok (record_storage_failure_if_current s name g cause)"
  by (auto simp: storage_ok_def record_storage_failure_if_current_def record_storage_phase_def cancel_probe_simps
      Let_def update_conv' delete_conv')

lemma storage_ok_provisioning:
  "storage_ok s \<Longrightarrow> storage_ok ((invalidate_storage_phase s name)
     \<lparr>rg_phases := AList.update name StoragePhaseProvisioning (rg_phases (invalidate_storage_phase s name))\<rparr>)"
  by (auto simp: storage_ok_def invalidate_storage_phase_def cancel_probe_simps update_conv' delete_conv')

lemma storage_ok_begin:
  "storage_ok (fst st) \<Longrightarrow> storage_ok (fst (begin_provision_task skip st item))"
  using storage_ok_provisioning [of "fst st" "cl_name item"]
  by (cases st) (auto simp: begin_provision_task_def Let_def storage_ok_def cancel_pass_simps)

lemma storage_ok_begins:
  "storage_ok s \<Longrightarrow> storage_ok (fst (begin_provision_tasks_scoped s items skip))"
proof -
  have "storage_ok (fst st) \<Longrightarrow> storage_ok (fst (foldl (begin_provision_task skip) st items))" for st
    by (induction items arbitrary: st) (simp_all add: storage_ok_begin)
  then show "storage_ok s \<Longrightarrow> storage_ok (fst (begin_provision_tasks_scoped s items skip))"
    by (simp add: begin_provision_tasks_scoped_def)
qed

lemma storage_ok_probe_begin: "storage_ok s \<Longrightarrow> storage_ok (fst (begin_storage_status_probe running s name now))"
  by (auto simp: storage_ok_def begin_storage_status_probe_def Let_def update_conv')

lemma storage_ok_probe_done:
  assumes "storage_ok s"
  shows "storage_ok (run_storage_status_probe running s name g outcome now)"
proof (cases "map_of (rg_probes s) name = Some g")
  case True
  with assms have "map_of (rg_phases s) name \<noteq> Some StoragePhaseFailed" by (auto simp: storage_ok_def)
  with assms True show ?thesis
    by (cases outcome) (auto simp: storage_ok_def run_storage_status_probe_def record_storage_phase_def
        cancel_probe_simps Let_def update_conv' delete_conv')
qed (use assms in \<open>simp add: run_storage_status_probe_def\<close>)

lemma pass_phase_not_failed: "pass_phase r \<noteq> StoragePhaseFailed"
  by (cases r) (simp_all add: storage_phase_from_provision_result_def)

lemma storage_ok_cancel_all: "storage_ok s \<Longrightarrow> storage_ok (cancel_all_provisions s)"
proof -
  have "storage_ok s \<Longrightarrow> storage_ok (fold retire_pass ns s)" for ns
    by (induction ns arbitrary: s) (simp_all add: storage_ok_retire)
  then show "storage_ok s \<Longrightarrow> storage_ok (cancel_all_provisions s)" by (simp add: cancel_all_provisions_def)
qed

lemma storage_ok_gate: "storage_ok (observe_provision_gate s name g gate msg now) = storage_ok s"
  by (rule storage_ok_cong) (simp_all add: observe_provision_gate_def)

lemmas storage_ok_ops = storage_ok_retire storage_ok_cancel_pass storage_ok_invalidate storage_ok_failure
  storage_ok_begins storage_ok_probe_begin storage_ok_probe_done storage_ok_cancel_all storage_ok_gate

interpretation storage: started_system registry_step storage_ok new_registry
proof
  fix s op
  assume "storage_ok s"
  then show "storage_ok (registry_step s op)"
    by (cases op) (simp_all add: storage_ok_ops storage_ok_record pass_phase_not_failed
        begin_node_mutation_provision_def begin_bgp_provision_def record_storage_phase_if_current_def
        finish_provision_def drain_provision_def cancel_provision_for_handover_def cancel_provision_def
        split_beta Let_def)
next
  show "storage_ok new_registry" by (simp add: storage_ok_def new_registry_def)
qed

text \<open>C11: A storage failure is a settled verdict. After any run of the registry, a cause is on record exactly
  for the clusters whose storage phase is failed; for such a cluster no probe is started and none that is
  still out can change anything, and a status of the running cluster reports the failure with its cause.\<close>

theorem failed_storage_settled:
  assumes "s = foldl registry_step new_registry ops"
  shows "(map_of (rg_failures s) n \<noteq> None \<longleftrightarrow> map_of (rg_phases s) n = Some StoragePhaseFailed) \<and>
    (map_of (rg_phases s) n = Some StoragePhaseFailed \<longrightarrow>
      (\<forall>running now. begin_storage_status_probe running s n now = (s, None)) \<and>
      (\<forall>running g outcome now. run_storage_status_probe running s n g outcome now = s) \<and>
      (\<exists>m. map_of (rg_failures s) n = Some m \<and>
        (\<forall>c now. c_name c = n \<and> pi_csi (c_intent c) \<noteq> [] \<and> c_running c \<longrightarrow>
          refresh_storage_one s now c =
            (c\<lparr>c_storage_phase := StoragePhaseFailed, c_storage_error := m, c_storage_pending := [],
               c_storage_gate := []\<rparr>, False))))"
proof -
  have ok: "storage_ok s" unfolding assms by (rule storage.inv_run)
  then have iff: "map_of (rg_failures s) n \<noteq> None \<longleftrightarrow> map_of (rg_phases s) n = Some StoragePhaseFailed"
    by (simp add: storage_ok_def)
  show ?thesis
  proof (intro conjI impI iff)
    assume f: "map_of (rg_phases s) n = Some StoragePhaseFailed"
    with ok have none: "map_of (rg_probes s) n = None" by (simp add: storage_ok_def)
    obtain m where m: "map_of (rg_failures s) n = Some m" using iff f by blast
    show "\<forall>running now. begin_storage_status_probe running s n now = (s, None)"
      using f by (simp add: begin_storage_status_probe_def)
    show "\<forall>running g outcome now. run_storage_status_probe running s n g outcome now = s"
      using none by (simp add: run_storage_status_probe_def)
    show "\<exists>m. map_of (rg_failures s) n = Some m \<and>
        (\<forall>c now. c_name c = n \<and> pi_csi (c_intent c) \<noteq> [] \<and> c_running c \<longrightarrow>
          refresh_storage_one s now c =
            (c\<lparr>c_storage_phase := StoragePhaseFailed, c_storage_error := m, c_storage_pending := [],
               c_storage_gate := []\<rparr>, False))"
      using f m by (intro exI [of _ m]) (auto simp: refresh_storage_one_def Let_def)
  qed
qed

definition sample_item :: cluster where
  "sample_item = zero_cluster\<lparr>cl_name := ''dev'', cl_intent := no_intent\<lparr>pi_cni := CNICilium, pi_csi := CSILonghorn\<rparr>\<rparr>"

lemmas sample_item_simps = sample_item_def zero_cluster_def no_intent_def CNICilium_def CNIFlannel_def CSILonghorn_def

lemma sample_failed_run:
  "map_of (rg_phases (foldl registry_step new_registry
     [BeginPasses [sample_item] False, StorageStageFailed ''dev'' 1 ''no space''])) ''dev'' = Some StoragePhaseFailed"
  by (simp add: begin_provision_tasks_scoped_def begin_provision_task_def cluster_is_provisioned_def
      invalidate_storage_phase_def cancel_probe_def cancel_pass_def new_registry_def is_current_def
      record_storage_failure_if_current_def record_storage_phase_def update_conv' Let_def sample_item_simps)

theorem failed_storage_settled_witness:
  "map_of (rg_failures (foldl registry_step new_registry
     [BeginPasses [sample_item] False, StorageStageFailed ''dev'' 1 ''no space''])) ''dev'' \<noteq> None"
  using failed_storage_settled [OF refl, of "[BeginPasses [sample_item] False, StorageStageFailed ''dev'' 1 ''no space'']"
      "''dev''"] sample_failed_run
  by simp

end
