(* ===== verification/Status_Round.thy ===== *)
theory Status_Round
  imports Status_Hints Provision_Registry
begin

text \<open>
  One round of status, from the daemon's snapshot to the answer: \<^verbatim>\<open>status\<close>, \<^verbatim>\<open>refreshNodeStatuses\<close>,
  \<^verbatim>\<open>refreshKubernetesReadiness\<close> of \<^verbatim>\<open>src/internal/daemon/operations.go\<close>, and \<^verbatim>\<open>dispatchStatus\<close> of
  \<^verbatim>\<open>server.go\<close>, which composes them with the readiness log and the storage records; and the periodic scan
  \<^verbatim>\<open>observeNodeStalls\<close> of \<^verbatim>\<open>node_stall.go\<close>. What the round asks others - leases, probes of the machine API,
  Kubernetes, files of saved memory - are functions of an environment. The probes of different nodes run
  concurrently; they touch different keys of the reboot log, so the model asks node after node.
\<close>

subsection \<open>The environment\<close>

record status_env =
  env_lookup_ip :: "string \<Rightarrow> int \<Rightarrow> string"
  env_probe :: "string \<Rightarrow> probe_result"
  env_boot_time :: "string \<Rightarrow> string \<Rightarrow> 64 word option"
  env_services :: "string \<Rightarrow> string \<Rightarrow> node_service list \<times> service_probe"
  env_kubernetes_ready :: "string \<Rightarrow> string list \<Rightarrow> bool"
  env_load_balancer_vip :: "string \<Rightarrow> (string \<times> bool) option"
  env_cluster_saved :: "string \<Rightarrow> bool"
  env_node_saved :: "string \<Rightarrow> string \<Rightarrow> bool"
  env_stale :: "cluster \<Rightarrow> bool"
  env_hypervisor :: "cluster \<Rightarrow> string"
  env_guest_agent :: "cluster \<Rightarrow> string + (bool \<times> string)"
  env_trusted :: "string \<Rightarrow> bool"

subsection \<open>The snapshot\<close>

definition GuestAgent :: string where "GuestAgent = ''qemu-guest-agent''"

definition requested :: "string list \<Rightarrow> string \<Rightarrow> bool" where
  "requested items name = list_ex (\<lambda>item. item = name) items"

definition extension_list :: "cluster \<Rightarrow> string list" where
  "extension_list item = (case cl_talos_extensions item of Some es \<Rightarrow> es | None \<Rightarrow> [])"

definition cluster_capabilities :: "status_env \<Rightarrow> cluster \<Rightarrow> capability_status list" where
  "cluster_capabilities env item =
     (if \<not> requested (extension_list item) GuestAgent then []
      else (case env_guest_agent env item of
          Inl err \<Rightarrow> [\<lparr>cap_name = GuestAgent, cap_supported = False, cap_reason = err\<rparr>]
        | Inr (supported, reason) \<Rightarrow> [\<lparr>cap_name = GuestAgent, cap_supported = supported, cap_reason = reason\<rparr>]))"

definition node_snapshot :: "bool \<Rightarrow> int option \<Rightarrow> bool \<Rightarrow> node \<Rightarrow> node_status" where
  "node_snapshot running started suspended n =
     \<lparr>n_name = node_name n, n_role = node_role n, n_mac = node_mac n, n_ip = [], n_apid_reachable = False,
      n_phase = classify_phase running no_probe, n_suspended = suspended, n_kubelet = None, n_services = [],
      n_stalled_services = [], n_service_probe = None, n_started_at = started, n_unreachable_since = None,
      n_rebooted_at = None\<rparr>"

definition initial_node_status :: "status_env \<Rightarrow> inventory \<Rightarrow> trackers \<Rightarrow> string \<Rightarrow> node \<Rightarrow> node_status" where
  "initial_node_status env vms t cl n =
     (let running = node_running vms cl (node_name n)
      in suspended_phase (node_snapshot running (vm_started_at t cl (node_name n))
           (\<not> running \<and> env_node_saved env cl (node_name n)) n))"

definition initial_status :: "status_env \<Rightarrow> inventory \<Rightarrow> trackers \<Rightarrow> cluster \<Rightarrow> cluster_status" where
  "initial_status env vms t item =
     (let running = cluster_running vms (cl_name item)
      in \<lparr>c_name = cl_name item, c_subnet = subnet_cidr (cl_subnet_index item), c_hypervisor = env_hypervisor env item,
          c_domain = effective_domain item, c_allow_unsafe_domain = cl_allow_unsafe_domain item,
          c_talos_version = cl_talos_version item, c_schematic = cl_schematic item,
          c_base_schematic = cl_base_schematic item, c_talos_extensions = extension_list item,
          c_intent = cl_intent item, c_bgp = pi_bgp (cl_intent item), c_running = running,
          c_suspended = (\<not> running \<and> env_cluster_saved env (cl_name item)),
          c_saved_state_stale = (\<not> running \<and> env_stale env item), c_kubernetes_ready = False,
          c_not_ready_since = None, c_storage_phase = StoragePhaseUnset, c_storage_error = [],
          c_storage_pending = [], c_storage_gate = [], c_vip = [], c_vip_live = False,
          c_nodes = map (initial_node_status env vms t (cl_name item)) (cl_nodes item),
          c_capabilities = cluster_capabilities env item, c_config_origin = cl_config_origin item,
          c_subnet_index = cl_subnet_index item\<rparr>)"

text \<open>The arguments, if they decode, name one cluster in one of two fields, or ask for all; loading may fail.\<close>

definition status ::
    "status_env \<Rightarrow> inventory \<Rightarrow> trackers \<Rightarrow> (string \<Rightarrow> 'e + cluster) \<Rightarrow> 'e + cluster list \<Rightarrow> 'e + (string \<times> string)
     \<Rightarrow> 'e + cluster_status list" where
  "status env vms t load clusters args =
     try_bind args (\<lambda>(cl, name).
       let cl = (if cl = [] then name else cl)
       in try_bind (if cl \<noteq> [] then try_bind (load cl) (\<lambda>item. Inr [item]) else clusters)
            (\<lambda>items. Inr (map (initial_status env vms t) items)))"

subsection \<open>Nodes\<close>

definition serviceStallThreshold :: int where "serviceStallThreshold = 3 * Minute"

definition clamp_since :: "int option \<Rightarrow> int \<Rightarrow> int" where
  "clamp_since started since = (case started of Some t \<Rightarrow> if since < t then t else since | None \<Rightarrow> since)"

definition stalled_since :: "(string \<Rightarrow> string \<Rightarrow> bool) \<Rightarrow> int option \<Rightarrow> int \<Rightarrow> node_service \<Rightarrow> stalled_service list" where
  "stalled_since U started now s =
     (if \<not> equal_fold U (sv_state s) ''Preparing'' \<and> \<not> equal_fold U (sv_state s) ''Starting'' then []
      else (case sv_since s of
          None \<Rightarrow> []
        | Some since \<Rightarrow>
            if now < since then []
            else if time_sub now (clamp_since started since) \<le> serviceStallThreshold then []
            else [\<lparr>ss_service = sv_name s, ss_state = sv_state s, ss_since = clamp_since started since\<rparr>]))"

text \<open>Sorted by time and then by name. The code's sort need not keep the order of equal elements; here, as in
  the sort of services below, such elements stay in the order given.\<close>

definition stalled_services ::
    "(string \<Rightarrow> string \<Rightarrow> bool) \<Rightarrow> node_service list \<Rightarrow> int option \<Rightarrow> int \<Rightarrow> stalled_service list" where
  "stalled_services U services started now =
     sort_key ss_since (sort_key ss_service (concat (map (stalled_since U started now) services)))"

definition apply_node_services ::
    "(string \<Rightarrow> string \<Rightarrow> bool) \<Rightarrow> int \<Rightarrow> node_service list \<Rightarrow> service_probe \<Rightarrow> node_status \<Rightarrow> node_status" where
  "apply_node_services U now services probe n =
     (let svs = map (\<lambda>s. s\<lparr>sv_since := map_option (clamp_since (n_started_at n)) (sv_since s)\<rparr>) (sort_key sv_name services);
          kubelets = filter (\<lambda>s. sv_name s = kubeletService) svs
      in n\<lparr>n_service_probe := Some probe, n_services := svs,
           n_kubelet := (if kubelets = [] then n_kubelet n else Some (last kubelets)),
           n_stalled_services := stalled_services U svs (n_started_at n) now\<rparr>)"

text \<open>The line about a reboot: cluster, node, boot time before and after.\<close>

type_synonym reboot_line = "string \<times> string \<times> 64 word \<times> 64 word"

definition apply_node_reboot ::
    "string \<Rightarrow> reboot_probe \<Rightarrow> 64 word option \<Rightarrow> int \<Rightarrow> reboot_log \<Rightarrow> node_status
     \<Rightarrow> reboot_log \<times> node_status \<times> reboot_line list" where
  "apply_node_reboot cl probe boot now l n =
     (let key = node_key cl (n_name n);
          n = n\<lparr>n_rebooted_at := None,
                n_phase := (if n_phase n = PhaseRebooted then PhaseConfigured else n_phase n)\<rparr>;
          (l, out) =
            (case boot of
               None \<Rightarrow> (l, [])
             | Some bt \<Rightarrow>
                 if bt = 0 then (l, [])
                 else (case complete_observe l probe bt now of (l', obs, previous, changed, applied) \<Rightarrow>
                     (l', if applied \<and> changed then [(cl, n_name n, previous, ro_boot_time obs)] else [])))
      in case reboot_current l key now of
           None \<Rightarrow> (l, n, out)
         | Some active \<Rightarrow> (l, n\<lparr>n_rebooted_at := ro_rebooted_at active, n_phase := PhaseRebooted\<rparr>, out))"

definition refresh_node_detail ::
    "(string \<Rightarrow> string \<Rightarrow> bool) \<Rightarrow> status_env \<Rightarrow> string \<Rightarrow> bool \<Rightarrow> int \<Rightarrow> reboot_log \<Rightarrow> node_status
     \<Rightarrow> reboot_log \<times> node_status" where
  "refresh_node_detail U env cl running now l n =
     (if \<not> phase_configured (n_phase n) \<or> n_ip n = [] then (l, n)
      else
        (case begin_observe l (node_key cl (n_name n)) of (l, probe) \<Rightarrow>
           (case apply_node_reboot cl probe (env_boot_time env cl (n_ip n)) now l n of (l, m, _) \<Rightarrow>
              (l, if running then
                    (case env_services env cl (n_ip n) of (services, p) \<Rightarrow> apply_node_services U now services p m)
                  else m))))"

text \<open>The live state of a node: where it is, what it answers, since when it does not.\<close>

definition refresh_node_live ::
    "status_env \<Rightarrow> string \<Rightarrow> int \<Rightarrow> int \<Rightarrow> reachability_log \<Rightarrow> node_status \<Rightarrow> reachability_log \<times> node_status" where
  "refresh_node_live env cl subnet_index now l snapshot =
     (let node = \<lparr>node_name = n_name snapshot, node_role = n_role snapshot, node_mac = n_mac snapshot, node_ip = []\<rparr>;
          m = node_status_with node subnet_index (\<not> phase_stopped (n_phase snapshot)) (env_lookup_ip env) (env_probe env);
          m = suspended_phase (m\<lparr>n_started_at := n_started_at snapshot, n_suspended := n_suspended snapshot\<rparr>);
          (l, since) = reachability_observe l (node_key cl (n_name snapshot)) (n_phase m) now
      in (l, m\<lparr>n_unreachable_since := since\<rparr>))"

fun map_state :: "('s \<Rightarrow> 'a \<Rightarrow> 's \<times> 'b) \<Rightarrow> 's \<Rightarrow> 'a list \<Rightarrow> 's \<times> 'b list" where
  "map_state f s [] = (s, [])"
| "map_state f s (x # xs) = (case f s x of (s, y) \<Rightarrow> case map_state f s xs of (s, ys) \<Rightarrow> (s, y # ys))"

definition refresh_live :: "status_env \<Rightarrow> int \<Rightarrow> reachability_log \<Rightarrow> cluster_status \<Rightarrow> reachability_log \<times> cluster_status" where
  "refresh_live env now l c =
     (case map_state (refresh_node_live env (c_name c) (c_subnet_index c) now) l (c_nodes c) of
        (l, ns) \<Rightarrow> (l, c\<lparr>c_nodes := ns\<rparr>))"

definition refresh_details ::
    "(string \<Rightarrow> string \<Rightarrow> bool) \<Rightarrow> status_env \<Rightarrow> int \<Rightarrow> reboot_log \<Rightarrow> cluster_status \<Rightarrow> reboot_log \<times> cluster_status" where
  "refresh_details U env now l c =
     (case map_state (refresh_node_detail U env (c_name c) (c_running c) now) l (c_nodes c) of
        (l, ns) \<Rightarrow> (l, c\<lparr>c_nodes := ns\<rparr>))"

definition refresh_node_statuses ::
    "(string \<Rightarrow> string \<Rightarrow> bool) \<Rightarrow> status_env \<Rightarrow> int \<Rightarrow> trackers \<Rightarrow> cluster_status list
     \<Rightarrow> trackers \<times> cluster_status list \<times> stall_line list" where
  "refresh_node_statuses U env now t statuses =
     (let (reach, statuses) = map_state (refresh_live env now) (t_reachability t) statuses;
          (reboots, statuses) = map_state (refresh_details U env now) (t_reboots t) statuses;
          (stalls, ls) = log_node_stalls (t_stalls t) statuses now
      in (t\<lparr>t_reachability := reach, t_reboots := reboots, t_stalls := stalls\<rparr>, statuses, ls))"

subsection \<open>Clusters\<close>

definition refresh_kubernetes_readiness_one :: "status_env \<Rightarrow> cluster_status \<Rightarrow> cluster_status" where
  "refresh_kubernetes_readiness_one env c =
     (if pi_cni (c_intent c) \<noteq> CNIFlannel \<and> pi_cni (c_intent c) \<noteq> CNICilium then c
      else if \<not> c_running c then c\<lparr>c_kubernetes_ready := False, c_vip := [], c_vip_live := False\<rparr>
      else
        (let c = c\<lparr>c_kubernetes_ready := env_kubernetes_ready env (c_name c) (map n_name (c_nodes c))\<rparr>
         in if c_kubernetes_ready c \<and> pi_lb (c_intent c) then
              (case env_load_balancer_vip env (c_name c) of
                 None \<Rightarrow> c | Some (vip, live) \<Rightarrow> c\<lparr>c_vip := vip, c_vip_live := live\<rparr>)
            else c))"

text \<open>The answer has each cluster's status, what is still settling, and the hints. The three instants are
  those of the node refresh, of the readiness observation, and of the last stage.\<close>

definition answer_statuses ::
    "(string \<Rightarrow> string \<Rightarrow> bool) \<Rightarrow> status_env \<Rightarrow> (string \<Rightarrow> bool) \<Rightarrow> int \<Rightarrow> int \<Rightarrow> int \<Rightarrow> trackers \<times> registry
     \<Rightarrow> cluster_status list
     \<Rightarrow> (trackers \<times> registry) \<times> (cluster_status \<times> reason list \<times> hint list) list \<times> stall_line list" where
  "answer_statuses U env running now1 now2 now3 = (\<lambda>(t, r) statuses.
     let (t, statuses, ls) = refresh_node_statuses U env now1 t statuses;
         statuses = map (refresh_kubernetes_readiness_one env) statuses;
         (readiness, statuses) = observe_kubernetes_readiness (t_readiness t) statuses now2;
         t = t\<lparr>t_readiness := readiness\<rparr>;
         (r, statuses) = refresh_storage_phases running r now3 statuses
     in ((t, r), map (\<lambda>c. (c, converging_reasons c now3, hints_at (env_trusted env) c now3)) statuses, ls))"

text \<open>The whole request: the snapshot is taken under the lock, from the trackers as they are then; other requests
  may have changed them when the answer is put together.\<close>

definition dispatch_status ::
    "(string \<Rightarrow> string \<Rightarrow> bool) \<Rightarrow> status_env \<Rightarrow> inventory \<Rightarrow> trackers \<Rightarrow> (string \<Rightarrow> 'e + cluster) \<Rightarrow> 'e + cluster list
     \<Rightarrow> 'e + (string \<times> string) \<Rightarrow> (string \<Rightarrow> bool) \<Rightarrow> int \<Rightarrow> int \<Rightarrow> int \<Rightarrow> trackers \<times> registry
     \<Rightarrow> (trackers \<times> registry) \<times> ('e + (cluster_status \<times> reason list \<times> hint list) list \<times> stall_line list)" where
  "dispatch_status U env vms t0 load clusters args running now1 now2 now3 st =
     (case status env vms t0 load clusters args of
        Inl e \<Rightarrow> (st, Inl e)
      | Inr statuses \<Rightarrow>
          (case answer_statuses U env running now1 now2 now3 st statuses of
             (st, answer, ls) \<Rightarrow> (st, Inr (answer, ls))))"

text \<open>The periodic scan: the clusters that load, and of each the nodes that have a machine.\<close>

definition blank_status :: "string \<Rightarrow> int \<Rightarrow> node_status list \<Rightarrow> cluster_status" where
  "blank_status name subnet_index ns =
     \<lparr>c_name = name, c_subnet = [], c_hypervisor = [], c_domain = [], c_allow_unsafe_domain = False,
      c_talos_version = [], c_schematic = [], c_base_schematic = [], c_talos_extensions = [], c_intent = no_intent,
      c_bgp = False, c_running = False, c_suspended = False, c_saved_state_stale = False,
      c_kubernetes_ready = False, c_not_ready_since = None, c_storage_phase = StoragePhaseUnset,
      c_storage_error = [], c_storage_pending = [], c_storage_gate = [], c_vip = [], c_vip_live = False,
      c_nodes = ns, c_capabilities = [], c_config_origin = [], c_subnet_index = subnet_index\<rparr>"

definition scan_status ::
    "trackers \<Rightarrow> (string \<Rightarrow> 'e + cluster) \<Rightarrow> string \<times> (string, bool) gomap \<Rightarrow> cluster_status list" where
  "scan_status t load = (\<lambda>(cl, machines).
     case load cl of
       Inl _ \<Rightarrow> []
     | Inr item \<Rightarrow>
         (let ns = concat (map (\<lambda>n. case map_of machines (node_name n) of
                None \<Rightarrow> []
              | Some running \<Rightarrow> [node_snapshot running (vm_started_at t cl (node_name n)) False n]) (cl_nodes item))
          in if ns = [] then [] else [blank_status (cl_name item) (cl_subnet_index item) ns]))"

definition observe_node_stalls ::
    "(string \<Rightarrow> string \<Rightarrow> bool) \<Rightarrow> status_env \<Rightarrow> int \<Rightarrow> (string \<Rightarrow> 'e + cluster) \<Rightarrow> inventory \<Rightarrow> trackers
     \<Rightarrow> trackers \<times> stall_line list" where
  "observe_node_stalls U env now load vms t =
     (case refresh_node_statuses U env now t (concat (map (scan_status t load) vms)) of (t, _, ls) \<Rightarrow> (t, ls))"

subsection \<open>What a round keeps\<close>

lemma map_state_length: "length (snd (map_state f s xs)) = length xs"
  by (induction xs arbitrary: s) (simp_all add: split_beta)

lemma map_state_rel:
  "(\<And>s x. x \<in> set xs \<Longrightarrow> R x (snd (f s x))) \<Longrightarrow> list_all2 R xs (snd (map_state f s xs))"
  by (induction xs arbitrary: s) (simp_all add: split_beta)

text \<open>A refresh changes neither what a status is about nor whether a node is stopped.\<close>

definition same_node :: "node_status \<Rightarrow> node_status \<Rightarrow> bool" where
  "same_node n m \<longleftrightarrow> n_name m = n_name n \<and> (phase_stopped (n_phase n) \<longrightarrow> phase_stopped (n_phase m))"

definition same_cluster :: "cluster_status \<Rightarrow> cluster_status \<Rightarrow> bool" where
  "same_cluster c d \<longleftrightarrow> c_name d = c_name c \<and> c_running d = c_running c \<and> c_intent d = c_intent c \<and>
     c_config_origin d = c_config_origin c \<and> list_all2 same_node (c_nodes c) (c_nodes d)"

lemma same_node_trans: "same_node a b \<Longrightarrow> same_node b c \<Longrightarrow> same_node a c"
  by (simp add: same_node_def)

lemma same_cluster_trans: "same_cluster a b \<Longrightarrow> same_cluster b c \<Longrightarrow> same_cluster a c"
  unfolding same_cluster_def by (auto intro: list_all2_trans [OF same_node_trans])

lemma same_node_live: "same_node n (snd (refresh_node_live env cl i now l n))"
  by (auto simp: same_node_def refresh_node_live_def node_status_with_def suspended_phase_def classify_phase_def
      phase_stopped_def Let_def split_beta)

lemma apply_node_reboot_name: "n_name (fst (snd (apply_node_reboot cl probe boot now l n))) = n_name n"
  unfolding apply_node_reboot_def Let_def split_beta by (simp split: option.split)

lemma apply_node_services_name: "n_name (apply_node_services U now services probe n) = n_name n"
  unfolding apply_node_services_def Let_def by simp

lemma refresh_node_detail_name: "n_name (snd (refresh_node_detail U env cl running now l n)) = n_name n"
  unfolding refresh_node_detail_def split_beta by (simp add: apply_node_reboot_name apply_node_services_name)

lemma same_node_detail: "same_node n (snd (refresh_node_detail U env cl running now l n))"
proof (cases "phase_configured (n_phase n)")
  case True
  then have "\<not> phase_stopped (n_phase n)" by (auto simp: phase_configured_def phase_stopped_def)
  then show ?thesis by (simp add: same_node_def refresh_node_detail_name)
qed (simp add: same_node_def refresh_node_detail_def)

lemma same_cluster_live: "same_cluster c (snd (refresh_live env now l c))"
  by (simp add: same_cluster_def refresh_live_def split_beta map_state_rel same_node_live)

lemma same_cluster_details: "same_cluster c (snd (refresh_details U env now l c))"
  by (simp add: same_cluster_def refresh_details_def split_beta map_state_rel same_node_detail)

lemma same_node_refl: "same_node n n" by (simp add: same_node_def)

lemma same_cluster_readiness: "same_cluster c (refresh_kubernetes_readiness_one env c)"
  by (auto simp: same_cluster_def refresh_kubernetes_readiness_one_def Let_def list.rel_refl same_node_refl
      split: option.split)

lemma same_cluster_storage: "same_cluster c (fst (refresh_storage_one r now c))"
  by (auto simp: same_cluster_def refresh_storage_one_def Let_def list.rel_refl same_node_refl split: option.split)

lemma list_all2_comp:
  "list_all2 R xs ys \<Longrightarrow> list_all2 R ys zs \<Longrightarrow> (\<And>a b c. R a b \<Longrightarrow> R b c \<Longrightarrow> R a c) \<Longrightarrow> list_all2 R xs zs"
  by (rule list_all2_trans)

lemma refresh_node_statuses_same:
  assumes "refresh_node_statuses U env now t statuses = (t', out, ls)"
  shows "list_all2 same_cluster statuses out \<and> t_readiness t' = t_readiness t"
proof -
  obtain reach mid where a: "map_state (refresh_live env now) (t_reachability t) statuses = (reach, mid)" by force
  obtain reb out' where b: "map_state (refresh_details U env now) (t_reboots t) mid = (reb, out')" by force
  have "list_all2 same_cluster statuses mid" "list_all2 same_cluster mid out'"
    using map_state_rel [of statuses same_cluster "refresh_live env now" "t_reachability t"]
      map_state_rel [of mid same_cluster "refresh_details U env now" "t_reboots t"]
    by (simp_all add: a b same_cluster_live same_cluster_details)
  moreover have "out = out'" "t_readiness t' = t_readiness t"
    using assms by (auto simp: refresh_node_statuses_def a b split_beta)
  ultimately show ?thesis using list_all2_comp same_cluster_trans by blast
qed

lemma observe_readiness_one_other:
  "n \<noteq> c_name c \<Longrightarrow> map_of (fst (observe_readiness_one now c l)) n = map_of l n"
  by (simp add: observe_readiness_one_def readiness_forget_def readiness_observe_def delete_conv' update_conv'
      Let_def split_beta)

lemma observe_readiness_one_cong:
  "map_of l (c_name c) = map_of m (c_name c) \<Longrightarrow> snd (observe_readiness_one now c l) = snd (observe_readiness_one now c m)"
  by (simp add: observe_readiness_one_def readiness_observe_def Let_def split_beta)

lemma same_cluster_observe: "same_cluster c (snd (observe_readiness_one now c l))"
  by (simp add: same_cluster_def observe_readiness_one_def split_beta list.rel_refl same_node_refl)

text \<open>With distinct names each cluster is observed as if it were the only one.\<close>

lemma observe_readiness_each:
  assumes "distinct (map c_name cs)" and "\<forall>c \<in> set cs. map_of m (c_name c) = map_of l (c_name c)"
  shows "snd (foldl (\<lambda>(l, out) c. case observe_readiness_one now c l of (l', c') \<Rightarrow> (l', out @ [c'])) (m, out) cs) =
    out @ map (\<lambda>c. snd (observe_readiness_one now c l)) cs"
  using assms
proof (induction cs arbitrary: m out)
  case (Cons c cs)
  have "\<forall>d \<in> set cs. map_of (fst (observe_readiness_one now c m)) (c_name d) = map_of l (c_name d)"
  proof
    fix d assume "d \<in> set cs"
    then have "c_name d \<noteq> c_name c" using Cons.prems(1) by (simp add: image_iff) metis
    then show "map_of (fst (observe_readiness_one now c m)) (c_name d) = map_of l (c_name d)"
      using Cons.prems(2) \<open>d \<in> set cs\<close> by (simp add: observe_readiness_one_other)
  qed
  moreover have "snd (observe_readiness_one now c m) = snd (observe_readiness_one now c l)"
    using Cons.prems(2) by (intro observe_readiness_one_cong) simp
  ultimately show ?case using Cons by (simp add: split_beta)
qed simp

lemma refresh_storage_each:
  "snd (refresh_storage_phases running r now cs) = map (\<lambda>c. fst (refresh_storage_one r now c)) cs"
proof -
  have "snd (foldl (refresh_storage_step running r now) (s, out) cs) = out @ map (\<lambda>c. fst (refresh_storage_one r now c)) cs"
    for s out
    by (induction cs arbitrary: s out) (simp_all add: refresh_storage_step_def split_beta)
  then show ?thesis by (simp add: refresh_storage_phases_def)
qed

lemma same_cluster_names: "list_all2 same_cluster xs ys \<Longrightarrow> map c_name ys = map c_name xs"
  by (induction rule: list_all2_induct) (simp_all add: same_cluster_def)

lemma answer_statuses_member:
  assumes "answer_statuses U env running now1 now2 now3 (t, r) statuses = (st, answer, ls)"
    and "distinct (map c_name statuses)" and "(c, reasons, hints) \<in> set answer"
  obtains c0 d where "c0 \<in> set statuses" "same_cluster c0 d"
    "c = fst (refresh_storage_one r now3 (snd (observe_readiness_one now2 d (t_readiness t))))"
    "hints = hints_at (env_trusted env) c now3"
proof -
  obtain t1 cs ls1 where n: "refresh_node_statuses U env now1 t statuses = (t1, cs, ls1)"
    by (metis prod_cases3)
  define ds where "ds = map (refresh_kubernetes_readiness_one env) cs"
  note same = refresh_node_statuses_same [OF n]
  have all: "list_all2 same_cluster statuses ds"
    unfolding ds_def using conjunct1 [OF same]
    by (simp add: list_all2_map2) (erule list_all2_mono, blast intro: same_cluster_trans same_cluster_readiness)
  have dist: "distinct (map c_name ds)" using same_cluster_names [OF all] assms(2) by simp
  have "snd (observe_kubernetes_readiness (t_readiness t1) ds now2) =
      map (\<lambda>c. snd (observe_readiness_one now2 c (t_readiness t))) ds"
    using observe_readiness_each [OF dist, of "t_readiness t" "t_readiness t"] conjunct2 [OF same]
    by (simp add: observe_kubernetes_readiness_def)
  then have "answer = map (\<lambda>c. (c, converging_reasons c now3, hints_at (env_trusted env) c now3))
      (map (\<lambda>d. fst (refresh_storage_one r now3 (snd (observe_readiness_one now2 d (t_readiness t))))) ds)"
    using assms(1) unfolding answer_statuses_def Let_def split_beta prod.case n fst_conv snd_conv ds_def [symmetric]
      refresh_storage_each prod.inject by (simp add: comp_def)
  then obtain d where d: "d \<in> set ds" "hints = hints_at (env_trusted env) c now3"
    "c = fst (refresh_storage_one r now3 (snd (observe_readiness_one now2 d (t_readiness t))))"
    using assms(3) by auto
  obtain c0 where "c0 \<in> set statuses" "same_cluster c0 d"
    using all d(1) by (metis in_set_conv_nth list_all2_conv_all_nth)
  with d that show thesis by blast
qed

text \<open>The clusters of a round have different names, when those of the whole list do.\<close>

lemma status_items:
  assumes "status env vms t load clusters args = Inr statuses"
    and "\<And>items. clusters = Inr items \<Longrightarrow> distinct (map cl_name items)"
  obtains items where "statuses = map (initial_status env vms t) items" "distinct (map c_name statuses)"
proof -
  have d: "distinct (map cl_name items) \<Longrightarrow> distinct (map c_name (map (initial_status env vms t) items))" for items
    by (simp add: comp_def initial_status_def Let_def)
  obtain items where i: "statuses = map (initial_status env vms t) items"
    "(\<exists>item. items = [item]) \<or> clusters = Inr items"
    using assms(1) by (auto simp: status_def try_bind_eq_Inr Let_def split: if_splits)
  have j: "distinct (map cl_name items)" using i(2) assms(2) by auto
  show thesis using that [OF i(1)] d [OF j] i(1) by simp
qed

lemma initial_not_running_stopped:
  assumes "\<not> c_running (initial_status env vms t item)" "n \<in> set (c_nodes (initial_status env vms t item))"
  shows "phase_stopped (n_phase n)"
proof -
  have "\<not> node_running vms (cl_name item) k" for k
    using assms(1) by (fastforce simp: initial_status_def cluster_running_def node_running_def Let_def
        dest: map_of_SomeD split: option.splits)
  then show ?thesis
    using assms(2) by (auto simp: initial_status_def initial_node_status_def node_snapshot_def suspended_phase_def
        classify_phase_def phase_stopped_def Let_def)
qed

lemma refresh_storage_keeps:
  "c_not_ready_since (fst (refresh_storage_one r now c)) = c_not_ready_since c"
  "c_kubernetes_ready (fst (refresh_storage_one r now c)) = c_kubernetes_ready c"
  by (auto simp: refresh_storage_one_def Let_def split: option.split)

lemma destroy_hint_member:
  assumes "ProvisioningHint a (DestroyAndRecreate n f) b \<in> set (hints_at trusted c now)"
  shows "provisioning_pending c" "\<not> all_nodes phase_stopped c" "\<not> kubernetes_unready_briefly c now"
  using provisioning_hint_member [OF assms]
  by (auto simp: provisioning_recovery_hint_at_def split: option.splits if_splits)

text \<open>A service is reported as stalled exactly when it has been preparing or starting for more than three
  minutes of this boot, oldest first.\<close>

lemma stalled_services_exact:
  "sorted (map ss_since (stalled_services U svs started now)) \<and>
   set (stalled_services U svs started now) =
     {\<lparr>ss_service = sv_name v, ss_state = sv_state v, ss_since = clamp_since started since\<rparr> |v since.
        v \<in> set svs \<and> sv_since v = Some since \<and> since \<le> now \<and> 3 * Minute < now - clamp_since started since \<and>
        (equal_fold U (sv_state v) ''Preparing'' \<or> equal_fold U (sv_state v) ''Starting'')}"
proof -
  have t: "\<not> time_sub now x \<le> serviceStallThreshold \<longleftrightarrow> 3 * Minute < now - x" for x
    unfolding serviceStallThreshold_def not_le by (rule time_sub_greater) (simp_all add: duration_consts)
  have m: "x \<in> set (stalled_since U started now v) \<longleftrightarrow>
      (\<exists>since. x = \<lparr>ss_service = sv_name v, ss_state = sv_state v, ss_since = clamp_since started since\<rparr> \<and>
        sv_since v = Some since \<and> since \<le> now \<and> 3 * Minute < now - clamp_since started since \<and>
        (equal_fold U (sv_state v) ''Preparing'' \<or> equal_fold U (sv_state v) ''Starting''))" for x v
    by (cases "sv_since v") (auto simp: stalled_since_def t [symmetric])
  have "set (stalled_services U svs started now) = (\<Union>v \<in> set svs. set (stalled_since U started now v))"
    by (simp add: stalled_services_def)
  also have "\<dots> = {\<lparr>ss_service = sv_name v, ss_state = sv_state v, ss_since = clamp_since started since\<rparr> |v since.
        v \<in> set svs \<and> sv_since v = Some since \<and> since \<le> now \<and> 3 * Minute < now - clamp_since started since \<and>
        (equal_fold U (sv_state v) ''Preparing'' \<or> equal_fold U (sv_state v) ''Starting'')}"
    using m by blast
  finally show ?thesis by (simp add: stalled_services_def)
qed

lemma observed_since:
  assumes "l = foldl readiness_step [] ops"
    and "sorted_wrt (\<ge>) (now # failure_times (readiness_history (c_name d) (rev ops)))"
    and "pi_cni (c_intent d) \<noteq> []" "c_running d" "\<not> c_kubernetes_ready d"
  shows "\<exists>s. c_not_ready_since (snd (observe_readiness_one now d l)) = Some s \<and>
    watched (Failed now # readiness_history (c_name d) (rev ops)) s"
proof -
  have "map_of l (c_name d) = run_of (readiness_history (c_name d) (rev ops))"
    unfolding assms(1) by (rule readiness_log_run) (use assms(2) in simp)
  from observe_run_of(2) [OF this] assms(2)
  have "snd (readiness_observe l (c_name d) False now) = run_start (Failed now # readiness_history (c_name d) (rev ops))"
    by simp
  then show ?thesis
    using run_start_Failed [of now "readiness_history (c_name d) (rev ops)"] run_start_watched assms(3-5)
    by (auto simp: observe_readiness_one_def split_beta)
qed

subsection \<open>Properties\<close>

text \<open>C12: The costliest advice is earned. If a whole status round of the daemon advises to destroy a cluster
  with nodes, then over everything the daemon has observed of it - through any earlier rounds, for any
  clusters, and any forgetting - the readiness check has been failing for at least two minutes, every time
  it was made, and it was made at least every ten minutes.\<close>

theorem destroy_advice_watched:
  assumes round: "dispatch_status U env vms t0 load clusters args running now1 now2 now3 (t, r) = (st, Inr (answer, ls))"
    and names: "\<And>items. clusters = Inr items \<Longrightarrow> distinct (map cl_name items)"
    and past: "t_readiness t = foldl readiness_step [] ops"
    and clock: "sorted_wrt (\<ge>) (now2 # failure_times (readiness_history (c_name c) (rev ops)))"
    and member: "(c, reasons, hints) \<in> set answer" and nodes: "c_nodes c \<noteq> []"
    and advice: "ProvisioningHint cni (DestroyAndRecreate n f) name \<in> set hints"
  shows "\<exists>s. watched (Failed now2 # readiness_history (c_name c) (rev ops)) s \<and> 2 * Minute \<le> now3 - s"
proof -
  obtain statuses where st: "status env vms t0 load clusters args = Inr statuses"
    "answer_statuses U env running now1 now2 now3 (t, r) statuses = (st, answer, ls)"
    using round by (auto simp: dispatch_status_def split: sum.splits prod.splits)
  from status_items [OF st(1) names] obtain items where
    items: "statuses = map (initial_status env vms t0) items" "distinct (map c_name statuses)" .
  from answer_statuses_member [OF st(2) items(2) member] obtain c0 d where
    c0: "c0 \<in> set (map (initial_status env vms t0) items)" "same_cluster c0 d"
    and c: "c = fst (refresh_storage_one r now3 (snd (observe_readiness_one now2 d (t_readiness t))))"
    and h: "hints = hints_at (env_trusted env) c now3" unfolding items(1) .
  note destroy = destroy_hint_member [OF advice [unfolded h]]
  have dc: "same_cluster d c" unfolding c by (rule same_cluster_trans [OF same_cluster_observe same_cluster_storage])
  have "c_running d"
  proof (rule ccontr)
    assume "\<not> c_running d"
    then have "list_all (\<lambda>n. phase_stopped (n_phase n)) (c_nodes c0)"
      using c0 initial_not_running_stopped by (fastforce simp: same_cluster_def list_all_iff)
    moreover have "list_all2 same_node (c_nodes c0) (c_nodes c)"
      using same_cluster_trans [OF c0(2) dc] by (simp add: same_cluster_def)
    ultimately have "all_nodes phase_stopped c"
      using nodes by (auto simp: all_nodes_def list_all_length list_all2_conv_all_nth same_node_def)
    with destroy(2) show False by simp
  qed
  moreover have "pi_cni (c_intent d) \<noteq> []" "\<not> c_kubernetes_ready d" "c_name d = c_name c"
    using destroy(1) dc by (simp_all add: provisioning_pending_def same_cluster_def c refresh_storage_keeps
        observe_readiness_one_def split_beta split: if_splits)
  ultimately obtain s where s: "c_not_ready_since c = Some s"
    "watched (Failed now2 # readiness_history (c_name c) (rev ops)) s"
    using observed_since [OF past, of now2 d] clock by (auto simp: c refresh_storage_keeps)
  have "\<not> time_sub now3 s < 2 * Minute"
    using destroy(3) s(1) by (simp add: kubernetes_unready_briefly_def kubernetes_unready_for_def unreadyEscalationWindow_def)
  then have "2 * Minute \<le> now3 - s" by (simp add: time_sub_less duration_consts)
  with s(2) show ?thesis by blast
qed

definition sample_env :: status_env where
  "sample_env = \<lparr>env_lookup_ip = \<lambda>_ _. [], env_probe = \<lambda>_. no_probe, env_boot_time = \<lambda>_ _. None,
     env_services = \<lambda>_ _. ([], \<lparr>sp_status = ServiceProbeFailed, sp_source = [], sp_error = []\<rparr>),
     env_kubernetes_ready = \<lambda>_ _. False, env_load_balancer_vip = \<lambda>_. None, env_cluster_saved = \<lambda>_. False,
     env_node_saved = \<lambda>_ _. False, env_stale = \<lambda>_. False, env_hypervisor = \<lambda>_. ''qemu'',
     env_guest_agent = \<lambda>_. Inr (True, []), env_trusted = \<lambda>_. True\<rparr>"

definition sample_lab :: cluster where
  "sample_lab = zero_cluster\<lparr>cl_name := ''lab'', cl_intent := no_intent\<lparr>pi_cni := CNICilium\<rparr>,
     cl_nodes := [\<lparr>node_name = ''lab-cp-1'', node_role = RoleControlPlane, node_mac = ''52:54:00:aa:bb:cc'', node_ip = []\<rparr>],
     cl_config_origin := OriginImperative\<rparr>"

definition sample_past :: trackers where
  "sample_past = no_trackers\<lparr>t_readiness := foldl readiness_step [] [ObserveReadiness ''lab'' False 0]\<rparr>"

lemmas sample_round_simps = sample_env_def sample_lab_def sample_past_def zero_cluster_def no_intent_def no_trackers_def
  no_probe_def

definition sample_answer :: "(cluster_status \<times> reason list \<times> hint list) list" where
  "sample_answer = fst (snd (answer_statuses (\<lambda>_ _. False) sample_env (\<lambda>_. True) (3 * Minute) (3 * Minute) (3 * Minute)
     (sample_past, new_registry) (map (initial_status sample_env [(''lab'', [(''lab-cp-1'', True)])] sample_past) [sample_lab])))"

lemma sample_answer_fields:
  "\<exists>c. sample_answer = [(c, converging_reasons c (3 * Minute), hints_at (\<lambda>_. True) c (3 * Minute))] \<and>
     c_name c = ''lab'' \<and> c_intent c = no_intent\<lparr>pi_cni := CNICilium\<rparr> \<and> c_kubernetes_ready c = False \<and>
     c_config_origin c = OriginImperative \<and> c_not_ready_since c = Some 0 \<and>
     (\<exists>n. c_nodes c = [n] \<and> n_phase n = PhaseUnreachable \<and> n_kubelet n = None)"
  by (simp add: sample_answer_def answer_statuses_def initial_status_def initial_node_status_def node_snapshot_def
      suspended_phase_def classify_phase_def cluster_running_def node_running_def refresh_node_statuses_def
      refresh_live_def refresh_details_def refresh_node_live_def refresh_node_detail_def node_status_with_def
      phase_stopped_def phase_configured_def reachability_observe_def log_node_stalls_def log_node_stall_def
      stall_observe_def refresh_kubernetes_readiness_one_def observe_kubernetes_readiness_def
      observe_readiness_one_def readiness_observe_def unreadyRunAbandonWindow_def time_sub_def duration_consts
      refresh_storage_phases_def refresh_storage_step_def refresh_storage_one_def CNICilium_def CNIFlannel_def
      new_registry_def Let_def split_beta sample_round_simps)

theorem destroy_advice_watched_witness:
  "\<exists>s. watched (Failed (3 * Minute) # readiness_history ''lab'' (rev [ObserveReadiness ''lab'' False 0])) s \<and>
     2 * Minute \<le> 3 * Minute - s"
proof -
  from sample_answer_fields obtain c m where
    a: "sample_answer = [(c, converging_reasons c (3 * Minute), hints_at (\<lambda>_. True) c (3 * Minute))]"
    and c: "c_name c = ''lab''" "c_intent c = no_intent\<lparr>pi_cni := CNICilium\<rparr>" "\<not> c_kubernetes_ready c"
      "c_config_origin c = OriginImperative" "c_not_ready_since c = Some 0" "c_nodes c = [m]"
      "n_phase m = PhaseUnreachable" "n_kubelet m = None"
    by blast
  have "provisioning_pending c" "\<not> all_nodes phase_stopped c" "kubelet_crash_loop_hint c = None"
    "\<not> kubernetes_unready_briefly c (3 * Minute)"
    by (simp_all add: provisioning_pending_def all_nodes_def phase_stopped_def kubelet_crash_loop_hint_def
        kubernetes_unready_briefly_def kubernetes_unready_for_def unreadyEscalationWindow_def time_sub_def
        duration_consts CNICilium_def c)
  note advice = destroy_hintI [OF this(1-3) c(4) this(4), of "\<lambda>_. True"]
  obtain st answer ls where r: "answer_statuses (\<lambda>_ _. False) sample_env (\<lambda>_. True) (3 * Minute) (3 * Minute)
      (3 * Minute) (sample_past, new_registry)
      (map (initial_status sample_env [(''lab'', [(''lab-cp-1'', True)])] sample_past) [sample_lab]) = (st, answer, ls)"
    by (metis prod_cases3)
  have round: "dispatch_status (\<lambda>_ _. False) sample_env [(''lab'', [(''lab-cp-1'', True)])] sample_past
      (\<lambda>_. Inl ()) (Inr [sample_lab]) (Inr ([], [])) (\<lambda>_. True) (3 * Minute) (3 * Minute) (3 * Minute)
      (sample_past, new_registry) = (st, Inr (answer, ls))"
    using r by (simp add: dispatch_status_def status_def try_bind_def)
  have answer: "answer = sample_answer" unfolding sample_answer_def r by simp
  have past: "t_readiness sample_past = foldl readiness_step [] [ObserveReadiness ''lab'' False 0]"
    by (simp add: sample_past_def)
  have member: "(c, converging_reasons c (3 * Minute), hints_at (\<lambda>_. True) c (3 * Minute)) \<in> set answer"
    by (simp add: answer a)
  have clock: "sorted_wrt (\<ge>) (3 * Minute # failure_times (readiness_history (c_name c) (rev [ObserveReadiness ''lab'' False 0])))"
    by (simp add: c duration_consts)
  have names: "distinct (map cl_name items)" if "Inr [sample_lab] = (Inr items :: unit + cluster list)" for items
    using that by auto
  have "c_nodes c \<noteq> []" by (simp add: c)
  from destroy_advice_watched [OF round names past clock member this advice]
  show ?thesis by (simp only: c)
qed

end
