(* ===== verification/Provision_Passes.thy ===== *)
theory Provision_Passes
  imports Provision_Registry
begin

text \<open>
  The life of provisioning passes in the registry: the runner of a batch and the decision that a cluster
  needs no pass (\<^verbatim>\<open>runProvisionTasks\<close>, \<^verbatim>\<open>provisioningComplete\<close> of \<^verbatim>\<open>src/internal/daemon/provision.go\<close>), that every
  issued pass is current or cancelled, and that one which lost its place never writes again.
\<close>

subsection \<open>Superseded passes\<close>

fun passes_begun :: "registry_op \<Rightarrow> nat" where
  "passes_begun (BeginPasses items _) = length items"
| "passes_begun (NodeMutation _ _) = 1"
| "passes_begun (BgpChange _ _) = 1"
| "passes_begun _ = 0"

text \<open>A generation has been issued when the sequence has reached it; every issued one is current for some
  cluster or its context has been cancelled.\<close>

definition issued :: "registry \<Rightarrow> 64 word \<Rightarrow> bool" where
  "issued s g \<longleftrightarrow> g \<noteq> 0 \<and> g \<le> rg_sequence s"

definition passes_ok :: "registry \<Rightarrow> bool" where
  "passes_ok s \<longleftrightarrow> (\<forall>g. issued s g \<longrightarrow> g \<in> set (rg_cancelled s) \<or> (\<exists>name. is_current s name g))"

text \<open>What a step may do to the passes: the sequence does not go back, a generation is current afterwards only
  if it was before or is new, and one that stops being current is cancelled.\<close>

definition advances :: "registry \<Rightarrow> registry \<Rightarrow> bool" where
  "advances s t \<longleftrightarrow> rg_sequence s \<le> rg_sequence t \<and> set (rg_cancelled s) \<subseteq> set (rg_cancelled t) \<and>
     (\<forall>name g. is_current t name g \<longrightarrow> is_current s name g \<or> rg_sequence s < g) \<and>
     (\<forall>name g. is_current s name g \<longrightarrow> is_current t name g \<or> g \<in> set (rg_cancelled t)) \<and>
     (\<forall>g. rg_sequence s < g \<longrightarrow> g \<le> rg_sequence t \<longrightarrow> g \<in> set (rg_cancelled t) \<or> (\<exists>name. is_current t name g))"

lemma advances_refl [intro]: "advances s s"
  by (auto simp: advances_def)

lemma advances_same:
  "rg_provisions t = rg_provisions s \<Longrightarrow> rg_sequence t = rg_sequence s \<Longrightarrow> rg_cancelled t = rg_cancelled s \<Longrightarrow>
   advances s t"
  by (auto simp: advances_def is_current_def)

lemma advances_trans:
  assumes "advances s t" "advances t u"
  shows "advances s u"
  unfolding advances_def
proof (intro conjI allI impI)
  show "rg_sequence s \<le> rg_sequence u" "set (rg_cancelled s) \<subseteq> set (rg_cancelled u)"
    using assms by (auto simp: advances_def)
  show "is_current s name g \<or> rg_sequence s < g" if "is_current u name g" for name g
    using assms that unfolding advances_def by (metis order.strict_trans2 order_le_less_trans)
  show "is_current u name g \<or> g \<in> set (rg_cancelled u)" if "is_current s name g" for name g
    using assms that unfolding advances_def by blast
  show "g \<in> set (rg_cancelled u) \<or> (\<exists>name. is_current u name g)"
    if "rg_sequence s < g" "g \<le> rg_sequence u" for g
    using assms that unfolding advances_def by (meson linorder_not_le subsetD)
qed

lemma advances_retire: "advances s (retire_pass name s)"
  by (auto simp: advances_def is_current_def retire_pass_def cancel_pass_def delete_conv' split: option.splits)

lemma advances_cancel: "advances s (cancel_pass name s)"
  by (auto simp: advances_def is_current_def cancel_pass_def split: option.split)

lemma advances_begin:
  assumes "unat (rg_sequence (fst st)) + 1 < 2 ^ 64"
  shows "advances (fst st) (fst (begin_provision_task skip st item)) \<and>
    unat (rg_sequence (fst (begin_provision_task skip st item))) \<le> unat (rg_sequence (fst st)) + 1"
proof (cases "cluster_is_provisioned item")
  case True
  define s where "s = fst st"
  define name where "name = cl_name item"
  define s1 where "s1 = (if pi_csi (cl_intent item) \<noteq> [] \<and> \<not> skip then
      (invalidate_storage_phase s name)
        \<lparr>rg_phases := AList.update name StoragePhaseProvisioning (rg_phases (invalidate_storage_phase s name))\<rparr> else s)"
  define g where "g = rg_sequence s + 1"
  define t where "t = fst (begin_provision_task skip st item)"
  have t: "t = (cancel_pass name s1)\<lparr>rg_sequence := rg_sequence s1 + 1,
      rg_provisions := AList.update name \<lparr>ap_generation = rg_sequence s1 + 1, ap_skip_storage = skip\<rparr>
        (rg_provisions s1)\<rparr>"
    using True by (simp add: t_def begin_provision_task_def split_beta s_def name_def s1_def Let_def cancel_pass_simps)
  have s1: "rg_sequence s1 = rg_sequence s" "rg_provisions s1 = rg_provisions s" "rg_cancelled s1 = rg_cancelled s"
    by (simp_all add: s1_def invalidate_storage_phase_def cancel_probe_simps)
  have f: "rg_sequence t = g" "is_current t name g" "\<And>n h. n \<noteq> name \<Longrightarrow> is_current t n h = is_current s n h"
    "\<And>h. is_current t name h \<Longrightarrow> h = g" "set (rg_cancelled s) \<subseteq> set (rg_cancelled t)"
    "\<And>h. is_current s name h \<Longrightarrow> h \<in> set (rg_cancelled t)"
    by (auto simp: t s1 g_def is_current_def update_conv' cancel_pass_def split: option.splits)
  have lt: "rg_sequence s < g" using assms unfolding g_def s_def by (rule word_less_succ)
  have new: "h = g" if "rg_sequence s < h" "h \<le> g" for h
  proof (rule ccontr)
    assume "h \<noteq> g"
    with that(2) have "h < rg_sequence s + 1" by (simp add: g_def)
    then have "h \<le> rg_sequence s" by (rule less_inc_imp_less_eq)
    with that(1) show False by simp
  qed
  have "advances s t"
    unfolding advances_def using f lt new by (metis order_less_imp_le)
  moreover have "unat (rg_sequence t) \<le> unat (rg_sequence s) + 1" unfolding f(1) g_def by (rule unat_succ)
  ultimately show ?thesis by (simp add: s_def t_def)
next
  case False
  then show ?thesis by (simp add: begin_provision_task_def split_beta advances_refl)
qed

lemma spend: "a \<le> b + c \<Longrightarrow> b + (c + d) < N \<Longrightarrow> a + d < (N :: nat)"
  by linarith

lemma advances_begins:
  "unat (rg_sequence (fst st)) + length items < 2 ^ 64 \<Longrightarrow>
   advances (fst st) (fst (foldl (begin_provision_task skip) st items)) \<and>
   unat (rg_sequence (fst (foldl (begin_provision_task skip) st items))) \<le> unat (rg_sequence (fst st)) + length items"
proof (induction items arbitrary: st)
  case (Cons item items)
  define u where "u = begin_provision_task skip st item"
  have n: "unat (rg_sequence (fst st)) + (1 + length items) < 2 ^ 64"
    using Cons.prems by (simp only: list.size add.commute add_Suc_right plus_1_eq_Suc add_0)
  have b: "unat (rg_sequence (fst st)) + 1 < 2 ^ 64" using n by linarith
  note one = advances_begin [OF b, of skip item]
  have "unat (rg_sequence (fst u)) + length items < 2 ^ 64"
    unfolding u_def by (rule spend [OF conjunct2 [OF one] n])
  from Cons.IH [OF this] one show ?case
    using advances_trans [of "fst st" "fst u"] unfolding u_def by simp
qed auto

lemma advances_fold_retire: "advances s (fold retire_pass ns s)"
  by (induction ns arbitrary: s) (auto intro: advances_trans advances_retire)

lemma advances_storage:
  "advances s (invalidate_storage_phase s name)" "advances s (observe_provision_gate s name g gate msg now)"
  "advances s (record_storage_phase_if_current s name g ph)"
  "advances s (record_storage_failure_if_current s name g cause)"
  "advances s (fst (begin_storage_status_probe running s name now))"
  "advances s (run_storage_status_probe running s name g outcome now)"
  by (rule advances_same; auto simp: invalidate_storage_phase_def observe_provision_gate_def
      record_storage_phase_if_current_def record_storage_phase_def record_storage_failure_if_current_def
      begin_storage_status_probe_def run_storage_status_probe_def cancel_probe_simps Let_def
      split: probe_outcome.split)+

lemma sequence_storage:
  "rg_sequence (invalidate_storage_phase s name) = rg_sequence s"
  "rg_sequence (observe_provision_gate s name g gate msg now) = rg_sequence s"
  "rg_sequence (record_storage_phase_if_current s name g ph) = rg_sequence s"
  "rg_sequence (record_storage_failure_if_current s name g cause) = rg_sequence s"
  "rg_sequence (fst (begin_storage_status_probe running s name now)) = rg_sequence s"
  "rg_sequence (run_storage_status_probe running s name g outcome now) = rg_sequence s"
  by (auto simp: invalidate_storage_phase_def observe_provision_gate_def
      record_storage_phase_if_current_def record_storage_phase_def record_storage_failure_if_current_def
      begin_storage_status_probe_def run_storage_status_probe_def cancel_probe_simps Let_def
      split: probe_outcome.split)

lemma sequence_fold_retire: "rg_sequence (fold retire_pass ns s) = rg_sequence s"
  by (induction ns arbitrary: s) (simp_all add: retire_pass_simps)

lemma advances_step:
  assumes "unat (rg_sequence s) + passes_begun op < 2 ^ 64"
  shows "advances s (registry_step s op) \<and>
    unat (rg_sequence (registry_step s op)) \<le> unat (rg_sequence s) + passes_begun op"
proof -
  note begins = advances_begins [of "(s, [])"]
  show ?thesis
  proof (cases op)
    case (BeginPasses items skip)
    then show ?thesis using begins [of items skip] assms by (simp add: begin_provision_tasks_scoped_def)
  next
    case (NodeMutation active item)
    then show ?thesis using begins [of "[item]" False] assms
      by (simp add: begin_provision_tasks_scoped_def begin_node_mutation_provision_def split_beta
          advances_storage sequence_storage)
  next
    case (BgpChange active item)
    then show ?thesis using begins [of "[item]"] assms
      by (simp add: begin_provision_tasks_scoped_def begin_bgp_provision_def split_beta advances_refl Let_def)
  qed (simp_all add: advances_storage sequence_storage advances_refl advances_retire advances_cancel
      finish_provision_def drain_provision_def cancel_provision_def cancel_provision_for_handover_def
      cancel_all_provisions_def advances_fold_retire sequence_fold_retire retire_pass_simps cancel_pass_simps)
qed

lemma advances_run:
  "unat (rg_sequence s) + sum_list (map passes_begun ops) < 2 ^ 64 \<Longrightarrow>
   advances s (foldl registry_step s ops) \<and>
   unat (rg_sequence (foldl registry_step s ops)) \<le> unat (rg_sequence s) + sum_list (map passes_begun ops)"
proof (induction ops arbitrary: s)
  case (Cons op ops)
  have n: "unat (rg_sequence s) + (passes_begun op + sum_list (map passes_begun ops)) < 2 ^ 64"
    using Cons.prems by (simp only: list.map sum_list.Cons)
  have b: "unat (rg_sequence s) + passes_begun op < 2 ^ 64" using n by linarith
  note one = advances_step [OF b]
  have "unat (rg_sequence (registry_step s op)) + sum_list (map passes_begun ops) < 2 ^ 64"
    by (rule spend [OF conjunct2 [OF one] n])
  from Cons.IH [OF this] one show ?case using advances_trans [of s "registry_step s op"] by simp
qed auto

text \<open>The writes a pass can attempt.\<close>

definition pass_write :: "string \<Rightarrow> 64 word \<Rightarrow> registry_op \<Rightarrow> bool" where
  "pass_write name g op \<longleftrightarrow> (case op of GateObserved n h _ _ _ \<Rightarrow> n = name \<and> h = g | PassDone n h _ \<Rightarrow> n = name \<and> h = g
     | StorageStageFailed n h _ \<Rightarrow> n = name \<and> h = g | FinishPass n h \<Rightarrow> n = name \<and> h = g | _ \<Rightarrow> False)"

lemma not_current_silent: "\<not> is_current s name g \<Longrightarrow> pass_write name g op \<Longrightarrow> registry_step s op = s"
  by (cases op) (simp_all add: pass_write_def observe_provision_gate_def record_storage_phase_if_current_def
      record_storage_failure_if_current_def finish_provision_def)

lemma advances_not_current:
  assumes "advances s t" "issued s g" "\<not> is_current s name g"
  shows "\<not> is_current t name g"
  using assms unfolding advances_def issued_def by (meson linorder_not_le)

lemma passes_ok_advances: "advances s t \<Longrightarrow> passes_ok s \<Longrightarrow> passes_ok t"
  unfolding passes_ok_def advances_def issued_def by (meson linorder_not_le subsetD)

text \<open>C10: A pass that is no longer the current one of its cluster has been cancelled and stays silent. However
  it lost that place - a newer pass, a stop, a drain, a shutdown - its context is cancelled, and at no later
  time does anything it reports back (a gate, a storage phase, a storage failure, its end) change the
  registry.\<close>

theorem superseded_pass_silent:
  assumes "s = foldl registry_step new_registry before" and "issued s g" and "\<forall>name. \<not> is_current s name g"
    and "sum_list (map passes_begun (before @ ops)) < 2 ^ 64" and "pass_write name g op"
  shows "g \<in> set (rg_cancelled s) \<and>
    registry_step (foldl registry_step s ops) op = foldl registry_step s ops"
proof -
  have z: "rg_sequence new_registry = 0" by (simp add: new_registry_def)
  have "unat (rg_sequence new_registry) + sum_list (map passes_begun before) < 2 ^ 64"
    using assms(4) by (simp only: z unsigned_0 add_0 map_append sum_list_append)
  from advances_run [OF this] have s: "advances new_registry s"
    and le: "unat (rg_sequence s) \<le> sum_list (map passes_begun before)"
    unfolding assms(1) by (simp_all add: z)
  have "passes_ok new_registry" by (auto simp: passes_ok_def issued_def new_registry_def)
  with s have "passes_ok s" by (rule passes_ok_advances)
  then have c: "g \<in> set (rg_cancelled s)" using assms(2,3) by (auto simp: passes_ok_def)
  have "unat (rg_sequence s) + sum_list (map passes_begun ops) < 2 ^ 64"
    using assms(4) le by (simp only: map_append sum_list_append)
  from advances_run [OF this] have "\<not> is_current (foldl registry_step s ops) name g"
    using advances_not_current assms(2,3) by blast
  then show ?thesis using c not_current_silent assms(5) by blast
qed

theorem superseded_pass_silent_witness:
  "registry_step (foldl registry_step new_registry [BeginPasses [sample_item] False, CancelPass ''dev'', BeginPasses [sample_item] True])
     (PassDone ''dev'' 1 FastNoop) =
   foldl registry_step new_registry [BeginPasses [sample_item] False, CancelPass ''dev'', BeginPasses [sample_item] True]"
proof -
  define s where "s = foldl registry_step new_registry [BeginPasses [sample_item] False, CancelPass ''dev'']"
  have "rg_sequence s = 1" "rg_provisions s = []"
    by (simp_all add: s_def begin_provision_tasks_scoped_def begin_provision_task_def cluster_is_provisioned_def
        invalidate_storage_phase_def cancel_probe_def cancel_pass_def new_registry_def cancel_provision_def
        retire_pass_def update_conv' Let_def sample_item_simps)
  then have "issued s 1" "\<forall>name. \<not> is_current s name 1" by (simp_all add: issued_def is_current_def)
  from superseded_pass_silent [OF s_def this, of "[BeginPasses [sample_item] True]" "''dev''" "PassDone ''dev'' 1 FastNoop"]
  show ?thesis by (simp add: s_def pass_write_def)
qed

subsection \<open>Running the passes\<close>

text \<open>The probes that decide whether a pass has anything to do: files, Kubernetes and the host's BGP
  speaker, the last of which may not answer.\<close>

record completion_probes =
  cp_credentials :: bool
  cp_ready :: bool
  cp_vip_live :: bool
  cp_dir :: bool
  cp_kubeconfig :: bool
  cp_scheduling :: bool
  cp_storage :: bool
  cp_cilium :: bool
  cp_bgp_active :: "bool option"
  cp_bgp_disabled :: bool

definition provisioning_complete_eligible :: "provisioning_intent \<Rightarrow> bool \<Rightarrow> bool \<Rightarrow> bool \<Rightarrow> bool \<Rightarrow> bool" where
  "provisioning_complete_eligible intent credentials ready vipLive hubbleConverged \<longleftrightarrow>
     (if (pi_cni intent \<noteq> CNIFlannel \<and> pi_cni intent \<noteq> CNICilium) \<or> \<not> credentials \<or> \<not> ready then False
      else if pi_lb intent \<and> \<not> vipLive then False
      else pi_cni intent \<noteq> CNICilium \<or> hubbleConverged)"

definition provisioning_complete :: "completion_probes \<Rightarrow> cluster \<Rightarrow> bool" where
  "provisioning_complete p item =
     (let i = cl_intent item; vipLive = (pi_lb i \<and> cp_vip_live p)
      in if \<not> cp_credentials p then False
         else if \<not> cp_ready p then False
         else if \<not> cp_dir p \<or> \<not> cp_kubeconfig p then False
         else if \<not> cp_scheduling p then False
         else if pi_csi i \<noteq> [] \<and> \<not> cp_storage p then False
         else if pi_cni i = CNICilium then
           (if \<not> cp_cilium p then False
            else if pi_lb i then
              (if \<not> vipLive then False
               else (case cp_bgp_active p of None \<Rightarrow> False | Some active \<Rightarrow> active = pi_bgp i))
            else True)
         else provisioning_complete_eligible i True (cp_ready p) vipLive True)"

definition try_fast_noop_reconcile :: "completion_probes \<Rightarrow> cluster \<Rightarrow> bool" where
  "try_fast_noop_reconcile p item =
     (if \<not> provisioning_complete p item then False
      else if pi_cni (cl_intent item) = CNICilium \<and> pi_lb (cl_intent item) \<and> \<not> pi_bgp (cl_intent item)
        then cp_bgp_disabled p
      else True)"

text \<open>Both ways to the verdict agree: a cluster found complete meets every requested end state.\<close>

lemma provisioning_complete_is_eligible:
  "provisioning_complete p item \<Longrightarrow> cluster_is_provisioned item \<Longrightarrow>
   provisioning_complete_eligible (cl_intent item) (cp_credentials p) (cp_ready p) (cp_vip_live p) (cp_cilium p)"
  by (auto simp: provisioning_complete_def provisioning_complete_eligible_def cluster_is_provisioned_def Let_def
      CNICilium_def CNIFlannel_def split: if_splits)

datatype run_outcome = RunOk pass_result | RunFailed string | RunStorageFailed string

text \<open>What the runner of a batch of passes does to the registry, and the error it returns: each pass is
  recorded and retired; the first that fails cancels those behind it.\<close>

fun run_provision_tasks ::
    "(provision_task \<Rightarrow> run_outcome) \<Rightarrow> provision_task list \<Rightarrow> registry_op list \<times> string option" where
  "run_provision_tasks outcome [] = ([], None)"
| "run_provision_tasks outcome (t # ts) =
     (let name = cl_name (pt_item t); g = pt_generation t;
          ops = (if pi_csi (cl_intent (pt_item t)) \<noteq> [] \<and> \<not> pt_skip_storage t then
                   [case outcome t of
                      RunStorageFailed m \<Rightarrow> StorageStageFailed name g m
                    | RunFailed _ \<Rightarrow> PassDone name g Aborted
                    | RunOk r \<Rightarrow> PassDone name g r]
                 else []) @ [FinishPass name g];
          failed = (\<lambda>m. (ops @ map (\<lambda>u. CancelPass (cl_name (pt_item u))) ts, Some m))
      in case outcome t of
           RunOk _ \<Rightarrow> (case run_provision_tasks outcome ts of (ops', e) \<Rightarrow> (ops @ ops', e))
         | RunFailed m \<Rightarrow> failed m
         | RunStorageFailed m \<Rightarrow> failed m)"

lemma record_keeps_provisions:
  "rg_provisions (record_storage_phase_if_current s name g ph) = rg_provisions s"
  "rg_provisions (record_storage_failure_if_current s name g cause) = rg_provisions s"
  by (simp_all add: record_storage_phase_if_current_def record_storage_failure_if_current_def
      record_storage_phase_def cancel_probe_simps Let_def)

lemma cancelled_batch:
  "map_of (rg_provisions (foldl registry_step s (map (\<lambda>u. CancelPass (cl_name (pt_item u))) ts))) n =
   (if n \<in> (\<lambda>u. cl_name (pt_item u)) ` set ts then None else map_of (rg_provisions s) n)"
  by (induction ts arbitrary: s) (simp_all add: cancel_provision_def retire_pass_simps)

lemma retired_batch:
  "\<forall>t \<in> set ts. is_current s (cl_name (pt_item t)) (pt_generation t) \<Longrightarrow> distinct (map (\<lambda>t. cl_name (pt_item t)) ts) \<Longrightarrow>
   map_of (rg_provisions (foldl registry_step s (fst (run_provision_tasks outcome ts)))) n =
   (if n \<in> (\<lambda>t. cl_name (pt_item t)) ` set ts then None else map_of (rg_provisions s) n)"
proof (induction ts arbitrary: s)
  case (Cons t ts)
  define name where "name = cl_name (pt_item t)"
  define rec where "rec = (if pi_csi (cl_intent (pt_item t)) \<noteq> [] \<and> \<not> pt_skip_storage t then
      [case outcome t of RunStorageFailed m \<Rightarrow> StorageStageFailed name (pt_generation t) m
       | RunFailed _ \<Rightarrow> PassDone name (pt_generation t) Aborted | RunOk r \<Rightarrow> PassDone name (pt_generation t) r] else [])"
  define s1 where "s1 = foldl registry_step s (rec @ [FinishPass name (pt_generation t)])"
  have "rg_provisions (foldl registry_step s rec) = rg_provisions s"
    by (simp add: rec_def record_keeps_provisions split: run_outcome.split)
  moreover from this have "is_current (foldl registry_step s rec) name (pt_generation t)"
    using Cons.prems(1) by (simp add: is_current_def name_def)
  ultimately have p: "map_of (rg_provisions s1) k = (if k = name then None else map_of (rg_provisions s) k)" for k
    by (simp add: s1_def finish_provision_def retire_pass_simps)
  have other: "\<forall>u \<in> set ts. is_current s1 (cl_name (pt_item u)) (pt_generation u)"
  proof
    fix u assume u: "u \<in> set ts"
    then have "cl_name (pt_item u) \<noteq> name" using Cons.prems(2) by (force simp: name_def)
    then show "is_current s1 (cl_name (pt_item u)) (pt_generation u)"
      using Cons.prems(1) u by (simp add: is_current_def p)
  qed
  have e: "foldl registry_step s (fst (run_provision_tasks outcome (t # ts))) =
      foldl registry_step s1 (case outcome t of RunOk _ \<Rightarrow> fst (run_provision_tasks outcome ts)
        | _ \<Rightarrow> map (\<lambda>u. CancelPass (cl_name (pt_item u))) ts)"
    by (cases "outcome t") (simp_all add: s1_def rec_def name_def Let_def split_beta)
  show ?case
    unfolding e using Cons.IH [OF other] Cons.prems(2)
    by (cases "outcome t") (auto simp: p cancelled_batch name_def)
qed simp

lemma begin_task_effect:
  assumes "begin_provision_task skip (s, tasks) item = (t, tasks')"
  shows "if cluster_is_provisioned item then
      (\<exists>u. tasks' = tasks @ [u] \<and> pt_item u = item \<and> is_current t (cl_name item) (pt_generation u)) \<and>
      (\<forall>n. n \<noteq> cl_name item \<longrightarrow> map_of (rg_provisions t) n = map_of (rg_provisions s) n)
    else t = s \<and> tasks' = tasks"
  using assms by (auto simp: begin_provision_task_def Let_def is_current_def update_conv' cancel_pass_simps
      invalidate_storage_phase_def cancel_probe_simps)

lemma begin_batch_effect:
  assumes "foldl (begin_provision_task skip) (s, tasks) items = (t, tasks')"
    and "distinct (map (\<lambda>u. cl_name (pt_item u)) tasks @ map cl_name items)"
    and "\<forall>u \<in> set tasks. is_current s (cl_name (pt_item u)) (pt_generation u)"
  shows "(\<forall>u \<in> set tasks'. is_current t (cl_name (pt_item u)) (pt_generation u)) \<and>
    map pt_item tasks' = map pt_item tasks @ filter cluster_is_provisioned items \<and>
    (\<forall>n. n \<notin> cl_name ` set items \<longrightarrow> map_of (rg_provisions t) n = map_of (rg_provisions s) n)"
  using assms
proof (induction items arbitrary: s tasks)
  case (Cons item items)
  obtain s1 tasks1 where one: "begin_provision_task skip (s, tasks) item = (s1, tasks1)"
    by (cases "begin_provision_task skip (s, tasks) item")
  note eff = begin_task_effect [OF one]
  have run: "foldl (begin_provision_task skip) (s1, tasks1) items = (t, tasks')"
    using Cons.prems(1) one by simp
  have others: "cl_name (pt_item u) \<noteq> cl_name item" if "u \<in> set tasks" for u
    using Cons.prems(2) that by force
  have cur: "\<forall>u \<in> set tasks1. is_current s1 (cl_name (pt_item u)) (pt_generation u)"
    using eff Cons.prems(3) others by (auto simp: is_current_def split: if_splits)
  have dis: "distinct (map (\<lambda>u. cl_name (pt_item u)) tasks1 @ map cl_name items)"
  proof -
    consider u where "tasks1 = tasks @ [u]" "pt_item u = item" | "tasks1 = tasks"
      using eff by (auto split: if_splits)
    then show ?thesis by cases (use Cons.prems(2) in simp_all)
  qed
  show ?case
    using Cons.IH [OF run dis cur] eff by (auto split: if_splits)
qed simp

lemma begin_skips:
  assumes "begin_provision_tasks_scoped s items skip = (t, tasks)"
    and "\<not> (\<exists>item \<in> set items. cluster_is_provisioned item \<and> cl_name item = n)"
  shows "map_of (rg_provisions t) n = map_of (rg_provisions s) n"
proof -
  have "map_of (rg_provisions (fst (foldl (begin_provision_task skip) st items))) n = map_of (rg_provisions (fst st)) n"
    for st using assms(2)
  proof (induction items arbitrary: st)
    case (Cons item items)
    obtain s1 tasks1 where one: "begin_provision_task skip st item = (s1, tasks1)"
      by (cases "begin_provision_task skip st item")
    have "map_of (rg_provisions s1) n = map_of (rg_provisions (fst st)) n"
      using begin_task_effect [of skip "fst st" "snd st" item s1 tasks1] one Cons.prems
      by (auto split: if_splits)
    then show ?case using Cons one by simp
  qed simp
  from this [of "(s, [])"] assms(1) show ?thesis by (simp add: begin_provision_tasks_scoped_def)
qed



text \<open>A change of the BGP mode never strands a storage install: if the pass it replaces was driving storage,
  so is the new one.\<close>

lemma bgp_change_keeps_storage_scope:
  assumes "cluster_ready item node_active" "cluster_is_provisioned item"
    "map_of (rg_provisions s) (cl_name item) = Some a" "\<not> ap_skip_storage a"
    "begin_bgp_provision node_active s item = (t, tasks, deferred)"
  shows "\<not> deferred \<and> (\<exists>b. map_of (rg_provisions t) (cl_name item) = Some b \<and> \<not> ap_skip_storage b)"
  using assms by (auto simp: begin_bgp_provision_def begin_provision_tasks_scoped_def begin_provision_task_def
      Let_def update_conv')

text \<open>A pass that leaves storage alone also leaves the gate its predecessor last reported, so for the time
  such a report counts as fresh a status shows it as what the new pass waits on.\<close>

lemma scoped_pass_keeps_old_gate:
  assumes "cluster_is_provisioned item" "map_of (rg_blockers s) (cl_name item) = Some b"
  shows "map_of (rg_blockers (fst (begin_provision_tasks_scoped s [item] True))) (cl_name item) = Some b"
  using assms by (simp add: begin_provision_tasks_scoped_def begin_provision_task_def cancel_pass_simps Let_def)

end
