(* ===== verification/Gate_Log.thy ===== *)
theory Gate_Log
  imports Provision_Registry
begin

text \<open>
  How the gates of a pass reach the daemon's log: \<^verbatim>\<open>reportGate\<close> of \<^verbatim>\<open>src/internal/provision/gate.go\<close> hands an
  observation to the observer of the pass, and \<^verbatim>\<open>gateLogger\<close> of \<^verbatim>\<open>src/internal/daemon/provision.go\<close> narrates it,
  at most once per interval and gate.
\<close>

definition gateLogInterval :: int where "gateLogInterval = 45 * Second"

text \<open>An observation without a gate or without a blocker is dropped; no observer may be installed.\<close>

definition report_gate :: "(string \<Rightarrow> string \<Rightarrow> 's \<Rightarrow> 's) option \<Rightarrow> string \<Rightarrow> string option \<Rightarrow> 's \<Rightarrow> 's" where
  "report_gate observer gate blocker s =
     (case blocker of
        None \<Rightarrow> s
      | Some err \<Rightarrow> if gate = [] then s else (case observer of None \<Rightarrow> s | Some f \<Rightarrow> f gate err s))"

text \<open>The state is the gate and the time of the last line; before the first line the time is the zero time,
  which is farther back than any interval.\<close>

type_synonym gate_log = "string \<times> int option"

text \<open>A line of the log: gate, message and time.\<close>

type_synonym gate_line = "string \<times> string \<times> int"

definition gate_logger :: "gate_log \<Rightarrow> string \<Rightarrow> string option \<Rightarrow> int \<Rightarrow> gate_log \<times> gate_line list" where
  "gate_logger s gate blocker now =
     (case s of (lastGate, lastLog) \<Rightarrow>
        if gate = lastGate \<and> (case lastLog of Some t \<Rightarrow> time_sub now t < gateLogInterval | None \<Rightarrow> False)
        then (s, [])
        else ((gate, Some now), [(gate, blocker_message blocker, now)]))"

text \<open>The observations of one pass, in order.\<close>

definition gate_step :: "gate_log \<times> gate_line list \<Rightarrow> string \<times> string \<times> int \<Rightarrow> gate_log \<times> gate_line list" where
  "gate_step = (\<lambda>(s, lines) (gate, err, now).
     report_gate (Some (\<lambda>gate err (s, lines).
         case gate_logger s gate (Some err) now of (s, l) \<Rightarrow> (s, lines @ l))) gate (Some err) (s, lines))"

abbreviation gate_lines :: "(string \<times> string \<times> int) list \<Rightarrow> gate_log \<times> gate_line list" where
  "gate_lines obs \<equiv> foldl gate_step (([], None), []) obs"

lemma gate_step_if:
  "gate_step (s, lines) (gate, err, now) =
     (if gate = [] \<or> gate = fst s \<and> (\<exists>t. snd s = Some t \<and> now - t < gateLogInterval) then (s, lines)
      else ((gate, Some now), lines @ [(gate, blocker_message (Some err), now)]))"
  by (cases s) (auto simp: gate_step_def report_gate_def gate_logger_def gateLogInterval_def duration_consts
      time_sub_less split: option.split)

text \<open>The state of the logger is its last line.\<close>

lemma gate_log_last:
  "fst (gate_lines obs) =
     (case rev (snd (gate_lines obs)) of [] \<Rightarrow> ([], None) | (g, _, t) # _ \<Rightarrow> (g, Some t))"
proof (induction obs rule: rev_induct)
  case (snoc x obs)
  obtain g e t where x: "x = (g, e, t)" by (metis prod_cases3)
  obtain s ls where g: "gate_lines obs = (s, ls)" by (metis surj_pair)
  show ?case using snoc by (simp add: x g gate_step_if)
qed simp

text \<open>The log of a pass is neither silent nor flooded. Two lines in a row about the same gate are at least
  45 seconds apart, and an observation that is not narrated found the last line to be about the same gate
  and less than 45 seconds old; so the moment a pass moves on to another gate is always in the log.\<close>

lemma gate_log_spaced:
  "successively (\<lambda>(g, _, t) (g', _, t'). g = g' \<longrightarrow> gateLogInterval \<le> t' - t) (snd (gate_lines obs))"
proof (induction obs rule: rev_induct)
  case (snoc x obs)
  obtain g e t where x: "x = (g, e, t)" by (metis prod_cases3)
  obtain s ls where g: "gate_lines obs = (s, ls)" by (metis surj_pair)
  show ?case
    using snoc gate_log_last [of obs]
    by (cases ls rule: rev_cases) (auto simp: x g gate_step_if successively_append_iff)
qed simp

lemma gate_log_complete:
  assumes "g \<noteq> []"
  shows "(let ls = snd (gate_lines (obs @ [(g, e, t)]))
    in ls \<noteq> [] \<and> (\<exists>m t'. last ls = (g, m, t') \<and> (t' = t \<and> m = blocker_message (Some e) \<or> t - t' < gateLogInterval)))"
proof -
  obtain s ls where g: "gate_lines obs = (s, ls)" by (metis surj_pair)
  show ?thesis
    using gate_log_last [of obs] assms
    by (cases ls rule: rev_cases) (auto simp: g gate_step_if split: prod.splits)
qed

end
