(* ===== verification/Spec2Isabelle.thy ===== *)
theory Spec2Isabelle
  imports Provisioning Cluster_Model Reservations Cluster_Nodes Cluster_Store Subnets Domains
    Talos_Version Config Dns_Message Dns_Server Resolver_Set Balloon_Plan Balloon_Manager
    Host_Pressure Balloon_Gate Frame_Router Helper_State Linux_Network Console Preemption
    Shell_Quote Node_Tracking Status_Round Provision_Passes Gate_Log
begin

text \<open>
  Verification of talosbox, a tool that runs local Talos Linux clusters in virtual machines. A
  command-line client (\<^verbatim>\<open>cmd/tbx\<close>) talks to a user daemon (\<^verbatim>\<open>cmd/tbxd\<close>, \<^verbatim>\<open>internal/daemon\<close>) that owns
  clusters and virtual machines, and a privileged helper (\<^verbatim>\<open>cmd/tbx-helper\<close>, \<^verbatim>\<open>internal/helper\<close>) that
  owns networking. Clusters are described in a configuration file, live in one document per cluster
  under the user's home, have a /24 subnet and a domain each, and share the memory of the host.

  \<^bold>\<open>Ground.\<close> \<^verbatim>\<open>Tbx_Prelude\<close> has 64-bit integers with wrap-around (\<open>i64\<close>), errors as left values of a sum
  (\<open>try_bind\<close>, \<open>fold_try\<close>), Go maps that are ranged over as association lists, and the locale of
  transition systems. \<^verbatim>\<open>Go_Strings\<close>, \<^verbatim>\<open>Go_Net\<close>, \<^verbatim>\<open>Go_Hash\<close>, \<^verbatim>\<open>Go_Binary\<close>, \<^verbatim>\<open>Go_Float\<close> and \<^verbatim>\<open>Go_Time\<close>
  model what the source uses of the standard library: string functions and number syntax, IP
  addresses and networks, SHA-256 and FNV-1a, network byte order, float64 with correct rounding, and
  the arithmetic and printing of times.

  \<^bold>\<open>Clusters.\<close> \<^verbatim>\<open>Provisioning\<close> (\<^verbatim>\<open>cluster/provisioning.go\<close>) validates intents; \<^verbatim>\<open>Cluster_Model\<close>
  (\<^verbatim>\<open>cluster/cluster.go\<close>) has the record of a cluster and its constructor \<open>new_cluster\<close>;
  \<^verbatim>\<open>Reservations\<close> (\<^verbatim>\<open>cluster/reservation.go\<close>, \<^verbatim>\<open>lease.go\<close>) the addresses of nodes; \<^verbatim>\<open>Cluster_Nodes\<close>
  (\<^verbatim>\<open>cluster/node.go\<close>) adding and removing nodes as a step system that keeps \<open>cluster_ok\<close>;
  \<^verbatim>\<open>Cluster_Store\<close> (\<^verbatim>\<open>cluster/store.go\<close>) the documents on a file system in which every system call
  of a save can be the one that fails; \<^verbatim>\<open>Subnets\<close> (\<^verbatim>\<open>cluster/subnet.go\<close>) the choice of a subnet
  against the interfaces and routes of the host. The lemmas show that saving is atomic, that loading
  migrates once and then settles, that operations keep clusters well-formed and addresses distinct,
  and that the subnet chosen is the least one that is free.

  \<^bold>\<open>Inputs.\<close> \<^verbatim>\<open>Domains\<close> (\<^verbatim>\<open>domain/domain.go\<close>), \<^verbatim>\<open>Talos_Version\<close> (\<^verbatim>\<open>talosversion/talosversion.go\<close>) and
  \<^verbatim>\<open>Config\<close> (\<^verbatim>\<open>config/config.go\<close>) validate what the user writes; the YAML decoder is not part of the
  repository and enters as the decoded record or an error.

  \<^bold>\<open>Names.\<close> \<^verbatim>\<open>Dns_Message\<close> (\<^verbatim>\<open>dns/message.go\<close>) encodes and decodes messages byte by byte;
  \<^verbatim>\<open>Dns_Server\<close> (\<^verbatim>\<open>dns/resolver.go\<close>, \<^verbatim>\<open>server.go\<close>, \<^verbatim>\<open>forward.go\<close>) decides who answers what, sockets and
  upstream servers being parameters; \<^verbatim>\<open>Resolver_Set\<close> (\<^verbatim>\<open>resolverset/resolverset.go\<close>) plans resolver
  files. The lemmas are round trips of messages, ownership by the longest domain, and that owned
  names are never forwarded.

  \<^bold>\<open>Memory.\<close> \<^verbatim>\<open>Balloon_Plan\<close> (\<^verbatim>\<open>balloon/plan.go\<close>) shares a deficit over guests; \<^verbatim>\<open>Balloon_Manager\<close>
  (\<^verbatim>\<open>balloon/manager.go\<close>) is the periodic tick with its ledger; \<^verbatim>\<open>Host_Pressure\<close> (\<^verbatim>\<open>hostpressure\<close>)
  turns readings into findings; \<^verbatim>\<open>Balloon_Gate\<close> (\<^verbatim>\<open>daemon/balloon.go\<close>) admits a start by making
  running guests smaller first. Guests are a record of functions over a world of their own type, so
  that a set call may fail and may change any reading. The lemmas show that plans stay between floor
  and size and reclaim the deficit up to rounding, that ticks keep this, and that an admitted start
  leaves the reserve.

  \<^bold>\<open>Network.\<close> \<^verbatim>\<open>Frame_Router\<close> (\<^verbatim>\<open>helper/router.go\<close>) learns which attachment owns which address and
  forwards IPv4 frames between cluster subnets; its events are the steps of a started system whose
  invariant ties every bound address to an open port of its subnet. \<^verbatim>\<open>Linux_Network\<close>
  (\<^verbatim>\<open>helper/linux_network_model.go\<close>, \<^verbatim>\<open>linux_nftables_model.go\<close>) decides which links and subnets are
  the helper's and in which order the host is changed, the kernel being a record of operations that
  may fail. \<^verbatim>\<open>Helper_State\<close> (\<^verbatim>\<open>helper/state.go\<close>) holds every user's reservations; a run of pushes,
  failures and restarts refines updates of one map.

  \<^bold>\<open>Concurrency.\<close> \<^verbatim>\<open>Console\<close> (\<^verbatim>\<open>hypervisor/ring.go\<close>, \<^verbatim>\<open>console.go\<close>) is an inductive step relation over
  the loops of the console proxy; rule induction shows what a client has received in every reachable
  state. \<^verbatim>\<open>Preemption\<close> (\<^verbatim>\<open>daemon/preempt.go\<close>) interleaves announcements and registrations and shows
  that none is lost. What happens under a lock is one step.

  \<^bold>\<open>Status.\<close> \<^verbatim>\<open>Node_Status\<close> (\<^verbatim>\<open>daemon/phase.go\<close>, the records of \<^verbatim>\<open>operations.go\<close>) classifies nodes and
  their services; \<^verbatim>\<open>Reboot_Log\<close> (\<^verbatim>\<open>daemon/reboot.go\<close>), \<^verbatim>\<open>Readiness_Log\<close> (\<^verbatim>\<open>readiness_log.go\<close>) and
  \<^verbatim>\<open>Node_Tracking\<close> (\<^verbatim>\<open>node_stall.go\<close>) are what the daemon remembers between concurrent status rounds. The
  lemmas show that late answers are refused, that the age of a failure is the one its history gives,
  and that stalls are reported once. \<^verbatim>\<open>Shell_Quote\<close> (\<^verbatim>\<open>shellquote/shellquote.go\<close>) shows that a quoted
  command is read back word by word. \<^verbatim>\<open>Status_Hints\<close> is the advice of \<^verbatim>\<open>phase.go\<close>, as data and as the text printed. \<^verbatim>\<open>Status_Round\<close> composes one
  answer the way \<^verbatim>\<open>dispatchStatus\<close> does: snapshot, live nodes, services, reboots, readiness, storage, advice;
  leases, probes and saved files are functions of its environment. The lemmas show that the parts of the
  advice do not contradict each other, and that a cluster is only given up after its failure was watched.

  \<^bold>\<open>Provisioning passes.\<close> \<^verbatim>\<open>Provision_Registry\<close> (\<^verbatim>\<open>daemon/provision.go\<close>, \<^verbatim>\<open>provision/gate.go\<close>) is the registry of
  running passes, gates, storage phases and status probes, each operation one step under the lock;
  \<^verbatim>\<open>Provision_Passes\<close> adds the runner of a batch, \<^verbatim>\<open>Gate_Log\<close> the narration of gates. The lemmas show, for every sequence of steps, that a storage
  failure is settled, that a superseded pass is cancelled and writes nothing, and that a batch retires all
  its passes. The 64-bit generations are assumed not to wrap around within a run.

  \<^bold>\<open>Bounds.\<close> No definition uses fuel: the loops recurse on data or have a measure (the active nodes of
  a plan, the labels of a name); the loop of a plan is also shown to stop as the code writes it. A function that divides or indexes returns an option, None being the
  panic of the source, and the theorems show Some. Arithmetic theorems are stated for sizes below
  2 to the 31 MiB, far above any host and low enough that no product leaves 64 bits; the theorems
  about overflow show what happens beyond.

  \<^bold>\<open>Not modelled.\<close> Virtual machines, sockets, Kubernetes and Talos clients, the registry mirror, image
  downloads, and the command line: they are calls to other programs and services. So are the stages of a
  provisioning pass, of which only the outcome enters, and the daemon's handlers that start, stop, suspend
  and snapshot machines. Looking up a talosconfig or a trust receipt reads files; status takes the answer
  from its environment. Tickers and contexts that expire are represented by the steps they cause.
\<close>

end
